(* ===== verification/Webserv_Prelude.thy ===== *)
theory Webserv_Prelude
  imports Main "HOL-Library.Word" "HOL-Library.Char_ord" "HOL-Library.List_Lexorder"
    "HOL-Library.Sublist"
begin

text \<open>
  Vocabulary shared by every component of the web server.

  A \<open>std::string\<close> is a list of bytes (\<open>string\<close>); its operations are the ones the
  sources call. A \<open>const char*\<close> into the buffer of a string is the list of the bytes that
  are left; reading at its end gives the terminating NUL byte, and nothing in the sources reads
  past it. \<open>size_t\<close> is \<open>nat\<close> with the wrap-around at \<open>2 ^ 64\<close> written out where the
  sources compute with it, \<open>ptrdiff_t\<close>, \<open>long\<close> and \<open>int\<close> are \<open>int\<close> with the
  conversions written out.
  A function that may throw returns \<open>exn + 'a\<close>; which exceptions there are is the matter
  of the theory of the HTTP types.
\<close>

named_theorems str_simps \<open>laws of the string operations\<close>
named_theorems byte_defs \<open>the byte classes, unfolded\<close>

subsection \<open>Results that may be an exception\<close>

definition and_then :: "'e + 'a \<Rightarrow> ('a \<Rightarrow> 'e + 'b) \<Rightarrow> 'e + 'b" where
  "and_then m f = (case m of Inl e \<Rightarrow> Inl e | Inr x \<Rightarrow> f x)"

lemma and_then_simps [simp]:
  "and_then (Inl e) f = Inl e"
  "and_then (Inr x) f = f x"
  by (simp_all add: and_then_def)

lemma and_then_Inr_iff:
  "and_then m f = Inr y \<longleftrightarrow> (\<exists>x. m = Inr x \<and> f x = Inr y)"
  by (cases m) simp_all

lemma and_then_Inl_iff:
  "and_then m f = Inl e \<longleftrightarrow> m = Inl e \<or> (\<exists>x. m = Inr x \<and> f x = Inl e)"
  by (cases m) simp_all

lemma and_then_assoc: "and_then (and_then m f) g = and_then m (\<lambda>x. and_then (f x) g)"
  by (cases m) simp_all

lemma and_then_cong [fundef_cong]:
  "m = m' \<Longrightarrow> (\<And>x. m' = Inr x \<Longrightarrow> f x = f' x) \<Longrightarrow> and_then m f = and_then m' f'"
  by (cases m') simp_all

lemma and_thenE:
  assumes "and_then m f = Inr y"
  obtains x where "m = Inr x" and "f x = Inr y"
  using assms by (cases m) simp_all

text \<open>A guard that throws.\<close>

definition throw_if :: "bool \<Rightarrow> 'e \<Rightarrow> 'e + unit" where
  "throw_if b e = (if b then Inl e else Inr ())"

lemma throw_if_simps [simp]:
  "throw_if True e = Inl e"
  "throw_if False e = Inr ()"
  by (simp_all add: throw_if_def)

lemma throw_if_Inr_iff [simp]: "throw_if b e = Inr u \<longleftrightarrow> \<not> b"
  by (simp add: throw_if_def)

lemma throw_if_Inl_iff [simp]: "throw_if b e = Inl e' \<longleftrightarrow> b \<and> e = e'"
  by (simp add: throw_if_def)

subsection \<open>Machine integers\<close>

definition size_max :: nat where
  "size_max = 2 ^ 64 - 1"

definition sz_add :: "nat \<Rightarrow> nat \<Rightarrow> nat" where
  "sz_add a b = (a + b) mod 2 ^ 64"

definition sz_sub :: "nat \<Rightarrow> nat \<Rightarrow> nat" where
  "sz_sub a b = (if b \<le> a then a - b else 2 ^ 64 - (b - a) mod 2 ^ 64)"

lemma sz_sub_le [simp]: "b \<le> a \<Longrightarrow> sz_sub a b = a - b"
  by (simp add: sz_sub_def)

lemma sz_add_small [simp]: "a + b < 2 ^ 64 \<Longrightarrow> sz_add a b = a + b"
  by (simp add: sz_add_def)

text \<open>The conversion of a \<open>size_t\<close> to \<open>ptrdiff_t\<close> and back: two's complement.\<close>

definition to_ptrdiff :: "nat \<Rightarrow> int" where
  "to_ptrdiff n = (if n < 2 ^ 63 then int n else int n - 2 ^ 64)"

definition ptrdiff_to_size :: "int \<Rightarrow> nat" where
  "ptrdiff_to_size i = nat (i mod 2 ^ 64)"

lemma ptrdiff_to_size_to_ptrdiff: "n < 2 ^ 64 \<Longrightarrow> ptrdiff_to_size (to_ptrdiff n) = n"
  by (simp add: ptrdiff_to_size_def to_ptrdiff_def mod_pos_pos_trivial)

lemma to_ptrdiff_small [simp]: "n < 2 ^ 63 \<Longrightarrow> to_ptrdiff n = int n"
  by (simp add: to_ptrdiff_def)

lemma ptrdiff_to_size_int [simp]: "n < 2 ^ 64 \<Longrightarrow> ptrdiff_to_size (int n) = n"
  by (simp add: ptrdiff_to_size_def mod_pos_pos_trivial)

subsection \<open>Bytes\<close>

abbreviation NUL :: char where "NUL \<equiv> CHR 0x00"
abbreviation TAB :: char where "TAB \<equiv> CHR 0x09"
abbreviation LF :: char where "LF \<equiv> CHR 0x0A"
abbreviation CR :: char where "CR \<equiv> CHR 0x0D"
abbreviation SP :: char where "SP \<equiv> CHR 0x20"

abbreviation CRLF :: string where "CRLF \<equiv> [CR, LF]"

text \<open>The C library's classes in the "C" locale, on bytes.\<close>

definition is_digit :: "char \<Rightarrow> bool" where
  [byte_defs]: "is_digit c \<longleftrightarrow> CHR ''0'' \<le> c \<and> c \<le> CHR ''9''"

definition is_alpha :: "char \<Rightarrow> bool" where
  [byte_defs]: "is_alpha c \<longleftrightarrow>
     CHR ''A'' \<le> c \<and> c \<le> CHR ''Z'' \<or> CHR ''a'' \<le> c \<and> c \<le> CHR ''z''"

definition is_alnum :: "char \<Rightarrow> bool" where
  [byte_defs]: "is_alnum c \<longleftrightarrow> is_digit c \<or> is_alpha c"

definition is_space :: "char \<Rightarrow> bool" where
  [byte_defs]: "is_space c \<longleftrightarrow> c = SP \<or> TAB \<le> c \<and> c \<le> CR"

definition to_lower_byte :: "char \<Rightarrow> char" where
  [byte_defs]: "to_lower_byte c =
     (if CHR ''A'' \<le> c \<and> c \<le> CHR ''Z'' then char_of (of_char c + 32 :: nat) else c)"

text \<open>\<open>c - '0'\<close>\<close>

definition digit_value :: "char \<Rightarrow> nat" where
  "digit_value c = of_char c - 48"

definition digit_char :: "nat \<Rightarrow> char" where
  "digit_char d = char_of (48 + d)"

lemma char_le_iff: "c \<le> d \<longleftrightarrow> of_char c \<le> (of_char d :: nat)"
  by (simp only: less_eq_char_def)

lemma of_digit_char: "d < 10 \<Longrightarrow> of_char (digit_char d) = 48 + d"
  by (simp add: digit_char_def)

lemma is_digit_nat: "is_digit c \<longleftrightarrow> 48 \<le> (of_char c :: nat) \<and> of_char c \<le> (57 :: nat)"
  by (simp only: is_digit_def char_le_iff) simp

lemma is_digit_digit_char [simp]: "d < 10 \<Longrightarrow> is_digit (digit_char d)"
  by (simp add: is_digit_nat of_digit_char)

lemma digit_value_digit_char [simp]: "d < 10 \<Longrightarrow> digit_value (digit_char d) = d"
  by (simp add: digit_value_def of_digit_char)

lemma digit_value_less: "is_digit c \<Longrightarrow> digit_value c < 10"
  by (auto simp: is_digit_nat digit_value_def)

lemma digit_char_digit_value [simp]: "is_digit c \<Longrightarrow> digit_char (digit_value c) = c"
  by (auto simp: is_digit_nat digit_value_def digit_char_def)

lemma ex_Cons_append:
  "(\<exists>u. c # p = u @ q \<and> Q u) \<longleftrightarrow> (q = c # p \<and> Q []) \<or> (\<exists>u. p = u @ q \<and> Q (c # u))"
  (is "?l \<longleftrightarrow> ?r1 \<or> ?r2")
proof
  assume ?l
  then obtain u where "c # p = u @ q" "Q u" by blast
  then show "?r1 \<or> ?r2" by (cases u) auto
next
  assume "?r1 \<or> ?r2"
  then show ?l
  proof
    assume ?r1
    then show ?l by (intro exI [of _ "[]"]) simp
  next
    assume ?r2
    then obtain u where "p = u @ q" "Q (c # u)" by blast
    then show ?l by (intro exI [of _ "c # u"]) simp
  qed
qed

subsection \<open>Strings\<close>

text \<open>\<open>s[i]\<close> with \<open>i == s.size()\<close> and a \<open>char*\<close> at the end of its string read NUL.\<close>

definition deref :: "string \<Rightarrow> char" where
  "deref p = (case p of [] \<Rightarrow> NUL | c # _ \<Rightarrow> c)"

lemma deref_simps [simp]: "deref [] = NUL" "deref (c # p) = c"
  by (simp_all add: deref_def)

text \<open>\<open>s.find(pat)\<close>: the first position at which \<open>pat\<close> occurs, \<open>None\<close> for \<open>npos\<close>.\<close>

fun str_find :: "string \<Rightarrow> string \<Rightarrow> nat option" where
  "str_find pat [] = (if pat = [] then Some 0 else None)"
| "str_find pat (c # cs) =
     (if prefix pat (c # cs) then Some 0 else map_option Suc (str_find pat cs))"

text \<open>\<open>s.substr(pos, n)\<close> for \<open>pos \<le> s.size()\<close>.\<close>

definition substr :: "string \<Rightarrow> nat \<Rightarrow> nat \<Rightarrow> string" where
  "substr s pos n = take n (drop pos s)"

lemma str_find_Some_iff:
  "str_find pat s = Some i \<longleftrightarrow>
     prefix pat (drop i s) \<and> i \<le> length s \<and> (\<forall>j<i. \<not> prefix pat (drop j s))"
proof (induction s arbitrary: i)
  case Nil
  then show ?case by auto
next
  case (Cons c cs)
  show ?case
  proof (cases i)
    case 0
    then show ?thesis by auto
  next
    case (Suc k)
    then show ?thesis
      using Cons.IH [of k] by (auto simp: less_Suc_eq_0_disj)
  qed
qed

lemma str_find_None_iff: "str_find pat s = None \<longleftrightarrow> \<not> sublist pat s"
  by (induction s) (auto simp: sublist_Cons_right)

lemma prefix_drop_append:
  "prefix pat (drop j s) \<Longrightarrow> prefix pat (drop j (s @ t))"
  by (simp add: prefix_def) (metis append_assoc)

lemma prefix_drop_append_short:
  assumes "prefix pat (drop j (s @ t))" and "j + length pat \<le> length s"
  shows "prefix pat (drop j s)"
proof -
  from assms have "prefix pat (drop j s @ t)" and "length pat \<le> length (drop j s)"
    by simp_all
  then show ?thesis by (metis prefix_append prefix_length_prefix prefixI)
qed

lemma str_find_Some_le: "str_find pat s = Some i \<Longrightarrow> i + length pat \<le> length s"
proof (induction s arbitrary: i)
  case (Cons c cs)
  then show ?case by (auto split: if_splits dest: prefix_length_le)
qed (simp split: if_splits)

lemma str_find_append: 
  assumes "str_find pat s = Some i" 
  shows "str_find pat (s @ t) = Some i"
proof -
  have "\<not> prefix pat (drop j (s @ t))" if "j < i" for j
    using that assms prefix_drop_append_short [of pat j s t] str_find_Some_le [OF assms]
    by (auto simp: str_find_Some_iff)
  then show ?thesis
    using assms prefix_drop_append by (auto simp: str_find_Some_iff simp del: drop_append)
qed

lemma str_find_Some_split:
  assumes "str_find pat s = Some i"
  shows "s = take i s @ pat @ drop (i + length pat) s"
proof -
  from assms have "prefix pat (drop i s)" by (simp add: str_find_Some_iff)
  then obtain u where u: "drop i s = pat @ u" by (auto simp: prefix_def)
  then have "drop (i + length pat) s = u"
    by (metis add.commute append_eq_conv_conj drop_drop)
  with u show ?thesis by (metis append_take_drop_id)
qed

text \<open>\<open>s.rfind(pat, pos)\<close>: the last occurrence that starts at \<open>pos\<close> or before it.\<close>

fun str_rfind_upto :: "string \<Rightarrow> string \<Rightarrow> nat \<Rightarrow> nat option" where
  "str_rfind_upto pat s 0 = (if prefix pat s then Some 0 else None)"
| "str_rfind_upto pat s (Suc pos) =
     (if Suc pos \<le> length s \<and> prefix pat (drop (Suc pos) s) then Some (Suc pos)
      else str_rfind_upto pat s pos)"

definition str_rfind :: "string \<Rightarrow> string \<Rightarrow> nat option" where
  "str_rfind pat s = str_rfind_upto pat s (length s)"

lemma str_rfind_upto_Some:
  "str_rfind_upto pat s pos = Some i \<longleftrightarrow>
     i \<le> pos \<and> i \<le> length s \<and> prefix pat (drop i s) \<and>
     (\<forall>j. i < j \<and> j \<le> pos \<and> j \<le> length s \<longrightarrow> \<not> prefix pat (drop j s))"
proof (induction pos)
  case (Suc pos)
  then show ?case
    by (auto simp: le_Suc_eq)
qed auto

lemma str_rfind_upto_None:
  "str_rfind_upto pat s pos = None \<longleftrightarrow>
     (\<forall>j. j \<le> pos \<and> j \<le> length s \<longrightarrow> \<not> prefix pat (drop j s))"
  by (induction pos) (auto simp: le_Suc_eq)

text \<open>\<open>std::getline(ss, seg, d)\<close> until the stream ends: the pieces between the delimiters; a
  delimiter at the very end does not start another piece.\<close>

fun getline_split :: "char \<Rightarrow> string \<Rightarrow> string \<Rightarrow> string list" where
  "getline_split d acc [] = (if acc = [] then [] else [acc])"
| "getline_split d acc (c # cs) =
     (if c = d then acc # getline_split d [] cs else getline_split d (acc @ [c]) cs)"

lemma getline_split_piece:
  "d \<notin> set seg \<Longrightarrow> getline_split d acc (seg @ d # rest) = (acc @ seg) # getline_split d [] rest"
  by (induction seg arbitrary: acc) auto

lemma getline_split_last:
  "d \<notin> set seg \<Longrightarrow> getline_split d acc seg = (if acc @ seg = [] then [] else [acc @ seg])"
  by (induction seg arbitrary: acc) auto

fun join :: "char \<Rightarrow> string list \<Rightarrow> string" where
  "join d [] = []"
| "join d [x] = x"
| "join d (x # y # zs) = x @ d # join d (y # zs)"

lemma join_Cons: "segs \<noteq> [] \<Longrightarrow> join d (x # segs) = x @ d # join d segs"
  by (cases segs) simp_all

text \<open>What the pieces say of the text: it is their join, with or without a delimiter at its end.\<close>

lemma getline_split_ne: "acc @ s \<noteq> [] \<Longrightarrow> getline_split d acc s \<noteq> []"
  by (induction d acc s rule: getline_split.induct) auto

lemma getline_join_trailing:
  "segs \<noteq> [] \<Longrightarrow> \<forall>seg\<in>set segs. d \<notin> set seg \<Longrightarrow> getline_split d [] (join d segs @ [d]) = segs"
proof (induction segs rule: join.induct)
  case (2 d x)
  then show ?case by (simp add: getline_split_piece)
next
  case (3 d x y zs)
  then show ?case by (simp add: getline_split_piece)
qed simp

lemma getline_join:
  "segs \<noteq> [] \<Longrightarrow> \<forall>seg\<in>set segs. d \<notin> set seg \<Longrightarrow> last segs \<noteq> [] \<Longrightarrow>
     getline_split d [] (join d segs) = segs"
proof (induction segs rule: join.induct)
  case (2 d x)
  then show ?case by (simp add: getline_split_last)
next
  case (3 d x y zs)
  then show ?case by (simp add: getline_split_piece)
qed simp

lemma join_getline:
  "acc @ s \<noteq> [] \<Longrightarrow> acc @ s = join d (getline_split d acc s) \<or>
     acc @ s = join d (getline_split d acc s) @ [d] \<and> s \<noteq> [] \<and> last s = d"
proof (induction d acc s rule: getline_split.induct)
  case (2 d acc c cs)
  show ?case
  proof (cases "c = d \<and> cs \<noteq> []")
    case True
    then have "getline_split d [] cs \<noteq> []" by (simp add: getline_split_ne)
    with 2 True show ?thesis by (auto simp: join_Cons)
  next
    case False
    with 2 show ?thesis by (cases cs) auto
  qed
qed simp

lemma getline_split_no_delim:
  "d \<notin> set acc \<Longrightarrow> seg \<in> set (getline_split d acc s) \<Longrightarrow> d \<notin> set seg"
  by (induction d acc s rule: getline_split.induct) (auto split: if_splits)

end
