(* ===== verification/Http_Types.thy ===== *)
theory Http_Types
  imports Webserv_Prelude
begin

text \<open>
  The HTTP vocabulary of \<open>lib/http\<close> (\<open>Status\<close>, \<open>Method\<close>, \<open>CharValidation\<close>,
  \<open>MimeType\<close>) and the exceptions of \<open>lib/exception\<close>.

  A C++ enumeration value is its integer: \<open>Status\<close> values that the enumeration does not
  name arise from \<open>static_cast\<close> (an error code of the configuration, a status line of a CGI
  program), so \<open>status\<close> wraps the integer and the enumerators are abbreviations.
\<close>

subsection \<open>Status\<close>

datatype status = Status (status_code: int)

abbreviation kOk :: status where "kOk \<equiv> Status 200"
abbreviation kCreated :: status where "kCreated \<equiv> Status 201"
abbreviation kAccepted :: status where "kAccepted \<equiv> Status 202"
abbreviation kNoContent :: status where "kNoContent \<equiv> Status 204"
abbreviation kResetContent :: status where "kResetContent \<equiv> Status 205"
abbreviation kFound :: status where "kFound \<equiv> Status 302"
abbreviation kTemporaryRedirect :: status where "kTemporaryRedirect \<equiv> Status 307"
abbreviation kBadRequest :: status where "kBadRequest \<equiv> Status 400"
abbreviation kUnauthorized :: status where "kUnauthorized \<equiv> Status 401"
abbreviation kForbidden :: status where "kForbidden \<equiv> Status 403"
abbreviation kNotFound :: status where "kNotFound \<equiv> Status 404"
abbreviation kMethodNotAllowed :: status where "kMethodNotAllowed \<equiv> Status 405"
abbreviation kRequestTimeout :: status where "kRequestTimeout \<equiv> Status 408"
abbreviation kLengthRequired :: status where "kLengthRequired \<equiv> Status 411"
abbreviation kPayloadTooLarge :: status where "kPayloadTooLarge \<equiv> Status 413"
abbreviation kUriTooLong :: status where "kUriTooLong \<equiv> Status 414"
abbreviation kRequestHeaderFieldsTooLarge :: status where
  "kRequestHeaderFieldsTooLarge \<equiv> Status 431"
abbreviation kInternalServerError :: status where "kInternalServerError \<equiv> Status 500"
abbreviation kNotImplemented :: status where "kNotImplemented \<equiv> Status 501"
abbreviation kBadGateway :: status where "kBadGateway \<equiv> Status 502"

definition StatusToString :: "status \<Rightarrow> string" where
  "StatusToString s =
     (if s = kOk then ''OK''
      else if s = kCreated then ''Created''
      else if s = kAccepted then ''Accepted''
      else if s = kNoContent then ''No Content''
      else if s = kResetContent then ''Reset Content''
      else if s = kFound then ''Found''
      else if s = kTemporaryRedirect then ''Temporary Redirect''
      else if s = kBadRequest then ''Bad Request''
      else if s = kUnauthorized then ''Unauthorized''
      else if s = kForbidden then ''Forbidden''
      else if s = kNotFound then ''Not Found''
      else if s = kMethodNotAllowed then ''Method Not Allowed''
      else if s = kRequestTimeout then ''Request Timeout''
      else if s = kLengthRequired then ''Length Required''
      else if s = kPayloadTooLarge then ''Payload Too Large''
      else if s = kUriTooLong then ''URI Too Long''
      else if s = kRequestHeaderFieldsTooLarge then ''Request Header Fields Too Large''
      else if s = kInternalServerError then ''Internal Server Error''
      else if s = kNotImplemented then ''Not Implemented''
      else if s = kBadGateway then ''Bad Gateway''
      else ''I'' @ [CHR 0x27] @ ''m a teapot'')"

text \<open>Statuses are ordered by their code, as keys of a \<open>std::map\<close>.\<close>

instantiation status :: linorder
begin

definition less_eq_status :: "status \<Rightarrow> status \<Rightarrow> bool" where
  "less_eq_status s t \<longleftrightarrow> status_code s \<le> status_code t"

definition less_status :: "status \<Rightarrow> status \<Rightarrow> bool" where
  "less_status s t \<longleftrightarrow> status_code s < status_code t"

instance
  by standard (auto simp: less_eq_status_def less_status_def status.expand)

end

lemma less_status_simps [simp]:
  "Status a \<le> Status b \<longleftrightarrow> a \<le> b" "Status a < Status b \<longleftrightarrow> a < b"
  by (simp_all add: less_eq_status_def less_status_def)

text \<open>No reason phrase holds a line break: the phrases the server picks itself are safe in a
  status line.\<close>

lemma StatusToString_no_break: "CR \<notin> set (StatusToString s) \<and> LF \<notin> set (StatusToString s)"
  by (simp add: StatusToString_def)

lemma StatusToString_nonempty: "StatusToString s \<noteq> []"
  by (simp add: StatusToString_def)

subsection \<open>Method\<close>

datatype http_method = kNone | kGet | kHead | kPost | kDelete | kUnknownMethod

fun MethodToString :: "http_method \<Rightarrow> string" where
  "MethodToString kGet = ''GET''"
| "MethodToString kHead = ''HEAD''"
| "MethodToString kPost = ''POST''"
| "MethodToString kDelete = ''DELETE''"
| "MethodToString kUnknownMethod = ''UNKNOWN_METHOD''"
| "MethodToString kNone = ''kNone''"

fun method_index :: "http_method \<Rightarrow> nat" where
  "method_index kNone = 0"
| "method_index kGet = 1"
| "method_index kHead = 2"
| "method_index kPost = 3"
| "method_index kDelete = 4"
| "method_index kUnknownMethod = 5"

lemma method_index_inj: "method_index a = method_index b \<Longrightarrow> a = b"
  by (cases a; cases b) simp_all

text \<open>Methods are ordered as the enumerators are, as members of a \<open>std::set\<close>.\<close>

instantiation http_method :: linorder
begin

definition less_eq_http_method :: "http_method \<Rightarrow> http_method \<Rightarrow> bool" where
  "less_eq_http_method a b \<longleftrightarrow> method_index a \<le> method_index b"

definition less_http_method :: "http_method \<Rightarrow> http_method \<Rightarrow> bool" where
  "less_http_method a b \<longleftrightarrow> method_index a < method_index b"

instance
  by standard (auto simp: less_eq_http_method_def less_http_method_def intro: method_index_inj)

end

subsection \<open>Exceptions\<close>

text \<open>
  What the sources throw. \<open>OutOfRange\<close> is the \<open>std::out_of_range\<close> of \<open>substr\<close> and
  \<open>at\<close>; every one of them is a \<open>std::exception\<close>.
\<close>

datatype exn =
    ResponseStatusException status
  | RuntimeError string
  | BadOptionalAccess
  | InvalidHeader
  | ConnectionClosed
  | OutOfRange

text \<open>\<open>GetStatus\<close> of a \<open>ResponseStatusException\<close>; \<open>None\<close> when the exception is not one.\<close>

fun exn_status :: "exn \<Rightarrow> status option" where
  "exn_status (ResponseStatusException s) = Some s"
| "exn_status _ = None"

abbreviation throw_status :: "status \<Rightarrow> exn + 'a" where
  "throw_status s \<equiv> Inl (ResponseStatusException s)"

text \<open>\<open>Optional<T>::Value()\<close>\<close>

definition Optional_Value :: "'a option \<Rightarrow> exn + 'a" where
  "Optional_Value v = (case v of None \<Rightarrow> Inl BadOptionalAccess | Some x \<Rightarrow> Inr x)"

lemma Optional_Value_simps [simp]:
  "Optional_Value None = Inl BadOptionalAccess"
  "Optional_Value (Some x) = Inr x"
  by (simp_all add: Optional_Value_def)

subsection \<open>Byte classes of the parsers\<close>

text \<open>
  \<open>IsVisibleAscii\<close> compares signed \<open>char\<close>s: a byte from 128 on is negative and below
  \<open>'!'\<close>. On unsigned bytes such a byte is above \<open>'~'\<close>, so it is refused either way.
\<close>

definition IsValidHeaderChar :: "char \<Rightarrow> bool" where
  [byte_defs]: "IsValidHeaderChar c \<longleftrightarrow> SP \<le> c \<and> c \<le> CHR ''~''"

definition IsVisibleAscii :: "char \<Rightarrow> bool" where
  [byte_defs]: "IsVisibleAscii c \<longleftrightarrow> CHR ''!'' \<le> c \<and> c \<le> CHR ''~''"

lemma visible_header_char: "IsVisibleAscii c \<Longrightarrow> IsValidHeaderChar c"
  by (simp only: byte_defs char_le_iff) simp

lemma not_header_char [simp]:
  "\<not> IsValidHeaderChar CR" "\<not> IsValidHeaderChar LF" "\<not> IsValidHeaderChar NUL"
  by (simp_all add: IsValidHeaderChar_def)

lemma not_visible [simp]:
  "\<not> IsVisibleAscii CR" "\<not> IsVisibleAscii LF" "\<not> IsVisibleAscii NUL" "\<not> IsVisibleAscii SP"
  by (simp_all add: IsVisibleAscii_def)

end
