(* ===== verification/String_Utils.thy ===== *)
theory String_Utils
  imports Http_Types
begin

text \<open>
  \<open>lib/utils/string_utils.cpp\<close> and the number formats the parsers go through:
  \<open>ToLowerAscii\<close>, \<open>StrToLong\<close>, \<open>StrToUnsignedShort\<close>, \<open>StartsWith\<close>,
  \<open>GetFirstToken\<close>, \<open>ToString\<close>, and \<open>std::atoi\<close> as the configuration parser calls it.

  \<open>ss >> x\<close> skips white space, reads an optional sign and the digits that follow, and fails
  when there is no digit or the value does not fit; \<open>ss.eof()\<close> then says that nothing is left.
  For an unsigned target a minus sign is accepted and the value is negated modulo the width.
  \<open>atoi\<close> is \<open>strtol\<close> (which clamps to \<open>long\<close>) converted to a 32-bit \<open>int\<close>.
\<close>

subsection \<open>Case folding, prefixes, tokens\<close>

definition ToLowerAscii :: "string \<Rightarrow> string" where
  "ToLowerAscii s = map to_lower_byte s"

definition StartsWith :: "string \<Rightarrow> string \<Rightarrow> bool" where
  "StartsWith str pre =
     (if length str < length pre then False else substr str 0 (length pre) = pre)"

definition GetFirstToken :: "string \<Rightarrow> string \<Rightarrow> string option" where
  "GetFirstToken str delimiter =
     (case str_find delimiter str of None \<Rightarrow> None | Some pos \<Rightarrow> Some (substr str 0 pos))"

lemma StartsWith_prefix: "StartsWith str pre \<longleftrightarrow> prefix pre str"
  by (auto simp: StartsWith_def substr_def prefix_def not_less take_is_prefix
      dest: arg_cong [of _ _ length]) (metis append_take_drop_id)

lemma to_lower_byte_idem [simp]: "to_lower_byte (to_lower_byte c) = to_lower_byte c"
  by (simp add: to_lower_byte_def char_le_iff)

lemma ToLowerAscii_idem [simp]: "ToLowerAscii (ToLowerAscii s) = ToLowerAscii s"
  by (simp add: ToLowerAscii_def)

lemma ToLowerAscii_length [simp]: "length (ToLowerAscii s) = length s"
  by (simp add: ToLowerAscii_def)

lemma to_lower_byte_break [simp]:
  "to_lower_byte c = CR \<longleftrightarrow> c = CR" "to_lower_byte c = LF \<longleftrightarrow> c = LF"
  "to_lower_byte c = CHR '':'' \<longleftrightarrow> c = CHR '':''"
proof -
  have "of_char (to_lower_byte c) = (if (65::nat) \<le> of_char c \<and> of_char c \<le> (90::nat)
      then of_char c + 32 else of_char c :: nat)"
    by (simp add: to_lower_byte_def char_le_iff)
  then have "of_char (to_lower_byte c) = (of_char d :: nat) \<longleftrightarrow> of_char c = (of_char d :: nat)"
    if "of_char d < (65 :: nat)" for d
    using that by auto
  then have "to_lower_byte c = d \<longleftrightarrow> c = d" if "of_char d < (65 :: nat)" for d
    using that by (metis of_char_eq_iff)
  then show "to_lower_byte c = CR \<longleftrightarrow> c = CR" "to_lower_byte c = LF \<longleftrightarrow> c = LF"
    "to_lower_byte c = CHR '':'' \<longleftrightarrow> c = CHR '':''"
    by simp_all
qed

subsection \<open>Decimal digits\<close>

definition dec_value :: "string \<Rightarrow> nat" where
  "dec_value ds = foldl (\<lambda>n c. 10 * n + digit_value c) 0 ds"

fun dec :: "nat \<Rightarrow> string" where
  "dec n = (if n < 10 then [digit_char n] else dec (n div 10) @ [digit_char (n mod 10)])"

declare dec.simps [simp del]

lemma dec_value_snoc [simp]: "dec_value (ds @ [c]) = 10 * dec_value ds + digit_value c"
  by (simp add: dec_value_def)

lemma dec_value_Nil [simp]: "dec_value [] = 0"
  by (simp add: dec_value_def)

lemma dec_value_dec [simp]: "dec_value (dec n) = n"
proof (induction n rule: dec.induct)
  case (1 n)
  then show ?case
    by (cases "n < 10") (simp_all add: dec.simps [of n] dec_value_def [of "[_]"])
qed

lemma dec_digits: "c \<in> set (dec n) \<Longrightarrow> is_digit c"
proof (induction n rule: dec.induct)
  case (1 n)
  then show ?case by (cases "n < 10") (auto simp: dec.simps [of n])
qed

lemma dec_nonempty [simp]: "dec n \<noteq> []"
  by (subst dec.simps) simp

lemma dec_small: "n < 10 \<Longrightarrow> dec n = [digit_char n]"
  by (subst dec.simps) simp

lemma dec_step: "10 \<le> n \<Longrightarrow> dec n = dec (n div 10) @ [digit_char (n mod 10)]"
  by (subst dec.simps) simp

text \<open>No leading zero, and every digit string without one is the numeral of its value.\<close>

lemma dec_hd: "n \<noteq> 0 \<Longrightarrow> hd (dec n) \<noteq> CHR ''0''"
proof (induction n rule: dec.induct)
  case (1 n)
  show ?case
  proof (cases "n < 10")
    case True
    then have "of_char (digit_char n) \<noteq> (of_char (CHR ''0'') :: nat)"
      using "1.prems" by (simp add: of_digit_char)
    with True show ?thesis by (auto simp: dec_small)
  next
    case False
    with 1 show ?thesis by (simp add: dec_step)
  qed
qed

lemma dec_dec_value:
  assumes "ds \<noteq> []" and "\<forall>c\<in>set ds. is_digit c" and "length ds = 1 \<or> hd ds \<noteq> CHR ''0''"
  shows "dec (dec_value ds) = ds"
  using assms
proof (induction ds rule: rev_induct)
  case (snoc c ds)
  have c: "is_digit c" using snoc.prems by simp
  show ?case
  proof (cases "ds = []")
    case True
    with c show ?thesis by (simp add: dec_small digit_value_less dec_value_def)
  next
    case False
    with snoc.prems have ds: "\<forall>c\<in>set ds. is_digit c" "hd ds \<noteq> CHR ''0''"
      by auto
    then have IH: "dec (dec_value ds) = ds" using snoc.IH False by simp
    have "dec_value ds \<noteq> 0"
    proof
      assume "dec_value ds = 0"
      with IH have "ds = [digit_char 0]" by (simp add: dec_small)
      moreover have "digit_char 0 = CHR ''0''" by (simp add: digit_char_def char_of_eq_iff)
      ultimately show False using ds by simp
    qed
    then have "dec (dec_value (ds @ [c])) = dec (dec_value ds) @ [c]"
      using c digit_value_less [OF c] by (subst dec_step) (simp_all add: digit_value_less)
    with IH show ?thesis by simp
  qed
qed simp

lemma dec_value_bound: "\<forall>c\<in>set ds. is_digit c \<Longrightarrow> dec_value ds < 10 ^ length ds"
proof (induction ds rule: rev_induct)
  case (snoc c ds)
  then have "digit_value c < 10" "dec_value ds < 10 ^ length ds"
    by (simp_all add: digit_value_less)
  then show ?case by simp
qed simp

subsection \<open>Reading integers\<close>

text \<open>White space, a sign, digits: the sign, the digits and what follows them.\<close>

definition scan_int :: "string \<Rightarrow> (bool \<times> string \<times> string) option" where
  "scan_int s =
     (let s1 = dropWhile is_space s;
          neg = (deref s1 = CHR ''-'');
          s2 = (if deref s1 = CHR ''-'' \<or> deref s1 = CHR ''+'' then tl s1 else s1);
          ds = takeWhile is_digit s2
      in if ds = [] then None else Some (neg, ds, dropWhile is_digit s2))"

definition StrToLong :: "string \<Rightarrow> int option" where
  "StrToLong s =
     (case scan_int s of
        None \<Rightarrow> None
      | Some (neg, ds, rest) \<Rightarrow>
          (let v = (if neg then - int (dec_value ds) else int (dec_value ds))
           in if v < - (2 ^ 63) \<or> 2 ^ 63 \<le> v then None
              else if rest \<noteq> [] then None
              else Some v))"

definition StrToUnsignedShort :: "string \<Rightarrow> 16 word option" where
  "StrToUnsignedShort s =
     (case scan_int s of
        None \<Rightarrow> None
      | Some (neg, ds, rest) \<Rightarrow>
          (if 65535 < dec_value ds then None
           else if rest \<noteq> [] then None
           else Some (if neg then - word_of_nat (dec_value ds) else word_of_nat (dec_value ds))))"

definition to_int32 :: "int \<Rightarrow> int" where
  "to_int32 v = (v + 2 ^ 31) mod 2 ^ 32 - 2 ^ 31"

definition atoi :: "string \<Rightarrow> int" where
  "atoi s =
     (case scan_int s of
        None \<Rightarrow> 0
      | Some (neg, ds, rest) \<Rightarrow>
          to_int32 (max (- (2 ^ 63)) (min (2 ^ 63 - 1)
            (if neg then - int (dec_value ds) else int (dec_value ds)))))"

text \<open>\<open>ToString\<close> on integers: \<open>oss << value\<close>.\<close>

definition ToString_nat :: "nat \<Rightarrow> string" where
  "ToString_nat n = dec n"

definition ToString_int :: "int \<Rightarrow> string" where
  "ToString_int v = (if v < 0 then CHR ''-'' # dec (nat (- v)) else dec (nat v))"

lemma digit_not_space: "is_digit c \<Longrightarrow> \<not> is_space c"
  by (auto simp: is_digit_nat is_space_def char_le_iff)

lemma digit_not_sign: "is_digit c \<Longrightarrow> c \<noteq> CHR ''-'' \<and> c \<noteq> CHR ''+'' \<and> c \<noteq> NUL \<and> c \<noteq> CHR ''.''"
  by (auto simp: is_digit_nat)

lemma scan_int_digits:
  assumes "ds \<noteq> []" and "\<forall>c\<in>set ds. is_digit c"
  shows "scan_int ds = Some (False, ds, [])"
proof -
  obtain c cs where "ds = c # cs" using assms(1) by (cases ds) auto
  moreover have "takeWhile is_digit ds = ds" using assms(2) by simp
  ultimately show ?thesis
    using assms(2) digit_not_space [of c] digit_not_sign [of c]
    by (simp add: scan_int_def Let_def)
qed

lemma scan_int_minus_digits:
  assumes "ds \<noteq> []" and "\<forall>c\<in>set ds. is_digit c"
  shows "scan_int (CHR ''-'' # ds) = Some (True, ds, [])"
proof -
  obtain c cs where "ds = c # cs" using assms(1) by (cases ds) auto
  moreover have "takeWhile is_digit ds = ds" using assms(2) by simp
  ultimately show ?thesis using assms(2) by (simp add: scan_int_def is_space_def Let_def)
qed

lemma scan_int_digitsD: "scan_int s = Some (neg, ds, rest) \<Longrightarrow> ds \<noteq> [] \<and> (\<forall>c\<in>set ds. is_digit c)"
  by (auto simp: scan_int_def Let_def split: if_splits dest: set_takeWhileD)

lemma StrToLong_range: "StrToLong s = Some v \<Longrightarrow> - (2 ^ 63) \<le> v \<and> v < 2 ^ 63"
  by (auto simp: StrToLong_def Let_def split: option.splits if_splits)

lemma StrToLong_ToString:
  assumes "- (2 ^ 63) \<le> v" and "v < 2 ^ 63"
  shows "StrToLong (ToString_int v) = Some v"
proof (cases "v < 0")
  case True
  with assms show ?thesis
    by (simp add: StrToLong_def ToString_int_def scan_int_minus_digits dec_digits Let_def)
next
  case False
  with assms show ?thesis
    by (simp add: StrToLong_def ToString_int_def scan_int_digits dec_digits Let_def)
qed

lemma StrToUnsignedShort_dec:
  "n < 65536 \<Longrightarrow> StrToUnsignedShort (dec n) = Some (word_of_nat n)"
  by (simp add: StrToUnsignedShort_def scan_int_digits dec_digits)

lemma to_int32_small: "- (2 ^ 31) \<le> v \<Longrightarrow> v < 2 ^ 31 \<Longrightarrow> to_int32 v = v"
  by (simp add: to_int32_def mod_pos_pos_trivial)

lemma atoi_range: "- (2 ^ 31) \<le> atoi s \<and> atoi s < 2 ^ 31"
proof -
  have "- (2 ^ 31) \<le> to_int32 v \<and> to_int32 v < 2 ^ 31" for v
    using pos_mod_sign [of "2 ^ 32" "v + 2 ^ 31"] pos_mod_bound [of "2 ^ 32" "v + 2 ^ 31"]
    by (simp add: to_int32_def)
  then show ?thesis by (auto simp: atoi_def split: option.splits)
qed

lemma atoi_digits:
  "ds \<noteq> [] \<Longrightarrow> \<forall>c\<in>set ds. is_digit c \<Longrightarrow> dec_value ds < 2 ^ 31 \<Longrightarrow> atoi ds = int (dec_value ds)"
  by (simp add: atoi_def scan_int_digits to_int32_small)

lemma atoi_dec: "n < 2 ^ 31 \<Longrightarrow> atoi (dec n) = int n"
  by (simp add: atoi_digits dec_digits)

subsection \<open>Properties\<close>

text \<open>Every \<open>long\<close> that is written as a decimal numeral reads back as itself, and nothing that is
  read lies outside the range of the type.\<close>

theorem number_roundtrip:
  assumes "- (2 ^ 63) \<le> v" and "v < 2 ^ 63"
  shows "StrToLong (ToString_int v) = Some v \<and> (\<forall>s w. StrToLong s = Some w \<longrightarrow> - (2 ^ 63) \<le> w \<and> w < 2 ^ 63)"
  using StrToLong_ToString [OF assms] StrToLong_range by blast

theorem number_roundtrip_witness: "StrToLong (ToString_int (- 42)) = Some (- 42)"
  using number_roundtrip [of "- 42"] by simp

end
