(* ===== verification/Std_Map.thy ===== *)
theory Std_Map
  imports Webserv_Prelude
begin

text \<open>
  \<open>std::map\<close> as the sources use it: entries in key order, \<open>m[k] = v\<close>, \<open>find\<close>,
  \<open>count\<close> and \<open>erase\<close>. The header dictionaries, the CGI meta-variables, the error pages
  and the server table are such maps, and the order of the entries is what
  \<open>HttpResponse::ToHttpString\<close> prints. The clients see the map through the locale
  \<open>ordered_map\<close>.
\<close>

named_theorems map_laws \<open>what a lookup sees after an update\<close>

subsection \<open>The interface\<close>

locale ordered_map =
  fixes empty :: "'m"
    and put :: "'k::linorder \<Rightarrow> 'v \<Rightarrow> 'm \<Rightarrow> 'm"
    and del :: "'k \<Rightarrow> 'm \<Rightarrow> 'm"
    and get :: "'m \<Rightarrow> 'k \<Rightarrow> 'v option"
    and entries :: "'m \<Rightarrow> ('k \<times> 'v) list"
    and invar :: "'m \<Rightarrow> bool"
  assumes get_empty: "get empty k = None"
    and get_put: "get (put k v m) k' = (if k' = k then Some v else get m k')"
    and get_del: "invar m \<Longrightarrow> get (del k m) k' = (if k' = k then None else get m k')"
    and invar_empty: "invar empty"
    and invar_put: "invar m \<Longrightarrow> invar (put k v m)"
    and invar_del: "invar m \<Longrightarrow> invar (del k m)"
    and entries_sorted: "invar m \<Longrightarrow> sorted_wrt (<) (map fst (entries m))"
    and entries_get: "invar m \<Longrightarrow> (k, v) \<in> set (entries m) \<longleftrightarrow> get m k = Some v"
begin

lemma get_put_same: "get (put k v m) k = Some v"
  by (simp add: get_put)

lemma get_put_other: "k' \<noteq> k \<Longrightarrow> get (put k v m) k' = get m k'"
  by (simp add: get_put)

lemma get_fold_put:
  "get (fold (\<lambda>(k, v). put k v) kvs m) k =
     (case map_of (rev kvs) k of None \<Rightarrow> get m k | Some v \<Rightarrow> Some v)"
  by (induction kvs arbitrary: m) (auto simp: get_put map_add_def split: option.splits)

lemma invar_fold_put: "invar m \<Longrightarrow> invar (fold (\<lambda>(k, v). put k v) kvs m)"
  by (induction kvs arbitrary: m) (auto simp: invar_put)

lemma distinct_keys: "invar m \<Longrightarrow> distinct (map fst (entries m))"
  using entries_sorted strict_sorted_iff by blast

lemma key_in_entries: "invar m \<Longrightarrow> k \<in> fst ` set (entries m) \<longleftrightarrow> get m k \<noteq> None"
  using entries_get by force

lemma entries_put: "invar m \<Longrightarrow> (k', v') \<in> set (entries (put k v m)) \<longleftrightarrow>
    (k' = k \<and> v' = v) \<or> (k' \<noteq> k \<and> (k', v') \<in> set (entries m))"
  by (auto simp: entries_get invar_put get_put)

lemma map_of_entries: "invar m \<Longrightarrow> map_of (entries m) k = get m k"
  by (metis distinct_keys entries_get map_of_eq_Some_iff not_None_eq option.exhaust)

end

subsection \<open>The representation: a list of entries in key order\<close>

type_synonym ('k, 'v) std_map = "('k \<times> 'v) list"

fun map_put :: "'k::linorder \<Rightarrow> 'v \<Rightarrow> ('k, 'v) std_map \<Rightarrow> ('k, 'v) std_map" where
  "map_put k v [] = [(k, v)]"
| "map_put k v ((k', v') # m) =
     (if k < k' then (k, v) # (k', v') # m
      else if k = k' then (k, v) # m
      else (k', v') # map_put k v m)"

fun map_get :: "('k, 'v) std_map \<Rightarrow> 'k \<Rightarrow> 'v option" where
  "map_get [] k = None"
| "map_get ((k', v') # m) k = (if k = k' then Some v' else map_get m k)"

fun map_del :: "'k \<Rightarrow> ('k, 'v) std_map \<Rightarrow> ('k, 'v) std_map" where
  "map_del k [] = []"
| "map_del k ((k', v') # m) = (if k = k' then m else (k', v') # map_del k m)"

definition map_has :: "('k, 'v) std_map \<Rightarrow> 'k \<Rightarrow> bool" where
  "map_has m k \<longleftrightarrow> map_get m k \<noteq> None"

definition map_wf :: "('k::linorder, 'v) std_map \<Rightarrow> bool" where
  "map_wf m \<longleftrightarrow> sorted_wrt (<) (map fst m)"

lemma map_get_put [simp, map_laws]:
  "map_get (map_put k v m) k' = (if k' = k then Some v else map_get m k')"
  by (induction m) auto

lemma map_has_put [simp, map_laws]: "map_has (map_put k v m) k' \<longleftrightarrow> k' = k \<or> map_has m k'"
  by (simp add: map_has_def)

lemma map_has_empty [simp]: "\<not> map_has [] k"
  by (simp add: map_has_def)

lemma map_get_notin: "k \<notin> fst ` set m \<Longrightarrow> map_get m k = None"
  by (induction m) auto

lemma map_wf_Nil [simp]: "map_wf []"
  by (simp add: map_wf_def)

lemma map_wf_Cons: "map_wf ((k, v) # m) \<longleftrightarrow> (\<forall>k'\<in>fst ` set m. k < k') \<and> map_wf m"
  by (auto simp: map_wf_def)

lemma map_get_wf: "map_wf m \<Longrightarrow> map_get m k = Some v \<longleftrightarrow> (k, v) \<in> set m"
proof (induction m)
  case (Cons kv m)
  then show ?case by (cases kv) (force simp: map_wf_Cons)
qed simp

lemma map_put_keys: "fst ` set (map_put k v m) = insert k (fst ` set m)"
proof (induction m)
  case (Cons kv m)
  then show ?case by (cases kv) (simp add: insert_commute)
qed simp

lemma map_wf_put [simp, intro]: "map_wf m \<Longrightarrow> map_wf (map_put k v m)"
proof (induction m)
  case (Cons kv m)
  obtain k' v' where "kv = (k', v')" by (cases kv)
  with Cons show ?case by (simp add: map_wf_Cons map_put_keys) (auto dest: order_less_trans)
qed (simp add: map_wf_Cons)

lemma map_del_subset: "set (map_del k m) \<subseteq> set m"
  by (induction m rule: map_del.induct) auto

lemma map_wf_del: "map_wf m \<Longrightarrow> map_wf (map_del k m)"
proof (induction m)
  case (Cons kv m)
  then show ?case using map_del_subset [of k m] by (cases kv) (auto simp: map_wf_Cons)
qed simp

lemma map_get_del:
  "map_wf m \<Longrightarrow> map_get (map_del k m) k' = (if k' = k then None else map_get m k')"
proof (induction m)
  case (Cons kv m)
  then show ?case by (cases kv) (force simp: map_wf_Cons intro: map_get_notin)
qed simp

interpretation std_map: ordered_map "[]" map_put map_del map_get "\<lambda>m. m" map_wf
  by unfold_locales (auto simp: map_get_del map_wf_del map_get_wf map_wf_def [symmetric])

end
