(* ===== verification/Server_Config.thy ===== *)
theory Server_Config
  imports String_Utils Std_Map
begin

text \<open>
  \<open>Location\<close>, \<open>ServerConfig\<close> and \<open>LocationMatch\<close>: the two records of the
  configuration with their setters, which refuse a directive that is repeated, and the routing
  of a URI to a location. A \<open>std::set\<close> of methods is a map to \<open>unit\<close>.

  The results: which location a URI is routed to (the longest name that covers it), what is
  left of the URI, and that the order of the locations in the file does not matter.
\<close>

subsection \<open>\<open>Location\<close>\<close>

record location =
  loc_methods :: "(http_method, unit) std_map"
  loc_name :: string
  loc_root :: string
  loc_autoindex :: bool
  loc_index_file :: string
  loc_upload_path :: string
  loc_redirect :: string
  loc_redirect_status :: status
  loc_cgi_enabled :: bool
  loc_cgi_allowed_extensions :: "string list"
  loc_has_allowed_methods :: bool
  loc_has_root :: bool
  loc_has_autoindex :: bool
  loc_has_index_directive :: bool
  loc_has_upload_path :: bool
  loc_has_redirect :: bool
  loc_has_cgi_enabled :: bool
  loc_has_cgi_allowed_extensions :: bool

definition Location_init :: location where
  "Location_init =
     \<lparr>loc_methods = [], loc_name = ''/'', loc_root = ''./'', loc_autoindex = False,
      loc_index_file = [], loc_upload_path = [], loc_redirect = [], loc_redirect_status = kFound,
      loc_cgi_enabled = False, loc_cgi_allowed_extensions = [], loc_has_allowed_methods = False,
      loc_has_root = False, loc_has_autoindex = False, loc_has_index_directive = False,
      loc_has_upload_path = False, loc_has_redirect = False, loc_has_cgi_enabled = False,
      loc_has_cgi_allowed_extensions = False\<rparr>"

definition AddCgiAllowedExtension :: "string \<Rightarrow> location \<Rightarrow> location" where
  "AddCgiAllowedExtension ext l =
     l\<lparr>loc_cgi_allowed_extensions := loc_cgi_allowed_extensions l @ [ext]\<rparr>"

definition SetHasCgiAllowedExtensions :: "bool \<Rightarrow> location \<Rightarrow> location" where
  "SetHasCgiAllowedExtensions has l = l\<lparr>loc_has_cgi_allowed_extensions := has\<rparr>"

definition AddAllowedMethod :: "http_method \<Rightarrow> location \<Rightarrow> location" where
  "AddAllowedMethod m l = l\<lparr>loc_methods := map_put m () (loc_methods l)\<rparr>"

definition IsMethodAllowed :: "location \<Rightarrow> http_method \<Rightarrow> bool" where
  "IsMethodAllowed l m \<longleftrightarrow> map_has (loc_methods l) m"

definition SetHasAllowedMethods :: "bool \<Rightarrow> location \<Rightarrow> location" where
  "SetHasAllowedMethods has l = l\<lparr>loc_has_allowed_methods := has\<rparr>"

definition SetName :: "string \<Rightarrow> location \<Rightarrow> location" where
  "SetName name l = l\<lparr>loc_name := name\<rparr>"

definition SetRoot :: "string \<Rightarrow> location \<Rightarrow> exn + location" where
  "SetRoot root l =
     (if loc_has_root l then Inl (RuntimeError ''Duplicate root directive'')
      else Inr (l\<lparr>loc_root := root, loc_has_root := True\<rparr>))"

definition SetAutoIndex :: "bool \<Rightarrow> location \<Rightarrow> exn + location" where
  "SetAutoIndex autoindex l =
     (if loc_has_autoindex l then Inl (RuntimeError ''Duplicate autoindex directive'')
      else Inr (l\<lparr>loc_autoindex := autoindex, loc_has_autoindex := True\<rparr>))"

definition SetIndexFile :: "string \<Rightarrow> location \<Rightarrow> exn + location" where
  "SetIndexFile index l =
     (if loc_has_index_directive l then Inl (RuntimeError ''Duplicate index directive'')
      else Inr (l\<lparr>loc_index_file := index, loc_has_index_directive := True\<rparr>))"

definition SetUploadPath :: "string \<Rightarrow> location \<Rightarrow> exn + location" where
  "SetUploadPath path l =
     (if loc_has_upload_path l then Inl (RuntimeError ''Duplicate upload_path directive'')
      else Inr (l\<lparr>loc_upload_path := path, loc_has_upload_path := True\<rparr>))"

definition SetRedirect :: "string \<Rightarrow> location \<Rightarrow> exn + location" where
  "SetRedirect redirect l =
     (if loc_has_redirect l then Inl (RuntimeError ''Duplicate redirect directive'')
      else Inr (l\<lparr>loc_redirect := redirect, loc_redirect_status := kFound, loc_has_redirect := True\<rparr>))"

definition SetCgiEnabled :: "string \<Rightarrow> location \<Rightarrow> exn + location" where
  "SetCgiEnabled val l =
     (if loc_has_cgi_enabled l then Inl (RuntimeError ''Duplicate cgi directive'')
      else if val \<noteq> ''on'' \<and> val \<noteq> ''off'' then Inl (RuntimeError (''Invalid cgi value: '' @ val))
      else Inr (l\<lparr>loc_cgi_enabled := (val = ''on''), loc_has_cgi_enabled := True\<rparr>))"

text \<open>The methods in their order, with a comma and a space before all but the first.\<close>

fun methods_string :: "http_method list \<Rightarrow> string" where
  "methods_string [] = []"
| "methods_string [m] = MethodToString m"
| "methods_string (m # m' # ms) = MethodToString m @ '', '' @ methods_string (m' # ms)"

definition GetAllowedMethodsString :: "location \<Rightarrow> string" where
  "GetAllowedMethodsString l = methods_string (map fst (loc_methods l))"

subsection \<open>\<open>ServerConfig\<close>\<close>

record server_config =
  sc_host :: string
  sc_port :: "16 word"
  sc_server_name :: string
  sc_max_body_size :: int
  sc_errors :: "(status, string) std_map"
  sc_locations :: "location list"
  sc_has_listen :: bool
  sc_has_server_name :: bool
  sc_has_max_body :: bool

definition ServerConfig_init :: server_config where
  "ServerConfig_init =
     \<lparr>sc_host = ''0.0.0.0'', sc_port = 80, sc_server_name = [], sc_max_body_size = 0, sc_errors = [],
      sc_locations = [], sc_has_listen = False, sc_has_server_name = False, sc_has_max_body = False\<rparr>"

definition SetListen :: "string \<Rightarrow> 16 word \<Rightarrow> server_config \<Rightarrow> exn + server_config" where
  "SetListen host port c =
     (if sc_has_listen c then Inl (RuntimeError ''Duplicate listen directive'')
      else Inr (c\<lparr>sc_host := host, sc_port := port, sc_has_listen := True\<rparr>))"

definition SetHost :: "string \<Rightarrow> server_config \<Rightarrow> exn + server_config" where
  "SetHost host c =
     (if sc_has_listen c then Inl (RuntimeError ''Duplicate listen directive'')
      else Inr (c\<lparr>sc_host := host, sc_has_listen := True\<rparr>))"

definition SetPort :: "16 word \<Rightarrow> server_config \<Rightarrow> exn + server_config" where
  "SetPort port c =
     (if sc_has_listen c then Inl (RuntimeError ''Duplicate listen directive'')
      else Inr (c\<lparr>sc_port := port, sc_has_listen := True\<rparr>))"

definition SetServerName :: "string \<Rightarrow> server_config \<Rightarrow> exn + server_config" where
  "SetServerName server_name c =
     (if sc_has_server_name c then Inl (RuntimeError ''Duplicate server_name directive'')
      else Inr (c\<lparr>sc_server_name := server_name, sc_has_server_name := True\<rparr>))"

definition SetMaxBodySize :: "int \<Rightarrow> server_config \<Rightarrow> exn + server_config" where
  "SetMaxBodySize n c =
     (if sc_has_max_body c then Inl (RuntimeError ''Duplicate client_max_body_size directive'')
      else Inr (c\<lparr>sc_max_body_size := n, sc_has_max_body := True\<rparr>))"

definition SetErrorPage :: "status \<Rightarrow> string \<Rightarrow> server_config \<Rightarrow> server_config" where
  "SetErrorPage st path c = c\<lparr>sc_errors := map_put st path (sc_errors c)\<rparr>"

subsection \<open>Routing\<close>

text \<open>The loop moves \<open>end\<close> to the left while the byte before it is a slash and it is above 1.\<close>

fun trim_loop :: "string \<Rightarrow> nat \<Rightarrow> nat" where
  "trim_loop s 0 = 0"
| "trim_loop s (Suc k) = (if 1 < Suc k \<and> s ! k = CHR ''/'' then trim_loop s k else Suc k)"

definition TrimTrailingSlashExceptRoot :: "string \<Rightarrow> string" where
  "TrimTrailingSlashExceptRoot s =
     (if length s \<le> 1 then s else substr s 0 (trim_loop s (length s)))"

definition IsPathPrefix :: "string \<Rightarrow> string \<Rightarrow> bool" where
  "IsPathPrefix uri_key loc_key \<longleftrightarrow>
     (if loc_key = ''/'' then True
      else if length uri_key < length loc_key then False
      else if substr uri_key 0 (length loc_key) \<noteq> loc_key then False
      else if length uri_key = length loc_key then True
      else uri_key ! length loc_key = CHR ''/'')"

definition AddLocation :: "location \<Rightarrow> server_config \<Rightarrow> exn + server_config" where
  "AddLocation l c =
     (let normalized_name = TrimTrailingSlashExceptRoot (loc_name l)
      in if \<exists>l'\<in>set (sc_locations c). TrimTrailingSlashExceptRoot (loc_name l') = normalized_name
         then Inl (RuntimeError (''Duplicate location name: '' @ normalized_name))
         else Inr (c\<lparr>sc_locations := sc_locations c @ [l]\<rparr>))"

record location_match =
  lm_loc :: location
  lm_remainder :: string

text \<open>The loop over the locations, with the best match so far and its length.\<close>

fun find_location :: "string \<Rightarrow> location list \<Rightarrow> location option \<Rightarrow> nat \<Rightarrow> location option" where
  "find_location uri_key [] best best_len = best"
| "find_location uri_key (l # ls) best best_len =
     (let loc_key = TrimTrailingSlashExceptRoot (loc_name l)
      in if IsPathPrefix uri_key loc_key \<and> best_len < length loc_key
         then find_location uri_key ls (Some l) (length loc_key)
         else find_location uri_key ls best best_len)"

definition FindLocationForUri :: "server_config \<Rightarrow> string \<Rightarrow> exn + location_match" where
  "FindLocationForUri c uri =
     (let uri_key = TrimTrailingSlashExceptRoot uri
      in case find_location uri_key (sc_locations c) None 0 of
           None \<Rightarrow> throw_status kNotFound
         | Some loc \<Rightarrow>
             (let best_key = TrimTrailingSlashExceptRoot (loc_name loc)
              in if length uri_key = length best_key then Inr \<lparr>lm_loc = loc, lm_remainder = ''/''\<rparr>
                 else
                   (let r0 = drop (length best_key) uri_key;
                        r1 = (if r0 = [] then ''/'' else r0)
                    in Inr \<lparr>lm_loc = loc,
                            lm_remainder = (if deref r1 \<noteq> CHR ''/'' then ''/'' @ r1 else r1)\<rparr>)))"

subsection \<open>Keys\<close>

text \<open>The key of a name: what is left when the trailing slashes are gone.\<close>

abbreviation key_of :: "location \<Rightarrow> string" where
  "key_of l \<equiv> TrimTrailingSlashExceptRoot (loc_name l)"

lemma trim_loop_le: "trim_loop s k \<le> k"
  by (induction k) auto

lemma trim_loop_all_slash: "k \<le> length s \<Longrightarrow> \<forall>i. trim_loop s k \<le> i \<and> i < k \<longrightarrow> s ! i = CHR ''/''"
  by (induction k) (auto simp: less_Suc_eq)

lemma trim_loop_stop: "1 < trim_loop s k \<Longrightarrow> s ! (trim_loop s k - 1) \<noteq> CHR ''/''"
  by (induction k) (auto split: if_splits)

lemma trim_loop_pos: "0 < k \<Longrightarrow> 0 < trim_loop s k"
  by (induction k) auto

lemma trim_split:
  obtains n where "s = TrimTrailingSlashExceptRoot s @ replicate n (CHR ''/'')"
proof (cases "length s \<le> 1")
  case True
  then show thesis using that [of 0] by (simp add: TrimTrailingSlashExceptRoot_def)
next
  case False
  let ?e = "trim_loop s (length s)"
  have "drop ?e s = replicate (length s - ?e) (CHR ''/'')"
    using trim_loop_all_slash [of "length s" s] by (intro nth_equalityI) auto
  then show thesis using that [of "length s - ?e"] False
    by (simp add: TrimTrailingSlashExceptRoot_def substr_def) (metis append_take_drop_id)
qed

lemma trim_last:
  "1 < length (TrimTrailingSlashExceptRoot s) \<Longrightarrow> last (TrimTrailingSlashExceptRoot s) \<noteq> CHR ''/''"
proof (cases "length s \<le> 1")
  case False
  assume l: "1 < length (TrimTrailingSlashExceptRoot s)"
  have e: "trim_loop s (length s) \<le> length s" by (rule trim_loop_le)
  with l False have "1 < trim_loop s (length s)" by (simp add: TrimTrailingSlashExceptRoot_def substr_def)
  moreover have "last (take (trim_loop s (length s)) s) = s ! (trim_loop s (length s) - 1)"
    using e \<open>1 < trim_loop s (length s)\<close> by (subst last_conv_nth) auto
  ultimately show ?thesis using False trim_loop_stop [of s "length s"]
    by (simp add: TrimTrailingSlashExceptRoot_def substr_def)
qed (simp add: TrimTrailingSlashExceptRoot_def)

lemma trim_hd: "deref (TrimTrailingSlashExceptRoot s) = deref s"
proof (cases "length s \<le> 1")
  case False
  then obtain x xs where s: "s = x # xs" by (cases s) auto
  have "0 < trim_loop s (length s)" using s by (intro trim_loop_pos) simp
  then obtain k where "trim_loop s (length s) = Suc k" by (cases "trim_loop s (length s)") auto
  then show ?thesis using False by (simp add: TrimTrailingSlashExceptRoot_def substr_def s)
qed (simp add: TrimTrailingSlashExceptRoot_def)

text \<open>A key covers a URI when it is the root, the URI itself, or ends at one of its slashes.\<close>

definition covers :: "string \<Rightarrow> string \<Rightarrow> bool" where
  "covers loc_key uri_key \<longleftrightarrow> loc_key = ''/'' \<or> uri_key = loc_key \<or> prefix (loc_key @ ''/'') uri_key"

lemma IsPathPrefix_iff: "IsPathPrefix uri_key loc_key \<longleftrightarrow> covers loc_key uri_key"
proof (cases "prefix loc_key uri_key")
  case True
  then obtain u where u: "uri_key = loc_key @ u" by (auto simp: prefix_def)
  then show ?thesis by (cases u) (auto simp: IsPathPrefix_def covers_def substr_def nth_append)
next
  case False
  then have "substr uri_key 0 (length loc_key) \<noteq> loc_key"
    by (auto simp: substr_def prefix_def) (metis append_take_drop_id)
  with False show ?thesis by (auto simp: IsPathPrefix_def covers_def dest: append_prefixD)
qed

subsection \<open>The longest match\<close>

lemma find_location_Some:
  assumes "find_location u ls best n = Some l"
  shows "(best = Some l \<and> (\<forall>l'\<in>set ls. covers (key_of l') u \<longrightarrow> length (key_of l') \<le> n)) \<or>
     (l \<in> set ls \<and> covers (key_of l) u \<and> n < length (key_of l) \<and>
      (\<forall>l'\<in>set ls. covers (key_of l') u \<longrightarrow> length (key_of l') \<le> length (key_of l)))"
  using assms
proof (induction ls arbitrary: best n)
  case (Cons x ls)
  show ?case
  proof (cases "covers (key_of x) u \<and> n < length (key_of x)")
    case True
    then have "find_location u ls (Some x) (length (key_of x)) = Some l"
      using Cons.prems by (simp add: IsPathPrefix_iff)
    from Cons.IH [OF this] True show ?thesis by auto
  next
    case False
    then have "find_location u ls best n = Some l" using Cons.prems by (auto simp: IsPathPrefix_iff Let_def)
    from Cons.IH [OF this] False show ?thesis by auto
  qed
qed auto

lemma find_location_None:
  "find_location u ls best n = None \<longleftrightarrow>
     best = None \<and> (\<forall>l\<in>set ls. covers (key_of l) u \<longrightarrow> length (key_of l) \<le> n)"
  by (induction ls arbitrary: best n) (auto simp: IsPathPrefix_iff Let_def)

definition remainder_of :: "string \<Rightarrow> string \<Rightarrow> string" where
  "remainder_of loc_key uri_key =
     (if loc_key = uri_key then ''/''
      else if loc_key = ''/'' \<and> deref (tl uri_key) \<noteq> CHR ''/'' then uri_key
      else drop (length loc_key) uri_key)"

definition best_location :: "location list \<Rightarrow> string \<Rightarrow> location \<Rightarrow> bool" where
  "best_location ls uri_key l \<longleftrightarrow>
     l \<in> set ls \<and> covers (key_of l) uri_key \<and> key_of l \<noteq> [] \<and>
     (\<forall>l'\<in>set ls. covers (key_of l') uri_key \<longrightarrow> length (key_of l') \<le> length (key_of l))"

lemma covers_prefix: "covers lk uk \<Longrightarrow> deref uk = CHR ''/'' \<Longrightarrow> prefix lk uk"
  by (cases uk) (auto simp: covers_def dest: append_prefixD)

text \<open>Two names that cover the same URI and are equally long are the same.\<close>

lemma covers_unique:
  "covers lk uk \<Longrightarrow> covers lk' uk \<Longrightarrow> deref uk = CHR ''/'' \<Longrightarrow> length lk = length lk' \<Longrightarrow> lk = lk'"
  using covers_prefix [of lk uk] covers_prefix [of lk' uk] by (auto simp: prefix_def)

lemma FindLocationForUri_Inr:
  assumes "deref uri = CHR ''/''" and "FindLocationForUri c uri = Inr m"
  shows "best_location (sc_locations c) (TrimTrailingSlashExceptRoot uri) (lm_loc m)"
    and "lm_remainder m = remainder_of (key_of (lm_loc m)) (TrimTrailingSlashExceptRoot uri)"
proof -
  let ?u = "TrimTrailingSlashExceptRoot uri"
  have u: "deref ?u = CHR ''/''" using assms(1) by (simp add: trim_hd)
  obtain l where l: "find_location ?u (sc_locations c) None 0 = Some l"
    using assms(2) by (auto simp: FindLocationForUri_def Let_def split: option.splits)
  then have m: "lm_loc m = l"
    using assms(2) by (auto simp: FindLocationForUri_def Let_def split: if_splits)
  have best: "best_location (sc_locations c) ?u l"
    using find_location_Some [OF l] by (auto simp: best_location_def)
  then show "best_location (sc_locations c) ?u (lm_loc m)" by (simp add: m)
  have cov: "covers (key_of l) ?u" using best by (simp add: best_location_def)
  then have "prefix (key_of l) ?u" using covers_prefix u by blast
  then obtain v where v: "?u = key_of l @ v" by (auto simp: prefix_def)
  have "lm_remainder m = (if v = [] then ''/'' else if deref v \<noteq> CHR ''/'' then ''/'' @ v else v)"
    using assms(2) l v by (auto simp: FindLocationForUri_def Let_def)
  also have "\<dots> = remainder_of (key_of l) ?u"
  proof (cases "v = [] \<or> deref v = CHR ''/''")
    case True
    then show ?thesis using v u by (cases v) (auto simp: remainder_of_def Cons_eq_append_conv)
  next
    case False
    then have "key_of l = ''/''" using cov v by (cases v) (auto simp: covers_def)
    then show ?thesis using v False by (simp add: remainder_of_def)
  qed
  finally show "lm_remainder m = remainder_of (key_of (lm_loc m)) ?u" by (simp add: m)
qed

subsection \<open>Configurations whose names differ\<close>

text \<open>What \<open>AddLocation\<close> and the check of the names keep.\<close>

definition routes_wf :: "location list \<Rightarrow> bool" where
  "routes_wf ls \<longleftrightarrow> distinct (map key_of ls) \<and> (\<forall>l\<in>set ls. deref (loc_name l) = CHR ''/'')"

lemma routes_wf_Nil [simp]: "routes_wf []"
  by (simp add: routes_wf_def)

lemma routes_wf_append:
  "routes_wf (ls @ [l]) \<longleftrightarrow> routes_wf ls \<and> key_of l \<notin> key_of ` set ls \<and> deref (loc_name l) = CHR ''/''"
  by (auto simp: routes_wf_def)

lemma AddLocation_Inr:
  "AddLocation l c = Inr c' \<longleftrightarrow>
     key_of l \<notin> key_of ` set (sc_locations c) \<and> c' = c\<lparr>sc_locations := sc_locations c @ [l]\<rparr>"
  by (auto simp: AddLocation_def Let_def image_iff) metis

lemma AddLocation_routes:
  assumes "AddLocation l c = Inr c'" and "routes_wf (sc_locations c)" and "deref (loc_name l) = CHR ''/''"
  shows "routes_wf (sc_locations c')"
  using assms by (auto simp: AddLocation_Inr routes_wf_append)

lemma best_location_unique:
  assumes "routes_wf ls" and "deref u = CHR ''/''" and "best_location ls u l" and "best_location ls u l'"
  shows "l = l'"
proof -
  have "length (key_of l) = length (key_of l')"
    using assms(3,4) by (auto simp: best_location_def intro: le_antisym)
  then have "key_of l = key_of l'"
    using assms(2-4) covers_unique by (auto simp: best_location_def)
  then show ?thesis using assms(1,3,4) by (auto simp: routes_wf_def best_location_def distinct_map inj_on_def)
qed

lemma FindLocationForUri_cases:
  assumes "FindLocationForUri c uri = Inl e"
  shows "e = ResponseStatusException kNotFound \<and>
    (\<forall>l\<in>set (sc_locations c). covers (key_of l) (TrimTrailingSlashExceptRoot uri) \<longrightarrow> key_of l = [])"
proof -
  let ?u = "TrimTrailingSlashExceptRoot uri"
  have "find_location ?u (sc_locations c) None 0 = None"
    using assms by (auto simp: FindLocationForUri_def Let_def split: option.splits if_splits)
  then show ?thesis using assms find_location_None [of ?u "sc_locations c" None 0]
    by (auto simp: FindLocationForUri_def Let_def)
qed

lemma FindLocationForUri_iff:
  assumes "routes_wf (sc_locations c)" and "deref uri = CHR ''/''"
  shows "FindLocationForUri c uri = Inr m \<longleftrightarrow>
     best_location (sc_locations c) (TrimTrailingSlashExceptRoot uri) (lm_loc m) \<and>
     lm_remainder m = remainder_of (key_of (lm_loc m)) (TrimTrailingSlashExceptRoot uri)"
  (is "_ \<longleftrightarrow> ?best m")
proof
  assume "?best m"
  then have cov: "lm_loc m \<in> set (sc_locations c)" "covers (key_of (lm_loc m)) (TrimTrailingSlashExceptRoot uri)"
      "key_of (lm_loc m) \<noteq> []" by (simp_all add: best_location_def)
  show "FindLocationForUri c uri = Inr m"
  proof (cases "FindLocationForUri c uri")
    case (Inl e)
    then show ?thesis using FindLocationForUri_cases [OF Inl] cov by blast
  next
    case (Inr m')
    have u: "deref (TrimTrailingSlashExceptRoot uri) = CHR ''/''" using assms(2) by (simp add: trim_hd)
    note f = FindLocationForUri_Inr [OF assms(2) Inr]
    have "lm_loc m' = lm_loc m"
      using best_location_unique [OF assms(1) u f(1)] \<open>?best m\<close> by simp
    then have "m' = m" using f(2) \<open>?best m\<close> by (cases m; cases m') simp
    then show ?thesis using Inr by simp
  qed
qed (use FindLocationForUri_Inr [OF assms(2)] in blast)

lemma key_nonempty: "deref (loc_name l) = CHR ''/'' \<Longrightarrow> key_of l \<noteq> []"
  using trim_hd [of "loc_name l"] by auto

lemma best_location_cong: "set ls = set ls' \<Longrightarrow> best_location ls = best_location ls'"
  by (simp add: best_location_def fun_eq_iff)

subsection \<open>Properties\<close>

abbreviation sample_location :: "string \<Rightarrow> location" where
  "sample_location name \<equiv> SetName name Location_init"

abbreviation sample_config :: "string list \<Rightarrow> server_config" where
  "sample_config names \<equiv> ServerConfig_init\<lparr>sc_locations := map sample_location names\<rparr>"

text \<open>C19: A request is routed to the location with the longest name that covers its path, a name
  covering the paths that equal it or continue it with a slash, trailing slashes aside; the rest
  of the path, which starts with a slash, is handed on. When no name covers the path, and only
  then, the answer is 404.\<close>

theorem routing_longest_prefix:
  assumes "routes_wf (sc_locations c)" and "deref uri = CHR ''/''"
  shows "case FindLocationForUri c uri of
      Inr m \<Rightarrow> best_location (sc_locations c) (TrimTrailingSlashExceptRoot uri) (lm_loc m) \<and>
        lm_remainder m = remainder_of (key_of (lm_loc m)) (TrimTrailingSlashExceptRoot uri) \<and>
        deref (lm_remainder m) = CHR ''/''
    | Inl e \<Rightarrow> e = ResponseStatusException kNotFound \<and>
        \<not> (\<exists>l\<in>set (sc_locations c). covers (key_of l) (TrimTrailingSlashExceptRoot uri))"
proof (cases "FindLocationForUri c uri")
  case (Inl e)
  then show ?thesis using FindLocationForUri_cases [OF Inl] assms(1) key_nonempty
    by (auto simp: routes_wf_def)
next
  case (Inr m)
  note f = FindLocationForUri_Inr [OF assms(2) Inr]
  have u: "deref (TrimTrailingSlashExceptRoot uri) = CHR ''/''" using assms(2) by (simp add: trim_hd)
  have "deref (lm_remainder m) = CHR ''/''"
    using f u by (auto simp: remainder_of_def best_location_def covers_def prefix_def)
       (cases "TrimTrailingSlashExceptRoot uri"; simp)+
  with f Inr show ?thesis by simp
qed

theorem routing_longest_prefix_witness:
  "lm_loc (projr (FindLocationForUri (sample_config [''/'', ''/img/'', ''/im'']) ''/img/a.png'')) = sample_location ''/img/'' \<and>
   deref (lm_remainder (projr (FindLocationForUri (sample_config [''/'', ''/img/'', ''/im'']) ''/img/a.png''))) = CHR ''/''"
proof -
  let ?c = "sample_config [''/'', ''/img/'', ''/im'']"
  have wf: "routes_wf (sc_locations ?c)"
    by (simp add: routes_wf_def SetName_def TrimTrailingSlashExceptRoot_def substr_def numeral_nat)
  have run: "FindLocationForUri ?c ''/img/a.png'' =
      Inr \<lparr>lm_loc = sample_location ''/img/'', lm_remainder = ''/a.png''\<rparr>"
    by code_simp
  show ?thesis using routing_longest_prefix [OF wf, of "''/img/a.png''"] run by simp
qed

text \<open>The order of the location blocks does not matter: two configurations with the same
  locations route every path the same way.\<close>

theorem routing_order:
  assumes "routes_wf (sc_locations c)" and "routes_wf (sc_locations c')"
    and "set (sc_locations c) = set (sc_locations c')" and "deref uri = CHR ''/''"
  shows "FindLocationForUri c uri = FindLocationForUri c' uri"
proof (cases "FindLocationForUri c uri")
  case (Inr m)
  then have "FindLocationForUri c' uri = Inr m"
    using FindLocationForUri_iff [OF assms(1,4)] FindLocationForUri_iff [OF assms(2,4)]
      best_location_cong [OF assms(3)] by simp
  with Inr show ?thesis by simp
next
  case (Inl e)
  show ?thesis
  proof (cases "FindLocationForUri c' uri")
    case (Inr m)
    then have "FindLocationForUri c uri = Inr m"
      using FindLocationForUri_iff [OF assms(1,4)] FindLocationForUri_iff [OF assms(2,4)]
        best_location_cong [OF assms(3)] by simp
    with Inl show ?thesis by simp
  next
    case (Inl e')
    then show ?thesis
      using \<open>FindLocationForUri c uri = Inl e\<close> FindLocationForUri_cases [OF Inl]
        FindLocationForUri_cases [OF \<open>FindLocationForUri c uri = Inl e\<close>] by simp
  qed
qed

theorem routing_order_witness:
  "FindLocationForUri (sample_config [''/'', ''/img/'']) ''/img'' =
     FindLocationForUri (sample_config [''/img/'', ''/'']) ''/img''"
  by (rule routing_order)
     (auto simp: routes_wf_def SetName_def TrimTrailingSlashExceptRoot_def substr_def numeral_nat)

end
