(* ===== verification/File_Validator.thy ===== *)
theory File_Validator
  imports String_Utils
begin

text \<open>
  \<open>FileValidator\<close>: the lexical security check every filesystem path passes.
  \<open>SplitPathSegments\<close> cuts a path at the slashes, \<open>NormalizePathBySegments\<close> resolves
  \<open>.\<close> and \<open>..\<close> on a stack of segments and refuses to climb above the root,
  \<open>IsPathUnderDocumentRoot\<close> compares with the document root at a segment boundary.

  The results: what the split is, when normalisation fails and that its result is canonical and a
  fixed point, and that a validated path lies below the document root, segment by segment.
\<close>

subsection \<open>Definitions\<close>

definition ContainsUnsafeChars :: "string \<Rightarrow> bool" where
  "ContainsUnsafeChars path \<longleftrightarrow> (\<exists>c\<in>set path. \<not> IsValidHeaderChar c)"

text \<open>\<open>s.find(c, pos)\<close>\<close>

definition find_from :: "string \<Rightarrow> char \<Rightarrow> nat \<Rightarrow> nat option" where
  "find_from s c pos = map_option (\<lambda>i. pos + i) (str_find [c] (drop pos s))"

lemma str_find_single_le: "str_find [c] s = Some i \<Longrightarrow> i < length s"
  using str_find_Some_le [of "[c]" s i] by simp

lemma find_from_bounds: "find_from s c pos = Some i \<Longrightarrow> pos \<le> i \<and> i < length s"
  by (auto simp: find_from_def dest: str_find_single_le)

function split_loop :: "string \<Rightarrow> nat \<Rightarrow> string list \<Rightarrow> string list" where
  "split_loop path start segments =
     (case find_from path (CHR ''/'') start of
        Some end \<Rightarrow>
          split_loop path (end + 1)
            (if end \<noteq> start then segments @ [substr path start (end - start)] else segments)
      | None \<Rightarrow>
          (if start < length path then segments @ [drop start path] else segments))"
  by pat_completeness auto
termination
  by (relation "measure (\<lambda>(path, start, _). length path + 1 - start)")
     (auto dest: find_from_bounds)

declare split_loop.simps [simp del]

definition SplitPathSegments :: "string \<Rightarrow> string list" where
  "SplitPathSegments path = split_loop path 0 []"

text \<open>The loop over the segments: the stack, or the exception.\<close>

fun resolve_segments :: "string list \<Rightarrow> string list \<Rightarrow> exn + string list" where
  "resolve_segments stack [] = Inr stack"
| "resolve_segments stack (segment # rest) =
     (if segment = ''.'' then resolve_segments stack rest
      else if segment = ''..'' then
        (if stack = [] then throw_status kBadRequest else resolve_segments (butlast stack) rest)
      else resolve_segments (stack @ [segment]) rest)"

fun rebuild_loop :: "nat \<Rightarrow> string \<Rightarrow> string list \<Rightarrow> string" where
  "rebuild_loop i rebuilt_path [] = rebuilt_path"
| "rebuild_loop i rebuilt_path (segment # rest) =
     rebuild_loop (i + 1) ((if 0 < i then rebuilt_path @ ''/'' else rebuilt_path) @ segment) rest"

definition NormalizePathBySegments :: "string \<Rightarrow> exn + string" where
  "NormalizePathBySegments path =
     (if path = [] \<or> deref path \<noteq> CHR ''/'' then throw_status kBadRequest
      else
        (let has_trailing_slash = (path \<noteq> [] \<and> last path = CHR ''/'')
         in and_then (resolve_segments [] (SplitPathSegments path)) (\<lambda>stack.
              let rebuilt_path = rebuild_loop 0 ''/'' stack
              in Inr (if has_trailing_slash \<and> last rebuilt_path \<noteq> CHR ''/''
                      then rebuilt_path @ ''/'' else rebuilt_path))))"

definition IsPathUnderDocumentRoot :: "string \<Rightarrow> string \<Rightarrow> bool" where
  "IsPathUnderDocumentRoot path document_root =
     (if document_root = [] then False
      else if document_root = ''/'' then True
      else if length path < length document_root then False
      else if substr path 0 (length document_root) \<noteq> document_root then False
      else if length path = length document_root then True
      else path ! length document_root = CHR ''/'')"

definition ValidateAndNormalizePath :: "string \<Rightarrow> string \<Rightarrow> exn + string" where
  "ValidateAndNormalizePath path document_root =
     (if ContainsUnsafeChars path then throw_status kBadRequest
      else and_then (NormalizePathBySegments path) (\<lambda>normalized_path.
        if \<not> IsPathUnderDocumentRoot normalized_path document_root
        then throw_status kNotFound
        else Inr normalized_path))"

subsection \<open>The split\<close>

text \<open>The pieces between slashes, the empty ones left out.\<close>

definition segments_of :: "string \<Rightarrow> string list" where
  "segments_of s = filter (\<lambda>seg. seg \<noteq> []) (getline_split (CHR ''/'') [] s)"

lemma find_slash_Some:
  assumes "str_find [c] s = Some i"
  shows "c \<notin> set (take i s)" and "s = take i s @ c # drop (Suc i) s"
proof -
  have "\<not> prefix [c] (drop j s)" if "j < i" for j
    using assms that by (simp add: str_find_Some_iff)
  then show "c \<notin> set (take i s)"
    using str_find_single_le [OF assms]
    by (auto simp: in_set_conv_nth) (metis Cons_nth_drop_Suc order_less_trans prefix_def append_Cons append_Nil)
  show "s = take i s @ c # drop (Suc i) s"
    using str_find_Some_split [OF assms] by simp
qed

lemma find_slash_None: "str_find [c] s = None \<longleftrightarrow> c \<notin> set s"
  by (induction s) auto

lemma segments_of_slash:
  "CHR ''/'' \<notin> set a \<Longrightarrow>
     segments_of (a @ CHR ''/'' # b) = (if a = [] then [] else [a]) @ segments_of b"
  by (simp add: segments_of_def getline_split_piece)

lemma segments_of_plain:
  "CHR ''/'' \<notin> set a \<Longrightarrow> segments_of a = (if a = [] then [] else [a])"
  by (simp add: segments_of_def getline_split_last)

lemma split_loop_segments: "split_loop path start acc = acc @ segments_of (drop start path)"
proof (induction path start acc rule: split_loop.induct)
  case (1 path start acc)
  show ?case
  proof (cases "str_find (''/'') (drop start path)")
    case None
    then have "find_from path (CHR ''/'') start = None" by (simp add: find_from_def)
    with None show ?thesis
      by (subst split_loop.simps) (simp add: segments_of_plain find_slash_None)
  next
    case (Some i)
    then have f: "find_from path (CHR ''/'') start = Some (start + i)"
      by (simp add: find_from_def)
    note s = find_slash_Some [OF Some]
    have "segments_of (drop start path) = 
        (if i = 0 then [] else [take i (drop start path)]) @ segments_of (drop (start + i + 1) path)"
      using segments_of_slash [OF s(1), of "drop (Suc i) (drop start path)"] s(2)
        str_find_single_le [OF Some] by (auto simp: add.commute)
    with 1 [OF f] show ?thesis
      by (subst split_loop.simps) (simp add: f substr_def)
  qed
qed

lemma SplitPathSegments_eq: "SplitPathSegments path = segments_of path"
  by (simp add: SplitPathSegments_def split_loop_segments)

lemma segments_of_append_slash: "segments_of (a @ CHR ''/'' # b) = segments_of a @ segments_of b"
proof (induction "length a" arbitrary: a rule: less_induct)
  case less
  show ?case
  proof (cases "str_find (''/'') a")
    case None
    then show ?thesis by (simp add: find_slash_None segments_of_slash segments_of_plain)
  next
    case (Some i)
    note s = find_slash_Some [OF Some]
    let ?x = "take i a" and ?y = "drop (Suc i) a"
    have a: "a = ?x @ CHR ''/'' # ?y" by (rule s(2))
    have "segments_of (?y @ CHR ''/'' # b) = segments_of ?y @ segments_of b"
      using str_find_single_le [OF Some] by (intro less) simp
    with segments_of_slash [OF s(1), of ?y] segments_of_slash [OF s(1), of "?y @ CHR ''/'' # b"] a
    show ?thesis by (metis append.assoc append_Cons)
  qed
qed

lemma segments_of_wf: "seg \<in> set (segments_of s) \<Longrightarrow> seg \<noteq> [] \<and> CHR ''/'' \<notin> set seg"
  by (auto simp: segments_of_def dest: getline_split_no_delim [rotated])

lemma segments_of_Nil [simp]: "segments_of [] = []"
  by (simp add: segments_of_def)

lemma segments_of_join:
  "\<forall>seg\<in>set segs. seg \<noteq> [] \<and> CHR ''/'' \<notin> set seg \<Longrightarrow> segments_of (join (CHR ''/'') segs) = segs"
proof (induction segs)
  case (Cons seg segs)
  then show ?case
    by (cases "segs = []") (auto simp: segments_of_plain join_Cons segments_of_append_slash)
qed simp

subsection \<open>Normalisation\<close>

text \<open>A segment that names an entry of a directory.\<close>

definition proper_segment :: "string \<Rightarrow> bool" where
  "proper_segment seg \<longleftrightarrow> seg \<noteq> [] \<and> CHR ''/'' \<notin> set seg \<and> seg \<noteq> ''.'' \<and> seg \<noteq> ''..''"

text \<open>An absolute path without empty, \<open>.\<close> or \<open>..\<close> segments; a slash may end it.\<close>

definition canonical_text :: "string list \<Rightarrow> bool \<Rightarrow> string" where
  "canonical_text segs slash =
     CHR ''/'' # join (CHR ''/'') segs @ (if slash \<and> segs \<noteq> [] then ''/'' else [])"

definition canonical_path :: "string \<Rightarrow> bool" where
  "canonical_path q \<longleftrightarrow>
     (\<exists>segs slash. (\<forall>seg\<in>set segs. proper_segment seg) \<and> q = canonical_text segs slash)"

text \<open>The names and the \<open>..\<close> of a list of segments.\<close>

definition n_names :: "string list \<Rightarrow> nat" where
  "n_names segs = length (filter (\<lambda>seg. seg \<noteq> ''.'' \<and> seg \<noteq> ''..'') segs)"

definition n_ups :: "string list \<Rightarrow> nat" where
  "n_ups segs = length (filter (\<lambda>seg. seg = ''..'') segs)"

definition climbs_above :: "nat \<Rightarrow> string list \<Rightarrow> bool" where
  "climbs_above depth segs \<longleftrightarrow>
     (\<exists>k\<le>length segs. depth + n_names (take k segs) < n_ups (take k segs))"

lemma climbs_above_Nil [simp]: "\<not> climbs_above depth []"
  by (simp add: climbs_above_def n_names_def n_ups_def)

lemma ex_le_Suc: "(\<exists>k\<le>Suc n. P k) \<longleftrightarrow> P 0 \<or> (\<exists>k\<le>n. P (Suc k))"
  by (metis Suc_le_mono le0 not0_implies_Suc)

lemma climbs_above_Cons:
  "climbs_above depth (seg # segs) \<longleftrightarrow>
     (if seg = ''.'' then climbs_above depth segs
      else if seg = ''..'' then depth = 0 \<or> climbs_above (depth - 1) segs
      else climbs_above (depth + 1) segs)"
proof -
  have "climbs_above depth (seg # segs) \<longleftrightarrow>
      (\<exists>k\<le>length segs. depth + n_names (seg # take k segs) < n_ups (seg # take k segs))"
    by (simp add: climbs_above_def ex_le_Suc n_names_def n_ups_def)
  moreover have "\<exists>k\<le>length segs. n_names (take k segs) < Suc (n_ups (take k segs))"
    by (rule exI [of _ 0]) (simp add: n_names_def)
  ultimately show ?thesis
    by (cases depth) (auto simp: climbs_above_def n_names_def n_ups_def)
qed

lemma resolve_segments_fails:
  "resolve_segments stack segs = Inl e \<longleftrightarrow>
     e = ResponseStatusException kBadRequest \<and> climbs_above (length stack) segs"
  by (induction stack segs rule: resolve_segments.induct) (auto simp: climbs_above_Cons)

lemma resolve_segments_proper:
  "resolve_segments stack segs = Inr stack' \<Longrightarrow> \<forall>seg\<in>set stack. proper_segment seg \<Longrightarrow>
     \<forall>seg\<in>set segs. seg \<noteq> [] \<and> CHR ''/'' \<notin> set seg \<Longrightarrow> \<forall>seg\<in>set stack'. proper_segment seg"
proof (induction stack segs rule: resolve_segments.induct)
  case (2 stack segment rest)
  have rest: "\<forall>seg\<in>set rest. seg \<noteq> [] \<and> CHR ''/'' \<notin> set seg" using "2.prems"(3) by simp
  consider "segment = ''.''" | "segment = ''..''" "stack \<noteq> []"
    | "segment \<noteq> ''.''" "segment \<noteq> ''..''"
    using "2.prems"(1) by (auto split: if_splits)
  then show ?case
  proof cases
    case 1
    then show ?thesis using "2.IH"(1) "2.prems" rest by simp
  next
    case 2
    then have "resolve_segments (butlast stack) rest = Inr stack'" using "2.prems"(1) by simp
    moreover have "\<forall>seg\<in>set (butlast stack). proper_segment seg"
      using "2.prems"(2) by (meson in_set_butlastD)
    ultimately show ?thesis using "2.IH"(2) 2 rest by simp
  next
    case 3
    then have "resolve_segments (stack @ [segment]) rest = Inr stack'"
      using "2.prems"(1) by simp
    moreover have "\<forall>seg\<in>set (stack @ [segment]). proper_segment seg"
      using "2.prems"(2,3) 3 by (simp add: proper_segment_def)
    ultimately show ?thesis using "2.IH"(3) 3 rest by blast
  qed
qed simp

lemma resolve_segments_id:
  "\<forall>seg\<in>set segs. proper_segment seg \<Longrightarrow> resolve_segments stack segs = Inr (stack @ segs)"
  by (induction segs arbitrary: stack) (simp_all add: proper_segment_def)

lemma rebuild_loop_pos:
  "0 < i \<Longrightarrow> segs \<noteq> [] \<Longrightarrow> rebuild_loop i p segs = p @ CHR ''/'' # join (CHR ''/'') segs"
proof (induction segs arbitrary: i p)
  case (Cons seg segs)
  then show ?case by (cases "segs = []") (simp_all add: join_Cons)
qed simp

lemma rebuild_loop_0: "rebuild_loop 0 p segs = p @ join (CHR ''/'') segs"
proof (cases segs)
  case (Cons seg rest)
  then show ?thesis by (cases "rest = []") (simp_all add: rebuild_loop_pos join_Cons)
qed simp

lemma proper_not_Nil: "proper_segment seg \<Longrightarrow> seg \<noteq> []"
  by (simp add: proper_segment_def)

lemma last_join:
  "segs \<noteq> [] \<Longrightarrow> \<forall>seg\<in>set segs. seg \<noteq> [] \<Longrightarrow> join d segs \<noteq> [] \<and> last (join d segs) = last (last segs)"
  by (induction d segs rule: join.induct) auto

lemma last_canonical:
  assumes "\<forall>seg\<in>set segs. proper_segment seg"
  shows "last (canonical_text segs slash) = CHR ''/'' \<longleftrightarrow> slash \<or> segs = []"
proof (cases "segs = []")
  case False
  then have l: "last segs \<in> set segs" by simp
  have "join (CHR ''/'') segs \<noteq> []" "last (join (CHR ''/'') segs) = last (last segs)"
    using last_join [OF False, of "CHR ''/''"] assms proper_not_Nil by blast+
  moreover have "last (last segs) \<noteq> CHR ''/''"
    using assms l by (metis last_in_set proper_segment_def)
  ultimately show ?thesis using False by (simp add: canonical_text_def)
qed (simp add: canonical_text_def)

lemma segments_of_canonical:
  assumes "\<forall>seg\<in>set segs. proper_segment seg"
  shows "segments_of (canonical_text segs slash) = segs"
proof -
  have j: "segments_of (join (CHR ''/'') segs) = segs"
    using assms by (intro segments_of_join) (simp add: proper_segment_def)
  show ?thesis
    using segments_of_append_slash [of "[]" "join (CHR ''/'') segs"]
      segments_of_append_slash [of "[]" "join (CHR ''/'') segs @ ''/''"]
      segments_of_append_slash [of "join (CHR ''/'') segs" "[]"] j
    by (simp add: canonical_text_def)
qed

lemma NormalizePathBySegments_eq:
  "NormalizePathBySegments path =
     (if deref path \<noteq> CHR ''/'' then throw_status kBadRequest
      else and_then (resolve_segments [] (segments_of path)) (\<lambda>stack.
             Inr (canonical_text stack (last path = CHR ''/''))))"
proof (cases "resolve_segments [] (segments_of path)")
  case (Inl e)
  then show ?thesis by (auto simp: NormalizePathBySegments_def SplitPathSegments_eq)
next
  case (Inr stack)
  then have p: "\<forall>seg\<in>set stack. proper_segment seg"
    by (rule resolve_segments_proper) (auto dest: segments_of_wf)
  then show ?thesis
    using Inr last_canonical [OF p, of False]
    by (auto simp: NormalizePathBySegments_def SplitPathSegments_eq rebuild_loop_0
        canonical_text_def Let_def)
qed

lemma NormalizePathBySegments_Inr:
  assumes "NormalizePathBySegments path = Inr q"
  obtains segs where "\<forall>seg\<in>set segs. proper_segment seg"
    and "resolve_segments [] (segments_of path) = Inr segs"
    and "q = canonical_text segs (last path = CHR ''/'')"
proof -
  obtain segs where r: "resolve_segments [] (segments_of path) = Inr segs"
      and q: "q = canonical_text segs (last path = CHR ''/'')"
    using assms by (auto simp: NormalizePathBySegments_eq and_then_Inr_iff split: if_splits)
  from r have "\<forall>seg\<in>set segs. proper_segment seg"
    by (rule resolve_segments_proper) (auto dest: segments_of_wf)
  with r q that show thesis by blast
qed

lemma normalize_canonical: "NormalizePathBySegments path = Inr q \<Longrightarrow> canonical_path q"
  by (erule NormalizePathBySegments_Inr) (auto simp: canonical_path_def)

lemma normalize_fixed: "canonical_path q \<Longrightarrow> NormalizePathBySegments q = Inr q"
proof -
  assume "canonical_path q"
  then obtain segs slash where s: "\<forall>seg\<in>set segs. proper_segment seg"
      and q: "q = canonical_text segs slash"
    by (auto simp: canonical_path_def)
  have "deref q = CHR ''/''" using q by (simp add: canonical_text_def)
  moreover have "resolve_segments [] (segments_of q) = Inr segs"
    using s q by (simp add: segments_of_canonical resolve_segments_id)
  moreover have "canonical_text segs (last q = CHR ''/'') = q"
    using last_canonical [OF s, of slash] q by (auto simp: canonical_text_def)
  ultimately show ?thesis by (simp add: NormalizePathBySegments_eq)
qed

lemma canonical_segments:
  "canonical_path q \<Longrightarrow> \<forall>seg\<in>set (segments_of q). proper_segment seg"
  by (auto simp: canonical_path_def segments_of_canonical)

lemma canonical_deref: "canonical_path q \<Longrightarrow> deref q = CHR ''/'' \<and> q \<noteq> []"
  by (auto simp: canonical_path_def canonical_text_def)

subsection \<open>Confinement\<close>

lemma IsPathUnderDocumentRoot_iff:
  "IsPathUnderDocumentRoot path root \<longleftrightarrow>
     root \<noteq> [] \<and> (root = ''/'' \<or> path = root \<or> (\<exists>rest. path = root @ CHR ''/'' # rest))"
proof -
  have "substr path 0 (length root) = root \<longleftrightarrow> prefix root path"
    by (auto simp: substr_def prefix_def take_is_prefix dest: sym)
       (metis append_take_drop_id)
  then show ?thesis
    by (auto simp: IsPathUnderDocumentRoot_def prefix_def nth_append neq_Nil_conv Cons_nth_drop_Suc
        split: if_splits)
qed

text \<open>\<open>below_root root q\<close>: the segments of \<open>q\<close> are those of the root and then names.\<close>

definition below_root :: "string \<Rightarrow> string \<Rightarrow> bool" where
  "below_root root q \<longleftrightarrow> prefix (segments_of root) (segments_of q) \<and>
     (\<forall>seg\<in>set (segments_of q). proper_segment seg)"

lemma under_root_segments:
  "IsPathUnderDocumentRoot q root \<Longrightarrow> prefix (segments_of root) (segments_of q)"
  using segments_of_append_slash [of "[]" "[]"]
  by (auto simp: IsPathUnderDocumentRoot_iff segments_of_append_slash)

lemma ValidateAndNormalizePath_Inr:
  assumes "ValidateAndNormalizePath path root = Inr q"
  shows "NormalizePathBySegments path = Inr q" and "IsPathUnderDocumentRoot q root"
    and "\<forall>c\<in>set path. IsValidHeaderChar c"
  using assms
  by (auto simp: ValidateAndNormalizePath_def and_then_Inr_iff ContainsUnsafeChars_def
      split: if_splits)

lemma validate_below_root: "ValidateAndNormalizePath path root = Inr q \<Longrightarrow> below_root root q"
  using ValidateAndNormalizePath_Inr [of path root q] normalize_canonical [of path q]
    canonical_segments [of q] under_root_segments [of q root]
  by (simp add: below_root_def)

text \<open>The characters of the result are those of the path: no control byte reaches the system.\<close>

lemma set_join_subset: "\<forall>seg\<in>set segs. set seg \<subseteq> A \<Longrightarrow> set (join d segs) \<subseteq> insert d A"
  by (induction d segs rule: join.induct) auto

lemma getline_split_chars: "seg \<in> set (getline_split d acc s) \<Longrightarrow> set seg \<subseteq> set acc \<union> set s"
  by (induction d acc s rule: getline_split.induct) (auto split: if_splits)

lemma segments_of_chars: "seg \<in> set (segments_of s) \<Longrightarrow> set seg \<subseteq> set s"
  using getline_split_chars [of seg "CHR ''/''" "[]" s] by (auto simp: segments_of_def)

lemma resolve_segments_subset:
  "resolve_segments stack segs = Inr stack' \<Longrightarrow> set stack' \<subseteq> set stack \<union> set segs"
  by (induction stack segs rule: resolve_segments.induct)
     (auto split: if_splits dest!: in_set_butlastD)

lemma normalize_chars:
  assumes "NormalizePathBySegments path = Inr q"
  shows "set q \<subseteq> insert (CHR ''/'') (set path)"
proof -
  obtain segs where r: "resolve_segments [] (segments_of path) = Inr segs"
      and q: "q = canonical_text segs (last path = CHR ''/'')"
    using assms by (rule NormalizePathBySegments_Inr)
  have "\<forall>seg\<in>set segs. set seg \<subseteq> set path"
    using resolve_segments_subset [OF r] segments_of_chars by fastforce
  from set_join_subset [OF this, of "CHR ''/''"] show ?thesis
    by (auto simp: q canonical_text_def)
qed

lemma validate_safe_chars:
  "ValidateAndNormalizePath path root = Inr q \<Longrightarrow> \<forall>c\<in>set q. IsValidHeaderChar c"
  using ValidateAndNormalizePath_Inr [of path root q] normalize_chars [of path q]
  by (auto simp: IsValidHeaderChar_def)

lemma normalize_fails:
  "NormalizePathBySegments path = Inl e \<longleftrightarrow>
     e = ResponseStatusException kBadRequest \<and> (deref path \<noteq> CHR ''/'' \<or> climbs_above 0 (segments_of path))"
  by (cases "path = []") (auto simp: NormalizePathBySegments_eq and_then_Inl_iff resolve_segments_fails)

subsection \<open>Properties\<close>

text \<open>C18: Normalisation answers with the canonical form of the path, of which it is a fixed point,
  and adds no byte of its own but the slash; or it refuses, with 400, and it refuses exactly the
  paths that are not absolute or that climb above the root at some point of the way.\<close>

theorem normalize_path:
  "case NormalizePathBySegments path of
     Inr q \<Rightarrow> canonical_path q \<and> NormalizePathBySegments q = Inr q \<and> set q \<subseteq> insert (CHR ''/'') (set path) \<and>
       deref path = CHR ''/'' \<and> \<not> climbs_above 0 (segments_of path)
   | Inl e \<Rightarrow> e = ResponseStatusException kBadRequest \<and>
       (if deref path = CHR ''/'' then climbs_above 0 (segments_of path) else True)"
proof (cases "NormalizePathBySegments path")
  case (Inl e)
  then show ?thesis using normalize_fails [of path e] by (auto split: if_splits)
next
  case (Inr q)
  then have "deref path = CHR ''/'' \<and> \<not> climbs_above 0 (segments_of path)"
    using normalize_fails [of path "ResponseStatusException kBadRequest"] by auto
  then show ?thesis unfolding Inr sum.case
    using normalize_canonical [OF Inr] normalize_fixed [OF normalize_canonical [OF Inr]] normalize_chars [OF Inr]
    by blast
qed

text \<open>C17: A path that passes the security check lies below the document root, segment by segment, in
  canonical form and made of printable bytes; a path that does not is answered with 400 or 404.\<close>

theorem validated_path:
  "case ValidateAndNormalizePath path root of
     Inr q \<Rightarrow> below_root root q \<and> canonical_path q \<and> set q \<subseteq> {c. IsValidHeaderChar c}
   | Inl e \<Rightarrow> e \<in> ResponseStatusException ` {kBadRequest, kNotFound}"
proof (cases "ValidateAndNormalizePath path root")
  case (Inl e)
  moreover have "NormalizePathBySegments path = Inl e' \<Longrightarrow> e' = ResponseStatusException kBadRequest" for e'
    by (simp add: normalize_fails)
  ultimately show ?thesis
    by (auto simp: ValidateAndNormalizePath_def and_then_Inl_iff split: if_splits)
next
  case (Inr q)
  then show ?thesis
    using validate_below_root [OF Inr] validate_safe_chars [OF Inr]
      normalize_canonical [OF ValidateAndNormalizePath_Inr(1) [OF Inr]] by auto
qed

end
