(* ===== verification/Host_Validation.thy ===== *)
theory Host_Validation
  imports String_Utils
begin

text \<open>
  \<open>host_validation\<close>: which hosts a \<open>listen\<close> directive may name. A host is
  \<open>localhost\<close>, a dotted IPv4 address, or a domain name of at least two labels.
  The results are the exact set of addresses \<open>IsValidIPv4\<close> accepts, the exact set of domain
  names, and the bytes an accepted host can hold.
\<close>

definition IsHostChar :: "char \<Rightarrow> bool" where
  "IsHostChar c \<longleftrightarrow> is_alnum c \<or> c = CHR ''-'' \<or> c = CHR ''.''"

definition ContainsInvalidChars :: "string \<Rightarrow> bool" where
  "ContainsInvalidChars host \<longleftrightarrow> (\<exists>c\<in>set host. \<not> IsHostChar c)"

definition LooksLikeIPv4 :: "string \<Rightarrow> bool" where
  "LooksLikeIPv4 host \<longleftrightarrow> (\<forall>c\<in>set host. is_digit c \<or> c = CHR ''.'' \<or> c = CHR ''-'')"

text \<open>The loop over the digits of a segment; \<open>None\<close> is its early \<open>return false\<close>.\<close>

fun segment_value :: "int \<Rightarrow> string \<Rightarrow> int option" where
  "segment_value value [] = Some value"
| "segment_value value (c # cs) =
     (if \<not> is_digit c then None else segment_value (value * 10 + int (digit_value c)) cs)"

definition IsValidIPv4Segment :: "string \<Rightarrow> bool" where
  "IsValidIPv4Segment segment =
     (if segment = [] \<or> 3 < length segment then False
      else if 1 < length segment \<and> deref segment = CHR ''0'' then False
      else case segment_value 0 segment of
             None \<Rightarrow> False
           | Some value \<Rightarrow> 0 \<le> value \<and> value \<le> 255)"

text \<open>The loop over the segments: the count, or \<open>None\<close> for an early \<open>return false\<close>.\<close>

fun ipv4_segments :: "nat \<Rightarrow> string list \<Rightarrow> nat option" where
  "ipv4_segments seg_cnt [] = Some seg_cnt"
| "ipv4_segments seg_cnt (segment # rest) =
     (if 4 < seg_cnt + 1 then None
      else if \<not> IsValidIPv4Segment segment then None
      else ipv4_segments (seg_cnt + 1) rest)"

definition IsValidIPv4 :: "string \<Rightarrow> bool" where
  "IsValidIPv4 host =
     (if \<exists>c\<in>set host. \<not> is_digit c \<and> c \<noteq> CHR ''.'' then False
      else ipv4_segments 0 (getline_split (CHR ''.'') [] host) = Some 4)"

definition IsValidDomainLabel :: "string \<Rightarrow> bool" where
  "IsValidDomainLabel label =
     (if label = [] \<or> 63 < length label then False
      else if deref label = CHR ''-'' \<or> last label = CHR ''-'' then False
      else \<forall>c\<in>set label. is_alnum c \<or> c = CHR ''-'')"

fun domain_labels :: "nat \<Rightarrow> string list \<Rightarrow> nat option" where
  "domain_labels label_count [] = Some label_count"
| "domain_labels label_count (label # rest) =
     (if \<not> IsValidDomainLabel label then None else domain_labels (label_count + 1) rest)"

definition IsValidDomainName :: "string \<Rightarrow> bool" where
  "IsValidDomainName host =
     (if host = [] \<or> deref host = CHR ''.'' \<or> last host = CHR ''.'' then False
      else case domain_labels 0 (getline_split (CHR ''.'') [] host) of
             None \<Rightarrow> False
           | Some label_count \<Rightarrow> 2 \<le> label_count)"

definition IsValidHost :: "string \<Rightarrow> bool" where
  "IsValidHost host =
     (if host = [] then False
      else if host = ''localhost'' then True
      else if LooksLikeIPv4 host then IsValidIPv4 host
      else if ContainsInvalidChars host then False
      else IsValidDomainName host)"

subsection \<open>IPv4 addresses\<close>

lemma segment_value_snoc:
  "segment_value v (seg @ [c]) =
     (case segment_value v seg of None \<Rightarrow> None
      | Some u \<Rightarrow> if is_digit c then Some (u * 10 + int (digit_value c)) else None)"
  by (induction seg arbitrary: v) auto

lemma segment_value_eq:
  "segment_value v seg =
     (if \<forall>c\<in>set seg. is_digit c then Some (v * 10 ^ length seg + int (dec_value seg)) else None)"
  by (induction seg rule: rev_induct) (simp_all add: segment_value_snoc algebra_simps)

lemma segment_value_Some:
  "segment_value v seg = Some w \<longleftrightarrow>
     (\<forall>c\<in>set seg. is_digit c) \<and> w = v * 10 ^ length seg + int (dec_value seg)"
  by (auto simp: segment_value_eq)

text \<open>A valid segment is the numeral of a byte.\<close>

lemma IsValidIPv4Segment_iff: "IsValidIPv4Segment seg \<longleftrightarrow> (\<exists>n\<le>255. seg = dec n)"
proof
  assume v: "IsValidIPv4Segment seg"
  then have d: "seg \<noteq> []" "\<forall>c\<in>set seg. is_digit c" "dec_value seg \<le> 255"
      and z: "length seg = 1 \<or> hd seg \<noteq> CHR ''0''"
    by (auto simp: IsValidIPv4Segment_def segment_value_Some deref_def hd_conv_nth
        split: if_splits option.splits list.splits)
  from dec_dec_value [OF d(1,2) z] d(3) show "\<exists>n\<le>255. seg = dec n" by metis
next
  assume "\<exists>n\<le>255. seg = dec n"
  then obtain n where n: "n \<le> 255" "seg = dec n" by blast
  have len: "length (dec n) \<le> 3"
  proof -
    consider "n < 10" | "10 \<le> n" "n < 100" | "100 \<le> n" by linarith
    then show ?thesis
      using n(1) by cases (simp_all add: dec_small dec_step)
  qed
  have "1 < length (dec n) \<Longrightarrow> n \<noteq> 0"
    by (cases "n = 0") (auto simp: dec_small)
  then have "1 < length (dec n) \<Longrightarrow> deref (dec n) \<noteq> CHR ''0''"
    using dec_hd [of n] by (cases "dec n") auto
  moreover have "segment_value 0 (dec n) = Some (int n)"
    by (simp add: segment_value_Some dec_digits)
  ultimately show "IsValidIPv4Segment seg"
    using n len by (auto simp: IsValidIPv4Segment_def)
qed

lemma ipv4_segments_Some:
  "ipv4_segments k segs = Some n \<longleftrightarrow>
     n = k + length segs \<and> (segs = [] \<or> n \<le> 4) \<and> (\<forall>seg\<in>set segs. IsValidIPv4Segment seg)"
  by (induction k segs rule: ipv4_segments.induct) auto

lemma dec_no_dot: "CHR ''.'' \<notin> set (dec n)"
  using dec_digits digit_not_sign by blast

definition ipv4_text :: "nat list \<Rightarrow> string" where
  "ipv4_text bs = join (CHR ''.'') (map dec bs)"

lemma set_join: "set (join d segs) \<subseteq> insert d (\<Union>seg\<in>set segs. set seg)"
  by (induction d segs rule: join.induct) auto

lemma ipv4_text_chars: "c \<in> set (ipv4_text bs) \<Longrightarrow> is_digit c \<or> c = CHR ''.''"
  using set_join [of "CHR ''.''" "map dec bs"] by (auto simp: ipv4_text_def dest: dec_digits)

lemma IsValidIPv4_iff_text:
  "IsValidIPv4 host \<longleftrightarrow>
     (\<exists>bs. length bs = 4 \<and> (\<forall>b\<in>set bs. b \<le> 255) \<and>
        (host = ipv4_text bs \<or> host = ipv4_text bs @ ''.''))"
  (is "?l \<longleftrightarrow> ?r")
proof
  let ?segs = "getline_split (CHR ''.'') [] host"
  assume ?l
  then have segs: "length ?segs = 4" "\<forall>seg\<in>set ?segs. \<exists>n\<le>255. seg = dec n"
    by (auto simp: IsValidIPv4_def ipv4_segments_Some IsValidIPv4Segment_iff split: if_splits)
  then obtain f where f: "\<forall>seg\<in>set ?segs. f seg \<le> 255 \<and> seg = dec (f seg)" by metis
  define bs where "bs = map f ?segs"
  have "map dec bs = ?segs" using f by (simp add: bs_def map_idI)
  moreover have "host \<noteq> []" using segs(1) by auto
  ultimately have "host = ipv4_text bs \<or> host = ipv4_text bs @ ''.''"
    using join_getline [of "[]" host "CHR ''.''"] by (auto simp: ipv4_text_def)
  moreover have "length bs = 4" "\<forall>b\<in>set bs. b \<le> 255" using segs(1) f by (auto simp: bs_def)
  ultimately show ?r by blast
next
  assume ?r
  then obtain bs where bs: "length bs = 4" "\<forall>b\<in>set bs. b \<le> 255"
      and host: "host = ipv4_text bs \<or> host = ipv4_text bs @ ''.''" by blast
  have ne: "bs \<noteq> []" using bs(1) by auto
  have "getline_split (CHR ''.'') [] host = map dec bs"
    using host ne getline_join [of "map dec bs" "CHR ''.''"]
      getline_join_trailing [of "map dec bs" "CHR ''.''"]
    by (auto simp: ipv4_text_def last_map dec_no_dot)
  moreover have "\<not> (\<exists>c\<in>set host. \<not> is_digit c \<and> c \<noteq> CHR ''.'')"
    using host by (auto dest: ipv4_text_chars)
  ultimately show ?l
    using bs by (auto simp: IsValidIPv4_def ipv4_segments_Some IsValidIPv4Segment_iff)
qed

subsection \<open>Domain names\<close>

lemma domain_labels_Some:
  "domain_labels k labels = Some n \<longleftrightarrow>
     n = k + length labels \<and> (\<forall>label\<in>set labels. IsValidDomainLabel label)"
  by (induction k labels rule: domain_labels.induct) auto

lemma domain_label_no_dot: "IsValidDomainLabel label \<Longrightarrow> label \<noteq> [] \<and> CHR ''.'' \<notin> set label"
  by (auto simp: IsValidDomainLabel_def byte_defs split: if_splits)

lemma IsValidDomainName_iff_labels:
  "IsValidDomainName host \<longleftrightarrow>
     (\<exists>labels. 2 \<le> length labels \<and> (\<forall>label\<in>set labels. IsValidDomainLabel label) \<and>
        host = join (CHR ''.'') labels)"
  (is "?l \<longleftrightarrow> ?r")
proof
  let ?segs = "getline_split (CHR ''.'') [] host"
  assume l: ?l
  then have "host \<noteq> []" "last host \<noteq> CHR ''.''"
    by (auto simp: IsValidDomainName_def split: if_splits)
  then have "host = join (CHR ''.'') ?segs" using join_getline [of "[]" host "CHR ''.''"] by auto
  moreover from l have "2 \<le> length ?segs" "\<forall>label\<in>set ?segs. IsValidDomainLabel label"
    by (auto simp: IsValidDomainName_def domain_labels_Some split: if_splits option.splits)
  ultimately show ?r by blast
next
  assume ?r
  then obtain labels where ls: "2 \<le> length labels" "\<forall>label\<in>set labels. IsValidDomainLabel label"
      and host: "host = join (CHR ''.'') labels" by blast
  have ne: "labels \<noteq> []" using ls(1) by auto
  have nd: "\<forall>label\<in>set labels. label \<noteq> [] \<and> CHR ''.'' \<notin> set label"
    using ls(2) domain_label_no_dot by blast
  have ends: "join d xs \<noteq> [] \<and> hd (join d xs) = hd (hd xs) \<and> last (join d xs) = last (last xs)"
    if "xs \<noteq> []" "\<forall>x\<in>set xs. x \<noteq> []" for d xs
    using that by (induction d xs rule: join.induct) auto
  have "hd labels \<in> set labels" "last labels \<in> set labels" using ne by auto
  then have "hd (hd labels) \<noteq> CHR ''.''" "last (last labels) \<noteq> CHR ''.''"
    using nd by (metis hd_in_set, metis last_in_set)
  then have "host \<noteq> []" "deref host \<noteq> CHR ''.''" "last host \<noteq> CHR ''.''"
    using ends [OF ne, of "CHR ''.''"] nd host by (auto simp: deref_def hd_def split: list.splits)
  moreover have "getline_split (CHR ''.'') [] host = labels"
    using getline_join [OF ne, of "CHR ''.''"] nd ne host by auto
  moreover have "domain_labels 0 labels = Some (length labels)"
    using ls(2) by (simp add: domain_labels_Some)
  ultimately show ?l using ls(1) by (simp add: IsValidDomainName_def)
qed

subsection \<open>Accepted hosts\<close>

lemma domain_name_chars: "IsValidDomainName host \<Longrightarrow> c \<in> set host \<Longrightarrow> IsHostChar c"
proof -
  assume "IsValidDomainName host" and c: "c \<in> set host"
  then obtain labels where ls: "\<forall>label\<in>set labels. IsValidDomainLabel label"
      and "host = join (CHR ''.'') labels"
    by (auto simp: IsValidDomainName_iff_labels)
  with c set_join [of "CHR ''.''" labels]
  have "c = CHR ''.'' \<or> (\<exists>label\<in>set labels. c \<in> set label)" by auto
  with ls show ?thesis by (auto simp: IsHostChar_def IsValidDomainLabel_def split: if_splits)
qed

lemma IsValidHost_chars: "IsValidHost host \<Longrightarrow> host \<noteq> [] \<and> (\<forall>c\<in>set host. IsHostChar c)"
proof -
  assume v: "IsValidHost host"
  then consider "host = ''localhost''" | "IsValidIPv4 host" | "IsValidDomainName host"
    by (auto simp: IsValidHost_def split: if_splits)
  then have "\<forall>c\<in>set host. IsHostChar c"
  proof cases
    case 1
    then show ?thesis by (simp add: IsHostChar_def byte_defs)
  next
    case 2
    then show ?thesis by (auto simp: IsValidIPv4_def IsHostChar_def is_alnum_def split: if_splits)
  next
    case 3
    then show ?thesis by (blast intro: domain_name_chars)
  qed
  with v show ?thesis by (auto simp: IsValidHost_def)
qed

subsection \<open>Properties\<close>

text \<open>C39: The hosts that are accepted, exactly: \<open>localhost\<close>; four numbers from 0 to 255 without
  leading zeros, between dots, which a dot may follow; and two or more labels between dots, each
  of 1 to 63 letters, digits and inner hyphens, with a letter somewhere.\<close>

theorem host_language:
  "IsValidHost host \<longleftrightarrow> host = ''localhost'' \<or>
     (\<exists>bs. length bs = 4 \<and> set bs \<subseteq> {..255} \<and> (host = ipv4_text bs \<or> host = ipv4_text bs @ ''.'')) \<or>
     (\<exists>labels. 2 \<le> length labels \<and> set labels \<subseteq> {label. IsValidDomainLabel label} \<and>
        host = join (CHR ''.'') labels \<and> filter is_alpha host \<noteq> [])"
proof -
  have disj: "is_alpha c \<Longrightarrow> \<not> is_digit c \<and> c \<noteq> CHR ''.'' \<and> c \<noteq> CHR ''-''" for c
    by (auto simp: byte_defs char_le_iff)
  have look: "LooksLikeIPv4 host \<longleftrightarrow> filter is_alpha host = []" if "\<forall>c\<in>set host. IsHostChar c"
    using that disj unfolding LooksLikeIPv4_def filter_empty_conv IsHostChar_def is_alnum_def by blast
  have name: "IsValidDomainName host \<Longrightarrow> \<forall>c\<in>set host. IsHostChar c"
    using domain_name_chars by blast
  have v4: "IsValidIPv4 host \<Longrightarrow> LooksLikeIPv4 host \<and> host \<noteq> []"
    by (auto simp: IsValidIPv4_def LooksLikeIPv4_def split: if_splits)
  have "IsValidHost host \<longleftrightarrow> host = ''localhost'' \<or> IsValidIPv4 host \<or>
      (IsValidDomainName host \<and> \<not> LooksLikeIPv4 host)"
    using v4 name by (auto simp: IsValidHost_def ContainsInvalidChars_def IsValidDomainName_def)
  also have "\<dots> \<longleftrightarrow> host = ''localhost'' \<or> IsValidIPv4 host \<or>
      (IsValidDomainName host \<and> filter is_alpha host \<noteq> [])"
    using look name by blast
  finally show ?thesis
    unfolding IsValidIPv4_iff_text IsValidDomainName_iff_labels by (simp only: subset_iff Ball_def mem_Collect_eq atMost_iff) blast
qed

end
