(* ===== verification/Config_Parser.thy ===== *)
theory Config_Parser
  imports Server_Config File_Validator Host_Validation
begin

text \<open>
  \<open>ConfigParser\<close>: the recursive-descent parser of the configuration file. The pair of the
  file content and \<open>current_pos_\<close> is the rest of the content from that position; every
  function takes it and returns it. A failure is the \<open>std::runtime_error\<close> with its message;
  \<open>NormalizePathBySegments\<close> and \<open>Optional::Value\<close> throw their own exceptions.
  \<open>getcwd\<close> is a parameter: \<open>None\<close> when the call fails.

  The results: what the tokenizer returns and that tokens printed with white space between them
  read back; that parsing always ends; and the invariant of every configuration that is accepted
  (routing names, roots, index files, limits), on which the other components rely.
\<close>

subsection \<open>Tokens\<close>

definition is_config_space :: "char \<Rightarrow> bool" where
  "is_config_space c \<longleftrightarrow> c \<in> set ('' '' @ [TAB, CR, LF])"

definition is_special :: "char \<Rightarrow> bool" where
  "is_special c \<longleftrightarrow> c \<in> set ''{};''"

definition is_regular :: "char \<Rightarrow> bool" where
  "is_regular c \<longleftrightarrow> \<not> is_config_space c \<and> \<not> is_special c"

text \<open>The token (empty at the end of the content) and the rest.\<close>

definition Tokenize :: "string \<Rightarrow> string \<times> string" where
  "Tokenize content =
     (case dropWhile is_config_space content of
        [] \<Rightarrow> ([], [])
      | c # cs \<Rightarrow>
          (if is_special c then ([c], cs)
           else (takeWhile is_regular (c # cs), dropWhile is_regular (c # cs))))"

datatype token_type =
    kTokenUnknown | kTokenListen | kTokenServerName | kTokenMaxBody | kTokenErrorPage | kTokenLocation
  | kTokenAllowedMethods | kTokenRoot | kTokenAutoindex | kTokenIndex | kTokenUploadPath | kTokenRedirect
  | kTokenCgi | kTokenCgiAllowedExtensions

definition kTokenTable :: "(string, token_type) std_map" where
  "kTokenTable =
     fold (\<lambda>(k, v). map_put k v)
       [(''listen'', kTokenListen), (''server_name'', kTokenServerName),
        (''client_max_body_size'', kTokenMaxBody), (''error_page'', kTokenErrorPage),
        (''location'', kTokenLocation), (''allowed_methods'', kTokenAllowedMethods),
        (''root'', kTokenRoot), (''autoindex'', kTokenAutoindex), (''index'', kTokenIndex),
        (''upload_path'', kTokenUploadPath), (''redirect'', kTokenRedirect), (''cgi'', kTokenCgi),
        (''cgi_allowed_extensions'', kTokenCgiAllowedExtensions)] []"

definition ToTokenType :: "string \<Rightarrow> token_type" where
  "ToTokenType token = (case map_get kTokenTable token of Some t \<Rightarrow> t | None \<Rightarrow> kTokenUnknown)"

definition IsDirective :: "string \<Rightarrow> bool" where
  "IsDirective token \<longleftrightarrow> ToTokenType token \<noteq> kTokenUnknown"

definition IsAllDigits :: "string \<Rightarrow> bool" where
  "IsAllDigits str \<longleftrightarrow> (\<forall>c\<in>set str. is_digit c)"

definition IsValidPortNumber :: "string \<Rightarrow> bool" where
  "IsValidPortNumber port \<longleftrightarrow>
     port \<noteq> [] \<and> length port \<le> 5 \<and> (\<forall>c\<in>set port. is_digit c) \<and> 0 < atoi port \<and> atoi port \<le> 65535"

abbreviation runtime_error :: "string \<Rightarrow> exn + 'a" where
  "runtime_error msg \<equiv> Inl (RuntimeError msg)"

definition ConsumeExpectedSemicolon :: "string \<Rightarrow> string \<Rightarrow> exn + string" where
  "ConsumeExpectedSemicolon directive_name content =
     (let (token, rest) = Tokenize content
      in if token \<noteq> '';'' then runtime_error (''Expected '' @ [CHR 0x27] @ '';'' @ [CHR 0x27] @
             '' after '' @ directive_name @ '' directive'')
         else Inr rest)"

text \<open>\<open>ParseSimpleDirective\<close>, for a setter that may throw.\<close>

definition ParseSimpleDirective ::
  "(string \<Rightarrow> 'a \<Rightarrow> exn + 'a) \<Rightarrow> string \<Rightarrow> 'a \<Rightarrow> string \<Rightarrow> exn + 'a \<times> string" where
  "ParseSimpleDirective setter error_msg obj content =
     (let (token, rest) = Tokenize content
      in if token = [] then runtime_error (''Syntax error: expected '' @ error_msg)
         else and_then (setter token obj) (\<lambda>obj1.
           and_then (ConsumeExpectedSemicolon error_msg rest) (\<lambda>rest1. Inr (obj1, rest1))))"

definition RequireAbsoluteSafePathOrThrow :: "string \<Rightarrow> string \<Rightarrow> exn + unit" where
  "RequireAbsoluteSafePathOrThrow path label =
     (if path = [] \<or> deref path \<noteq> CHR ''/''
      then runtime_error (label @ '' must be an absolute path: '' @ path)
      else if \<exists>c\<in>set path. \<not> IsValidHeaderChar c
      then runtime_error (label @ '' contains invalid character: '' @ path)
      else Inr ())"

subsection \<open>Directives of a location\<close>

definition ParseRedirect :: "location \<Rightarrow> string \<Rightarrow> exn + location \<times> string" where
  "ParseRedirect = ParseSimpleDirective SetRedirect ''redirect value''"

definition ParseCgi :: "location \<Rightarrow> string \<Rightarrow> exn + location \<times> string" where
  "ParseCgi = ParseSimpleDirective SetCgiEnabled ''cgi value''"

definition ParseAutoIndex :: "location \<Rightarrow> string \<Rightarrow> exn + location \<times> string" where
  "ParseAutoIndex l content =
     (let (token, rest) = Tokenize content
      in if token = [] then runtime_error (''Syntax error: expected autoindex value'' @ token)
         else if token \<noteq> ''on'' \<and> token \<noteq> ''off'' then runtime_error (''Invalid autoindex value: '' @ token)
         else and_then (SetAutoIndex (token = ''on'') l) (\<lambda>l1.
           and_then (ConsumeExpectedSemicolon ''autoindex'' rest) (\<lambda>rest1. Inr (l1, rest1))))"

definition IsSafeIndexFilename :: "string \<Rightarrow> bool" where
  "IsSafeIndexFilename filename \<longleftrightarrow>
     filename \<noteq> [] \<and> str_find ''../'' filename = None \<and> str_find ''/'' filename = None \<and>
     (\<forall>c\<in>set filename. IsVisibleAscii c \<and>
        (is_alnum c \<or> c = CHR ''.'' \<or> c = CHR ''-'' \<or> c = CHR ''_''))"

definition ParseIndex :: "location \<Rightarrow> string \<Rightarrow> exn + location \<times> string" where
  "ParseIndex l content =
     (let (token, rest) = Tokenize content
      in if token = [] then runtime_error ''Syntax error: expected index file name  but got empty token''
         else if \<not> IsSafeIndexFilename token then runtime_error (''Unsafe index file name: '' @ token)
         else and_then (SetIndexFile token l) (\<lambda>l1.
           and_then (ConsumeExpectedSemicolon ''index file name'' rest) (\<lambda>rest1. Inr (l1, rest1))))"

definition ParseUploadPath :: "location \<Rightarrow> string \<Rightarrow> exn + location \<times> string" where
  "ParseUploadPath l content =
     (let (token, rest) = Tokenize content
      in if token = [] then runtime_error ''Syntax error: expected upload path but got empty token''
         else and_then (RequireAbsoluteSafePathOrThrow token ''Upload path'') (\<lambda>_.
           and_then (SetUploadPath token l) (\<lambda>l1.
             and_then (ConsumeExpectedSemicolon ''upload path'' rest) (\<lambda>rest1. Inr (l1, rest1)))))"

definition IsAbsolutePath :: "string \<Rightarrow> bool" where
  "IsAbsolutePath path \<longleftrightarrow> path \<noteq> [] \<and> deref path = CHR ''/''"

definition JoinAndNormalizePath :: "string \<Rightarrow> string \<Rightarrow> exn + string" where
  "JoinAndNormalizePath base relative =
     (if base = [] \<or> base = ''.'' then Inr relative
      else if str_find ''..'' relative \<noteq> None
      then runtime_error (''Relative path contains '' @ [CHR 0x27] @ ''..'' @ [CHR 0x27] @ '', which is not allowed'')
      else NormalizePathBySegments (base @ ''/'' @ relative))"

definition GetCwdOrThrow :: "string option \<Rightarrow> exn + string" where
  "GetCwdOrThrow getcwd =
     (case getcwd of
        None \<Rightarrow> runtime_error ''Failed to get current working directory''
      | Some cwd \<Rightarrow> Inr cwd)"

definition ResolveRootPath :: "string option \<Rightarrow> string \<Rightarrow> exn + string" where
  "ResolveRootPath getcwd token =
     (if IsAbsolutePath token then Inr token
      else and_then (GetCwdOrThrow getcwd) (\<lambda>current_dir. JoinAndNormalizePath current_dir token))"

definition ParseRoot :: "string option \<Rightarrow> location \<Rightarrow> string \<Rightarrow> exn + location \<times> string" where
  "ParseRoot getcwd l content =
     (let (token, rest) = Tokenize content
      in if token = [] then runtime_error ''Syntax error: expected root path but got empty token''
         else and_then (ResolveRootPath getcwd token) (\<lambda>resolved.
           and_then (RequireAbsoluteSafePathOrThrow resolved ''Root path'') (\<lambda>_.
             and_then (SetRoot resolved l) (\<lambda>l1.
               and_then (ConsumeExpectedSemicolon ''root path'' rest) (\<lambda>rest1. Inr (l1, rest1))))))"

text \<open>What is left after a token is shorter, so the loops over tokens end.\<close>

lemma Tokenize_split:
  assumes "Tokenize content = (token, rest)"
  obtains (none) "token = []" and "rest = []" and "\<forall>c\<in>set content. is_config_space c"
  | (some) ws where "content = ws @ token @ rest" and "\<forall>c\<in>set ws. is_config_space c" and "token \<noteq> []"
      and "(\<exists>c. token = [c] \<and> is_special c) \<or>
        (\<forall>c\<in>set token. is_regular c) \<and> (rest = [] \<or> \<not> is_regular (hd rest))"
proof (cases "dropWhile is_config_space content")
  case Nil
  then have "Tokenize content = ([], [])" by (simp only: Tokenize_def list.case)
  moreover have "\<forall>c\<in>set content. is_config_space c" using Nil by (simp only: dropWhile_eq_Nil_conv)
  ultimately show thesis using assms none by simp
next
  case (Cons c cs)
  let ?ws = "takeWhile is_config_space content"
  have c: "content = ?ws @ c # cs" using Cons by (metis takeWhile_dropWhile_id)
  have ws: "\<forall>c\<in>set ?ws. is_config_space c" by (auto dest: set_takeWhileD)
  have "\<not> is_config_space c" using Cons by (metis hd_dropWhile list.distinct(1) list.sel(1))
  show thesis
  proof (cases "is_special c")
    case True
    then have "token = [c]" "rest = cs" using assms Cons by (simp_all add: Tokenize_def)
    then show thesis using some [of ?ws] c ws True by auto
  next
    case False
    then have r: "is_regular c" using \<open>\<not> is_config_space c\<close> by (simp add: is_regular_def)
    have t: "token = takeWhile is_regular (c # cs)" "rest = dropWhile is_regular (c # cs)"
      using assms Cons False by (simp_all add: Tokenize_def)
    then have "content = ?ws @ token @ rest" using c by (metis takeWhile_dropWhile_id)
    moreover have "token \<noteq> []" using t r by simp
    moreover have "(\<forall>c\<in>set token. is_regular c) \<and> (rest = [] \<or> \<not> is_regular (hd rest))"
      unfolding t using hd_dropWhile [of is_regular "c # cs"] set_takeWhileD [of _ is_regular "c # cs"] by blast
    ultimately show thesis using some [of ?ws] ws by blast
  qed
qed

lemma Tokenize_shorter: "Tokenize content = (token, rest) \<Longrightarrow> token \<noteq> [] \<Longrightarrow> length rest < length content"
  by (elim Tokenize_split) auto

lemma Tokenize_le: "Tokenize content = (token, rest) \<Longrightarrow> length rest \<le> length content"
  by (elim Tokenize_split) auto

function methods_loop :: "location \<Rightarrow> bool \<Rightarrow> string \<Rightarrow> exn + location \<times> bool \<times> string" where
  "methods_loop l is_method_empty content =
     (let (token, rest) = Tokenize content
      in if token = '';'' then Inr (l, is_method_empty, rest)
         else if token = ''GET'' then methods_loop (AddAllowedMethod kGet l) False rest
         else if token = ''POST'' then methods_loop (AddAllowedMethod kPost l) False rest
         else if token = ''DELETE'' then methods_loop (AddAllowedMethod kDelete l) False rest
         else runtime_error (''Invalid method in allowed_methods: '' @ token))"
  by pat_completeness auto
termination
proof (relation "measure (\<lambda>(_, _, content). length content)", goal_cases)
  case (2 l e content t token rest)
  then show ?case using Tokenize_shorter [of content token rest] by simp
next
  case (3 l e content t token rest)
  then show ?case using Tokenize_shorter [of content token rest] by simp
next
  case (4 l e content t token rest)
  then show ?case using Tokenize_shorter [of content token rest] by simp
qed simp

declare methods_loop.simps [simp del]

definition ParseMethods :: "location \<Rightarrow> string \<Rightarrow> exn + location \<times> string" where
  "ParseMethods l content =
     (if loc_has_allowed_methods l then runtime_error ''Duplicate allowed_methods directive''
      else and_then (methods_loop l True content) (\<lambda>(l1, is_method_empty, rest).
        if is_method_empty then runtime_error ''No methods specified in allowed_methods directive''
        else Inr (SetHasAllowedMethods True l1, rest)))"

text \<open>The loop with the token it looks at.\<close>

function extensions_loop :: "location \<Rightarrow> string \<Rightarrow> string \<Rightarrow> location \<times> string" where
  "extensions_loop l token content =
     (if token \<noteq> [] \<and> token \<noteq> '';''
      then (let (token', rest) = Tokenize content
            in extensions_loop (AddCgiAllowedExtension token l) token' rest)
      else (l, content))"
  by pat_completeness auto
termination
proof (relation "measure (\<lambda>(_, token, content). length content + (if token = [] then 0 else 1))", goal_cases)
  case (2 l token content t token' rest)
  then show ?case using Tokenize_shorter [of content token' rest] Tokenize_le [of content token' rest]
    by (cases token') (auto split: prod.splits)
qed simp

declare extensions_loop.simps [simp del]

definition ParseCgiAllowedExtensions :: "location \<Rightarrow> string \<Rightarrow> exn + location \<times> string" where
  "ParseCgiAllowedExtensions l content =
     (if loc_has_cgi_allowed_extensions l then runtime_error ''Duplicate cgi allowed extensions directive''
      else
        (let (token, rest) = Tokenize content
         in if token = [] \<or> token = '';''
            then runtime_error ''Syntax error: expected cgi allowed extensions but got empty token or ;''
            else
              (let (l1, rest1) = extensions_loop l token rest
               in Inr (SetHasCgiAllowedExtensions True l1, rest1))))"

definition IsValidLocationName :: "string \<Rightarrow> bool" where
  "IsValidLocationName name \<longleftrightarrow>
     name \<noteq> [] \<and> deref name = CHR ''/'' \<and> str_find ''..'' name = None \<and> str_find ''//'' name = None"

text \<open>The \<open>switch\<close> of \<open>ParseLocation\<close>.\<close>

definition location_directive ::
  "string option \<Rightarrow> string \<Rightarrow> location \<Rightarrow> string \<Rightarrow> exn + location \<times> string" where
  "location_directive getcwd token l content =
     (case ToTokenType token of
        kTokenAllowedMethods \<Rightarrow> ParseMethods l content
      | kTokenRoot \<Rightarrow> ParseRoot getcwd l content
      | kTokenAutoindex \<Rightarrow> ParseAutoIndex l content
      | kTokenIndex \<Rightarrow> ParseIndex l content
      | kTokenUploadPath \<Rightarrow> ParseUploadPath l content
      | kTokenRedirect \<Rightarrow> ParseRedirect l content
      | kTokenCgi \<Rightarrow> ParseCgi l content
      | kTokenCgiAllowedExtensions \<Rightarrow> ParseCgiAllowedExtensions l content
      | _ \<Rightarrow> runtime_error (''Unknown directive in location: '' @ token))"

text \<open>Every directive leaves less than it was given, or at least not more.\<close>

lemma ConsumeExpectedSemicolon_shorter:
  "ConsumeExpectedSemicolon name content = Inr rest \<Longrightarrow> length rest < length content"
  by (auto simp: ConsumeExpectedSemicolon_def split: prod.splits if_splits intro: Tokenize_shorter)

lemma semicolon_after:
  assumes "and_then (ConsumeExpectedSemicolon name rest) (\<lambda>rest1. Inr (x, rest1)) = Inr (y, rest')"
  shows "y = x" and "length rest' < length rest"
  using assms by (auto simp: and_then_Inr_iff dest: ConsumeExpectedSemicolon_shorter)

lemma simple_directive_shorter:
  "ParseSimpleDirective setter msg obj content = Inr (obj', rest) \<Longrightarrow> length rest < length content"
  by (auto simp: ParseSimpleDirective_def and_then_Inr_iff split: prod.splits if_splits
      dest!: ConsumeExpectedSemicolon_shorter Tokenize_le)

lemma methods_loop_shorter:
  "methods_loop l e content = Inr (l', e', rest) \<Longrightarrow> length rest \<le> length content"
proof (induction l e content rule: methods_loop.induct)
  case (1 l e content)
  obtain token r where t: "Tokenize content = (token, r)" by (cases "Tokenize content")
  then have "length r \<le> length content" by (rule Tokenize_le)
  with 1 t show ?case
    by (subst (asm) (4) methods_loop.simps) (fastforce simp: Let_def split: if_splits)
qed

lemma extensions_loop_shorter: "extensions_loop l token content = (l', rest) \<Longrightarrow> length rest \<le> length content"
proof (induction l token content rule: extensions_loop.induct)
  case (1 l token content)
  obtain token' r where t: "Tokenize content = (token', r)" by (cases "Tokenize content")
  then have "length r \<le> length content" by (rule Tokenize_le)
  with 1 t show ?case
    by (subst (asm) (2) extensions_loop.simps) (fastforce simp: Let_def split: if_splits)
qed

lemma location_directive_shorter:
  assumes "location_directive getcwd token l content = Inr (l', rest)"
  shows "length rest \<le> length content"
  using assms
  by (cases "ToTokenType token")
     (auto simp: location_directive_def ParseMethods_def ParseRoot_def ParseAutoIndex_def ParseIndex_def
      ParseUploadPath_def ParseRedirect_def ParseCgi_def ParseCgiAllowedExtensions_def and_then_Inr_iff Let_def
      split: prod.splits if_splits
      dest!: Tokenize_le methods_loop_shorter extensions_loop_shorter simple_directive_shorter
        ConsumeExpectedSemicolon_shorter)

lemma ToTokenType_Nil [simp]: "ToTokenType [] = kTokenUnknown"
  by (simp add: ToTokenType_def kTokenTable_def)

function location_loop :: "string option \<Rightarrow> location \<Rightarrow> string \<Rightarrow> exn + location \<times> string" where
  "location_loop getcwd l content =
     (let (token, rest) = Tokenize content
      in if token = ''}'' then Inr (l, rest)
         else and_then (location_directive getcwd token l rest) (\<lambda>(l1, rest1). location_loop getcwd l1 rest1))"
  by pat_completeness auto
termination
proof (relation "measure (\<lambda>(_, _, content). length content)", goal_cases)
  case (2 getcwd l content t token rest x l1 rest1)
  then have d: "location_directive getcwd token l rest = Inr (l1, rest1)" by simp
  have "token \<noteq> []"
  proof
    assume "token = []"
    then show False using d by (simp add: location_directive_def)
  qed
  then show ?case using 2 location_directive_shorter [OF d] Tokenize_shorter [of content token rest] by auto
qed simp

declare location_loop.simps [simp del]

definition ParseLocation ::
  "string option \<Rightarrow> server_config \<Rightarrow> string \<Rightarrow> exn + server_config \<times> string" where
  "ParseLocation getcwd c content =
     (let (name, rest) = Tokenize content
      in if \<not> IsValidLocationName name then runtime_error (''Invalid location name: '' @ name)
         else
           (let l = SetName name Location_init; (brace, rest1) = Tokenize rest
            in if brace \<noteq> ''{''
               then runtime_error (''Syntax error: expected '' @ [CHR 0x27] @ ''{'' @ [CHR 0x27] @
                 '' after location name, got: '' @ brace)
               else and_then (location_loop getcwd l rest1) (\<lambda>(l1, rest2).
                 and_then (AddLocation l1 c) (\<lambda>c1. Inr (c1, rest2)))))"

subsection \<open>Directives of a server\<close>

definition ParseServerName :: "server_config \<Rightarrow> string \<Rightarrow> exn + server_config \<times> string" where
  "ParseServerName = ParseSimpleDirective SetServerName ''server_name value''"

definition ParseMaxBody :: "server_config \<Rightarrow> string \<Rightarrow> exn + server_config \<times> string" where
  "ParseMaxBody c content =
     (let (token, rest) = Tokenize content
      in if token = [] then runtime_error (''Syntax error : expected max_body value'' @ token)
         else
           (let n = atoi token
            in if n < 0 \<or> 100000000 < n then runtime_error (''Invalid max_body size: '' @ token)
               else and_then (SetMaxBodySize n c) (\<lambda>c1.
                 and_then (ConsumeExpectedSemicolon ''max_body'' rest) (\<lambda>rest1. Inr (c1, rest1)))))"

definition ParseErrorPage :: "server_config \<Rightarrow> string \<Rightarrow> exn + server_config \<times> string" where
  "ParseErrorPage c content =
     (let (token, rest) = Tokenize content
      in if token = [] then runtime_error (''Syntax error : expected error code'' @ token)
         else
           (let error_code = atoi token
            in if error_code < 400 \<or> 599 < error_code then runtime_error (''Invalid error code: '' @ token)
               else
                 (let (path, rest1) = Tokenize rest
                  in if path = [] then runtime_error (''Syntax error : expected error page path'' @ path)
                     else if deref path = CHR ''.''
                     then runtime_error (''Error page path must be absolute: '' @ path)
                     else
                       (let path1 =
                          (if str_find ''https://'' path \<noteq> Some 0 \<and> str_find ''http://'' path \<noteq> Some 0 \<and>
                              deref path \<noteq> CHR ''/''
                           then ''/'' @ path else path)
                        in and_then (ConsumeExpectedSemicolon ''error_page'' rest1) (\<lambda>rest2.
                             Inr (SetErrorPage (Status error_code) path1 c, rest2))))))"

definition ParseListen :: "server_config \<Rightarrow> string \<Rightarrow> exn + server_config \<times> string" where
  "ParseListen c content =
     (let (token1, rest) = Tokenize content
      in if token1 = [] then runtime_error ''Syntax error : expected host or port after listen''
         else
           (case str_find '':'' token1 of
              Some colon_pos \<Rightarrow>
                (let host = substr token1 0 colon_pos; port = drop (colon_pos + 1) token1
                 in if \<not> IsValidHost host then runtime_error (''Invalid host in listen directive: '' @ host)
                    else if \<not> IsValidPortNumber port
                    then runtime_error (''Invalid port number after '' @ [CHR 0x27] @ '':'' @ [CHR 0x27] @
                      '' in listen directive: '' @ port)
                    else
                      (let (end, rest1) = Tokenize rest
                       in if end \<noteq> '';''
                          then runtime_error (''Syntax error: expected '' @ [CHR 0x27] @ '';'' @ [CHR 0x27] @
                            '' after listen directive '' @ end)
                          else and_then (Optional_Value (StrToUnsignedShort port)) (\<lambda>p.
                            and_then (SetListen host p c) (\<lambda>c1. Inr (c1, rest1)))))
            | None \<Rightarrow>
                (let (token2, rest1) = Tokenize rest
                 in if token2 \<noteq> '';''
                    then runtime_error (''Syntax error: expected '' @ [CHR 0x27] @ '';'' @ [CHR 0x27] @
                      '' after listen value: '' @ token2)
                    else if IsAllDigits token1 then
                      (if \<not> IsValidPortNumber token1
                       then runtime_error (''Invalid port number in listen directive: '' @ token1)
                       else and_then (Optional_Value (StrToUnsignedShort token1)) (\<lambda>p.
                         and_then (SetPort p c) (\<lambda>c1. Inr (c1, rest1))))
                    else
                      (if \<not> IsValidHost token1
                       then runtime_error (''Invalid host in listen directive: '' @ token1)
                       else and_then (SetHost token1 c) (\<lambda>c1. Inr (c1, rest1))))))"

definition server_directive ::
  "string option \<Rightarrow> string \<Rightarrow> server_config \<Rightarrow> string \<Rightarrow> exn + server_config \<times> string" where
  "server_directive getcwd token c content =
     (case ToTokenType token of
        kTokenListen \<Rightarrow> ParseListen c content
      | kTokenServerName \<Rightarrow> ParseServerName c content
      | kTokenMaxBody \<Rightarrow> ParseMaxBody c content
      | kTokenErrorPage \<Rightarrow> ParseErrorPage c content
      | kTokenLocation \<Rightarrow> ParseLocation getcwd c content
      | _ \<Rightarrow> runtime_error (''Unknown directive: '' @ token))"

lemma location_loop_shorter:
  "location_loop getcwd l content = Inr (l', rest) \<Longrightarrow> length rest \<le> length content"
proof (induction getcwd l content rule: location_loop.induct)
  case (1 getcwd l content)
  obtain token r where t: "Tokenize content = (token, r)" by (cases "Tokenize content")
  then have r: "length r \<le> length content" by (rule Tokenize_le)
  show ?case
  proof (cases "token = ''}''")
    case True
    then show ?thesis using 1(2) t r by (subst (asm) location_loop.simps) simp
  next
    case False
    then obtain l1 r1 where d: "location_directive getcwd token l r = Inr (l1, r1)"
        and loop: "location_loop getcwd l1 r1 = Inr (l', rest)"
      using 1(2) t by (subst (asm) location_loop.simps) (auto simp: and_then_Inr_iff)
    have "length rest \<le> length r1" using 1(1) [OF t [symmetric] refl False d refl loop] .
    then show ?thesis using location_directive_shorter [OF d] r by simp
  qed
qed

lemma ParseLocation_shorter: "ParseLocation getcwd c content = Inr (c', rest) \<Longrightarrow> length rest \<le> length content"
  by (auto simp: ParseLocation_def Let_def and_then_Inr_iff split: prod.splits if_splits
      dest!: Tokenize_le location_loop_shorter)

lemma ParseListen_shorter: "ParseListen c content = Inr (c', rest) \<Longrightarrow> length rest \<le> length content"
  by (auto simp: ParseListen_def Let_def and_then_Inr_iff split: prod.splits if_splits option.splits
      dest!: Tokenize_le)

lemma ParseErrorPage_shorter: "ParseErrorPage c content = Inr (c', rest) \<Longrightarrow> length rest \<le> length content"
  by (auto simp: ParseErrorPage_def Let_def and_then_Inr_iff split: prod.splits if_splits
      dest!: Tokenize_le ConsumeExpectedSemicolon_shorter)

lemma server_directive_shorter:
  assumes "server_directive getcwd token c content = Inr (c', rest)"
  shows "length rest \<le> length content" and "token \<noteq> []"
proof -
  show "length rest \<le> length content"
    using assms
    by (cases "ToTokenType token")
       (auto simp: server_directive_def ParseServerName_def ParseMaxBody_def Let_def and_then_Inr_iff
        split: prod.splits if_splits
        dest!: Tokenize_le ConsumeExpectedSemicolon_shorter simple_directive_shorter ParseLocation_shorter
          ParseListen_shorter ParseErrorPage_shorter)
  show "token \<noteq> []" using assms by (auto simp: server_directive_def)
qed

function server_loop ::
  "string option \<Rightarrow> server_config \<Rightarrow> string \<Rightarrow> exn + server_config \<times> string" where
  "server_loop getcwd c content =
     (let (token, rest) = Tokenize content
      in if token = ''}'' then Inr (c, rest)
         else and_then (server_directive getcwd token c rest) (\<lambda>(c1, rest1). server_loop getcwd c1 rest1))"
  by pat_completeness auto
termination
proof (relation "measure (\<lambda>(_, _, content). length content)", goal_cases)
  case (2 getcwd c content t token rest x c1 rest1)
  then have d: "server_directive getcwd token c rest = Inr (c1, rest1)" by simp
  then show ?case using 2 server_directive_shorter [OF d] Tokenize_shorter [of content token rest] by auto
qed simp

declare server_loop.simps [simp del]

text \<open>\<open>server_configs_\<close> is returned with the rest.\<close>

definition ParseServer ::
  "string option \<Rightarrow> server_config list \<Rightarrow> string \<Rightarrow> exn + server_config list \<times> string" where
  "ParseServer getcwd server_configs content =
     (let (token, rest) = Tokenize content
      in if token \<noteq> ''{'' then runtime_error (''Syntax error: '' @ token)
         else and_then (server_loop getcwd ServerConfig_init rest) (\<lambda>(c, rest1).
           Inr (server_configs @ [c], rest1)))"

lemma server_loop_shorter:
  "server_loop getcwd c content = Inr (c', rest) \<Longrightarrow> length rest \<le> length content"
proof (induction getcwd c content rule: server_loop.induct)
  case (1 getcwd c content)
  obtain token r where t: "Tokenize content = (token, r)" by (cases "Tokenize content")
  then have r: "length r \<le> length content" by (rule Tokenize_le)
  show ?case
  proof (cases "token = ''}''")
    case True
    then show ?thesis using 1(2) t r by (subst (asm) server_loop.simps) simp
  next
    case False
    then obtain c1 r1 where d: "server_directive getcwd token c r = Inr (c1, r1)"
        and loop: "server_loop getcwd c1 r1 = Inr (c', rest)"
      using 1(2) t by (subst (asm) server_loop.simps) (auto simp: and_then_Inr_iff)
    have "length rest \<le> length r1" using 1(1) [OF t [symmetric] refl False d refl loop] .
    then show ?thesis using server_directive_shorter(1) [OF d] r by simp
  qed
qed

lemma ParseServer_shorter:
  "ParseServer getcwd cs content = Inr (cs', rest) \<Longrightarrow> length rest \<le> length content"
  by (auto simp: ParseServer_def Let_def and_then_Inr_iff split: prod.splits if_splits
      dest!: Tokenize_le server_loop_shorter)

function config_loop :: "string option \<Rightarrow> server_config list \<Rightarrow> string \<Rightarrow> exn + server_config list" where
  "config_loop getcwd server_configs content =
     (let (token, rest) = Tokenize content
      in if token = [] then Inr server_configs
         else if token = ''server''
         then and_then (ParseServer getcwd server_configs rest) (\<lambda>(cs, rest1). config_loop getcwd cs rest1)
         else runtime_error (''Syntax error: '' @ token))"
  by pat_completeness auto
termination
proof (relation "measure (\<lambda>(_, _, content). length content)", goal_cases)
  case (2 getcwd cs content t token rest x cs1 rest1)
  then have d: "ParseServer getcwd cs rest = Inr (cs1, rest1)" by simp
  then show ?case using 2 ParseServer_shorter [OF d] Tokenize_shorter [of content token rest] by auto
qed simp

declare config_loop.simps [simp del]

text \<open>\<open>Parse\<close> of a parser made from the text of a file.\<close>

definition ConfigParser_Parse :: "string option \<Rightarrow> string \<Rightarrow> exn + server_config list" where
  "ConfigParser_Parse getcwd content = config_loop getcwd [] content"

subsection \<open>What an accepted configuration guarantees\<close>

definition safe_absolute :: "string \<Rightarrow> bool" where
  "safe_absolute path \<longleftrightarrow> deref path = CHR ''/'' \<and> (\<forall>c\<in>set path. IsValidHeaderChar c)"

definition allowed_methods :: "http_method set" where
  "allowed_methods = {kGet, kPost, kDelete}"

definition location_wf :: "location \<Rightarrow> bool" where
  "location_wf l \<longleftrightarrow>
     IsValidLocationName (loc_name l) \<and>
     (if loc_has_root l then safe_absolute (loc_root l) else loc_root l = ''./'') \<and>
     (if loc_has_index_directive l then IsSafeIndexFilename (loc_index_file l) else loc_index_file l = []) \<and>
     (if loc_has_upload_path l then safe_absolute (loc_upload_path l) else loc_upload_path l = []) \<and>
     (if loc_has_redirect l then loc_redirect l \<noteq> [] else loc_redirect l = []) \<and>
     loc_redirect_status l = kFound \<and>
     map_wf (loc_methods l) \<and> fst ` set (loc_methods l) \<subseteq> allowed_methods \<and>
     loc_has_allowed_methods l = (loc_methods l \<noteq> []) \<and>
     (\<forall>ext\<in>set (loc_cgi_allowed_extensions l). ext \<noteq> [] \<and> ext \<noteq> '';'')"

definition error_page_path :: "string \<Rightarrow> bool" where
  "error_page_path path \<longleftrightarrow>
     deref path = CHR ''/'' \<or> prefix ''http://'' path \<or> prefix ''https://'' path"

definition server_wf :: "server_config \<Rightarrow> bool" where
  "server_wf c \<longleftrightarrow>
     IsValidHost (sc_host c) \<and> sc_port c \<noteq> 0 \<and>
     0 \<le> sc_max_body_size c \<and> sc_max_body_size c \<le> 100000000 \<and>
     map_wf (sc_errors c) \<and>
     (\<forall>(st, path)\<in>set (sc_errors c). 400 \<le> status_code st \<and> status_code st \<le> 599 \<and> error_page_path path) \<and>
     routes_wf (sc_locations c) \<and> (\<forall>l\<in>set (sc_locations c). location_wf l)"

text \<open>Inside a block the methods may be there before the flag is set.\<close>

lemma Location_init_wf: "IsValidLocationName name \<Longrightarrow> location_wf (SetName name Location_init)"
  by (simp add: location_wf_def SetName_def Location_init_def)

lemma safe_absolute_iff: "RequireAbsoluteSafePathOrThrow path label = Inr u \<longleftrightarrow> safe_absolute path"
  by (cases path) (auto simp: RequireAbsoluteSafePathOrThrow_def safe_absolute_def)

lemmas location_setters = SetRoot_def SetAutoIndex_def SetIndexFile_def SetUploadPath_def SetRedirect_def
  SetCgiEnabled_def SetHasAllowedMethods_def SetHasCgiAllowedExtensions_def AddAllowedMethod_def
  AddCgiAllowedExtension_def

lemma simple_directive_Inr:
  assumes "ParseSimpleDirective setter msg obj content = Inr (obj', rest)"
  obtains token where "token \<noteq> []" and "setter token obj = Inr obj'"
  using assms by (auto simp: ParseSimpleDirective_def and_then_Inr_iff split: prod.splits if_splits)

definition methods_ok :: "location \<Rightarrow> bool" where
  "methods_ok l \<longleftrightarrow> map_wf (loc_methods l) \<and> fst ` set (loc_methods l) \<subseteq> allowed_methods"

lemma methods_ok_add: "m \<in> allowed_methods \<Longrightarrow> methods_ok l \<Longrightarrow> methods_ok (AddAllowedMethod m l)"
  by (auto simp: methods_ok_def AddAllowedMethod_def map_put_keys)

lemma map_put_not_Nil [simp]: "map_put k v m \<noteq> []"
  by (cases "(k, v, m)" rule: map_put.cases) auto

lemma methods_loop_ok:
  "methods_loop l e content = Inr (l', e', rest) \<Longrightarrow> methods_ok l \<Longrightarrow> (\<not> e \<longrightarrow> loc_methods l \<noteq> []) \<Longrightarrow>
     \<exists>ms. l' = l\<lparr>loc_methods := ms\<rparr> \<and> methods_ok l' \<and> (\<not> e' \<longrightarrow> ms \<noteq> [])"
proof (induction l e content rule: methods_loop.induct)
  case (1 l e content)
  obtain token r where t: "Tokenize content = (token, r)" by (cases "Tokenize content")
  have add: "\<exists>ms. l' = l\<lparr>loc_methods := ms\<rparr> \<and> methods_ok l' \<and> (\<not> e' \<longrightarrow> ms \<noteq> [])"
    if "m \<in> allowed_methods"
      and "methods_ok (AddAllowedMethod m l) \<Longrightarrow> (\<not> False \<longrightarrow> loc_methods (AddAllowedMethod m l) \<noteq> []) \<Longrightarrow>
        \<exists>ms. l' = (AddAllowedMethod m l)\<lparr>loc_methods := ms\<rparr> \<and> methods_ok l' \<and> (\<not> e' \<longrightarrow> ms \<noteq> [])" for m
    using that(2) [OF methods_ok_add [OF that(1) "1.prems"(2)]] by (auto simp: AddAllowedMethod_def)
  show ?case
  proof (cases "token = '';''")
    case True
    then have "l' = l \<and> e' = e" using "1.prems"(1) t by (subst (asm) methods_loop.simps) simp
    then show ?thesis using "1.prems" by (intro exI [of _ "loc_methods l"]) simp
  next
    case False
    then consider (g) "token = ''GET''" "methods_loop (AddAllowedMethod kGet l) False r = Inr (l', e', rest)"
      | (p) "token = ''POST''" "methods_loop (AddAllowedMethod kPost l) False r = Inr (l', e', rest)"
      | (d) "token = ''DELETE''" "methods_loop (AddAllowedMethod kDelete l) False r = Inr (l', e', rest)"
      using "1.prems"(1) t by (subst (asm) methods_loop.simps) (auto split: if_splits)
    then show ?thesis
    proof cases
      case g
      show ?thesis by (rule add [of kGet]) (use "1.IH"(1) t g in \<open>simp_all add: allowed_methods_def\<close>)
    next
      case p
      show ?thesis by (rule add [of kPost]) (use "1.IH"(2) t p in \<open>simp_all add: allowed_methods_def\<close>)
    next
      case d
      show ?thesis by (rule add [of kDelete]) (use "1.IH"(3) t d in \<open>simp_all add: allowed_methods_def\<close>)
    qed
  qed
qed

lemma extensions_loop_ok:
  "extensions_loop l token content = (l', rest) \<Longrightarrow>
     \<exists>exts. l' = l\<lparr>loc_cgi_allowed_extensions := loc_cgi_allowed_extensions l @ exts\<rparr> \<and>
       (\<forall>ext\<in>set exts. ext \<noteq> [] \<and> ext \<noteq> '';'')"
proof (induction l token content rule: extensions_loop.induct)
  case (1 l token content)
  show ?case
  proof (cases "token \<noteq> [] \<and> token \<noteq> '';''")
    case True
    obtain token' r where t: "Tokenize content = (token', r)" by (cases "Tokenize content")
    have "extensions_loop (AddCgiAllowedExtension token l) token' r = (l', rest)"
      using "1.prems" True t by (subst (asm) extensions_loop.simps) simp
    from "1.IH" [OF True t [symmetric] refl this] obtain exts where
        l': "l' = l\<lparr>loc_cgi_allowed_extensions := loc_cgi_allowed_extensions l @ token # exts\<rparr>"
        and "\<forall>ext\<in>set exts. ext \<noteq> [] \<and> ext \<noteq> '';''"
      by (auto simp: AddCgiAllowedExtension_def)
    then show ?thesis using True by (intro exI [of _ "token # exts"]) simp
  next
    case False
    then have "l' = l" using "1.prems" by (subst (asm) extensions_loop.simps) auto
    then show ?thesis by (intro exI [of _ "[]"]) simp
  qed
qed

lemma location_directive_wf:
  assumes "location_directive getcwd token l content = Inr (l', rest)" and "location_wf l"
  shows "location_wf l' \<and> loc_name l' = loc_name l"
proof (cases "ToTokenType token")
  case kTokenAllowedMethods
  then obtain l1 e where "\<not> loc_has_allowed_methods l" and m: "methods_loop l True content = Inr (l1, e, rest)"
      and "\<not> e" and l': "l' = SetHasAllowedMethods True l1"
    using assms(1) by (auto simp: location_directive_def ParseMethods_def and_then_Inr_iff split: if_splits)
  moreover have "methods_ok l" using assms(2) by (simp add: location_wf_def methods_ok_def)
  then obtain ms where l1: "l1 = l\<lparr>loc_methods := ms\<rparr>" and "methods_ok l1" "\<not> e \<longrightarrow> ms \<noteq> []"
    using methods_loop_ok [OF m] by blast
  ultimately have "l' = l\<lparr>loc_methods := ms, loc_has_allowed_methods := True\<rparr>" "ms \<noteq> []" "methods_ok l1"
    by (simp_all add: SetHasAllowedMethods_def)
  then show ?thesis using assms(2) by (simp add: location_wf_def methods_ok_def l1)
next
  case kTokenCgiAllowedExtensions
  then obtain t r l1 where x: "extensions_loop l t r = (l1, rest)" and l': "l' = SetHasCgiAllowedExtensions True l1"
    using assms(1) by (auto simp: location_directive_def ParseCgiAllowedExtensions_def Let_def split: prod.splits if_splits)
  from extensions_loop_ok [OF x] obtain exts where
      l1: "l1 = l\<lparr>loc_cgi_allowed_extensions := loc_cgi_allowed_extensions l @ exts\<rparr>"
      and exts: "\<forall>ext\<in>set exts. ext \<noteq> [] \<and> ext \<noteq> '';''" by blast
  show ?thesis using assms(2) exts by (simp add: location_wf_def l' l1 SetHasCgiAllowedExtensions_def ball_Un)
next
  case kTokenRedirect
  then have "ParseSimpleDirective SetRedirect ''redirect value'' l content = Inr (l', rest)"
    using assms(1) by (simp add: location_directive_def ParseRedirect_def)
  then obtain token where "token \<noteq> []" "SetRedirect token l = Inr l'" by (rule simple_directive_Inr)
  then have "token \<noteq> []" "l' = l\<lparr>loc_redirect := token, loc_redirect_status := kFound, loc_has_redirect := True\<rparr>"
    by (simp_all add: SetRedirect_def split: if_splits)
  then show ?thesis using assms(2) by (simp add: location_wf_def)
next
  case kTokenCgi
  then have "ParseSimpleDirective SetCgiEnabled ''cgi value'' l content = Inr (l', rest)"
    using assms(1) by (simp add: location_directive_def ParseCgi_def)
  then obtain token where "SetCgiEnabled token l = Inr l'" by (rule simple_directive_Inr)
  then have "l' = l\<lparr>loc_cgi_enabled := (token = ''on''), loc_has_cgi_enabled := True\<rparr>"
    by (simp add: SetCgiEnabled_def split: if_splits)
  then show ?thesis using assms(2) by (simp add: location_wf_def)
next
  case kTokenRoot
  then obtain token resolved where "safe_absolute resolved" "SetRoot resolved l = Inr l'"
    using assms(1)
    by (auto simp: location_directive_def ParseRoot_def and_then_Inr_iff safe_absolute_iff Let_def
        split: prod.splits if_splits)
  then have "safe_absolute resolved" "l' = l\<lparr>loc_root := resolved, loc_has_root := True\<rparr>"
    by (simp_all add: SetRoot_def split: if_splits)
  then show ?thesis using assms(2) by (simp add: location_wf_def)
next
  case kTokenAutoindex
  then obtain v where "SetAutoIndex v l = Inr l'"
    using assms(1)
    by (auto simp: location_directive_def ParseAutoIndex_def and_then_Inr_iff Let_def
        split: prod.splits if_splits)
  then have "l' = l\<lparr>loc_autoindex := v, loc_has_autoindex := True\<rparr>"
    by (simp add: SetAutoIndex_def split: if_splits)
  then show ?thesis using assms(2) by (simp add: location_wf_def)
next
  case kTokenIndex
  then obtain token where "IsSafeIndexFilename token" "SetIndexFile token l = Inr l'"
    using assms(1)
    by (auto simp: location_directive_def ParseIndex_def and_then_Inr_iff Let_def
        split: prod.splits if_splits)
  then have "IsSafeIndexFilename token" "l' = l\<lparr>loc_index_file := token, loc_has_index_directive := True\<rparr>"
    by (simp_all add: SetIndexFile_def split: if_splits)
  then show ?thesis using assms(2) by (simp add: location_wf_def)
next
  case kTokenUploadPath
  then obtain token where "safe_absolute token" "SetUploadPath token l = Inr l'"
    using assms(1)
    by (auto simp: location_directive_def ParseUploadPath_def and_then_Inr_iff safe_absolute_iff Let_def
        split: prod.splits if_splits)
  then have "safe_absolute token" "l' = l\<lparr>loc_upload_path := token, loc_has_upload_path := True\<rparr>"
    by (simp_all add: SetUploadPath_def split: if_splits)
  then show ?thesis using assms(2) by (simp add: location_wf_def)
qed (use assms(1) in \<open>simp_all add: location_directive_def\<close>)

lemma IsValidLocationName_deref: "location_wf l \<Longrightarrow> deref (loc_name l) = CHR ''/''"
  by (simp add: location_wf_def IsValidLocationName_def)

lemma location_loop_wf:
  "location_loop getcwd l content = Inr (l', rest) \<Longrightarrow> location_wf l \<Longrightarrow> location_wf l'"
proof (induction getcwd l content rule: location_loop.induct)
  case (1 getcwd l content)
  obtain token r where t: "Tokenize content = (token, r)" by (cases "Tokenize content")
  show ?case
  proof (cases "token = ''}''")
    case True
    then show ?thesis using "1.prems" t by (subst (asm) location_loop.simps) simp
  next
    case False
    then obtain l1 r1 where d: "location_directive getcwd token l r = Inr (l1, r1)"
        and loop: "location_loop getcwd l1 r1 = Inr (l', rest)"
      using "1.prems"(1) t by (subst (asm) location_loop.simps) (auto simp: and_then_Inr_iff)
    have "location_wf l1" using location_directive_wf [OF d "1.prems"(2)] by simp
    with "1.IH" [OF t [symmetric] refl False d refl loop] show ?thesis .
  qed
qed

lemma ParseLocation_wf:
  assumes "ParseLocation getcwd c content = Inr (c', rest)" and "server_wf c"
  shows "server_wf c'"
proof -
  obtain name r l1 where "IsValidLocationName name"
      and loop: "location_loop getcwd (SetName name Location_init) r = Inr (l1, rest)"
      and add: "AddLocation l1 c = Inr c'"
    using assms(1) by (auto simp: ParseLocation_def Let_def and_then_Inr_iff split: prod.splits if_splits)
  then have l1: "location_wf l1" using location_loop_wf Location_init_wf by blast
  have "routes_wf (sc_locations c)" using assms(2) by (simp add: server_wf_def)
  from AddLocation_routes [OF add this IsValidLocationName_deref [OF l1]]
  have "routes_wf (sc_locations c')" .
  moreover have "c' = c\<lparr>sc_locations := sc_locations c @ [l1]\<rparr>" using add by (simp add: AddLocation_Inr)
  ultimately show ?thesis using assms(2) l1 by (simp add: server_wf_def)
qed

lemma IsValidPortNumber_value:
  assumes "IsValidPortNumber port" and "StrToUnsignedShort port = Some p"
  shows "p \<noteq> 0"
proof -
  have d: "port \<noteq> []" "\<forall>c\<in>set port. is_digit c" "length port \<le> 5" "0 < atoi port"
    using assms(1) by (simp_all add: IsValidPortNumber_def)
  have "dec_value port < 10 ^ length port" using d(2) by (rule dec_value_bound)
  also have "(10::nat) ^ length port \<le> 10 ^ 5" using d(3) by (intro power_increasing) auto
  finally have "dec_value port < 100000" by simp
  then have v: "0 < dec_value port" using d by (simp add: atoi_digits)
  have "p = word_of_nat (dec_value port)" and "dec_value port \<le> 65535"
    using assms(2) d by (auto simp: StrToUnsignedShort_def scan_int_digits split: if_splits)
  then have "unat p = dec_value port" by (simp add: unat_of_nat take_bit_nat_eq_self)
  with v show ?thesis by auto
qed

lemma ParseListen_wf:
  assumes "ParseListen c content = Inr (c', rest)" and "server_wf c"
  shows "server_wf c'"
proof -
  from assms(1) consider host port p where "IsValidHost host" "IsValidPortNumber port"
      "StrToUnsignedShort port = Some p" "SetListen host p c = Inr c'"
    | port p where "IsValidPortNumber port" "StrToUnsignedShort port = Some p" "SetPort p c = Inr c'"
    | host where "IsValidHost host" "SetHost host c = Inr c'"
    by (auto simp: ParseListen_def Let_def and_then_Inr_iff Optional_Value_def
        split: prod.splits if_splits option.splits)
  then show ?thesis
  proof cases
    case 1
    then show ?thesis using assms(2) IsValidPortNumber_value [OF 1(2,3)]
      by (auto simp: SetListen_def server_wf_def split: if_splits)
  next
    case 2
    then show ?thesis using assms(2) IsValidPortNumber_value [OF 2(1,2)]
      by (auto simp: SetPort_def server_wf_def split: if_splits)
  next
    case 3
    then show ?thesis using assms(2) by (auto simp: SetHost_def server_wf_def split: if_splits)
  qed
qed

lemma find_prefix: "str_find pat s = Some 0 \<longleftrightarrow> prefix pat s"
  by (simp add: str_find_Some_iff)

lemma ParseErrorPage_wf:
  assumes "ParseErrorPage c content = Inr (c', rest)" and "server_wf c"
  shows "server_wf c'"
proof -
  obtain token r where t: "Tokenize content = (token, r)" by (cases "Tokenize content")
  obtain path0 r1 where t1: "Tokenize r = (path0, r1)" by (cases "Tokenize r")
  let ?path = "if str_find ''https://'' path0 \<noteq> Some 0 \<and> str_find ''http://'' path0 \<noteq> Some 0 \<and>
      deref path0 \<noteq> CHR ''/'' then ''/'' @ path0 else path0"
  have "error_page_path ?path" by (auto simp: error_page_path_def find_prefix)
  moreover have "400 \<le> atoi token" "atoi token \<le> 599" "c' = SetErrorPage (Status (atoi token)) ?path c"
    using assms(1) t t1 unfolding ParseErrorPage_def Let_def by (auto simp: and_then_Inr_iff split: if_splits)
  ultimately obtain code path where code: "400 \<le> code" "code \<le> 599" and path: "error_page_path path"
      and c': "c' = SetErrorPage (Status code) path c" by blast
  have "(st, pa) \<in> set (map_put (Status code) path (sc_errors c)) \<Longrightarrow>
      400 \<le> status_code st \<and> status_code st \<le> 599 \<and> error_page_path pa" for st pa
    using assms(2) code path std_map.entries_put [of "sc_errors c" st pa "Status code" path]
    by (auto simp: server_wf_def)
  then show ?thesis using assms(2) by (auto simp: c' SetErrorPage_def server_wf_def)
qed

lemma server_directive_wf:
  assumes "server_directive getcwd token c content = Inr (c', rest)" and "server_wf c"
  shows "server_wf c'"
proof (cases "ToTokenType token")
  case kTokenServerName
  then have "ParseSimpleDirective SetServerName ''server_name value'' c content = Inr (c', rest)"
    using assms(1) by (simp add: server_directive_def ParseServerName_def)
  then obtain name where "SetServerName name c = Inr c'" by (rule simple_directive_Inr)
  then have "c' = c\<lparr>sc_server_name := name, sc_has_server_name := True\<rparr>"
    by (simp add: SetServerName_def split: if_splits)
  then show ?thesis using assms(2) by (simp add: server_wf_def)
next
  case kTokenMaxBody
  then obtain n where "0 \<le> n" "n \<le> 100000000" "SetMaxBodySize n c = Inr c'"
    using assms(1)
    by (auto simp: server_directive_def ParseMaxBody_def and_then_Inr_iff Let_def not_less
        split: prod.splits if_splits)
  then have "0 \<le> n" "n \<le> 100000000" "c' = c\<lparr>sc_max_body_size := n, sc_has_max_body := True\<rparr>"
    by (simp_all add: SetMaxBodySize_def split: if_splits)
  then show ?thesis using assms(2) by (simp add: server_wf_def)
next
  case kTokenListen
  then show ?thesis using assms ParseListen_wf by (simp add: server_directive_def)
next
  case kTokenErrorPage
  then show ?thesis using assms ParseErrorPage_wf by (simp add: server_directive_def)
next
  case kTokenLocation
  then show ?thesis using assms ParseLocation_wf by (simp add: server_directive_def)
qed (use assms(1) in \<open>simp_all add: server_directive_def\<close>)

lemma server_loop_wf:
  "server_loop getcwd c content = Inr (c', rest) \<Longrightarrow> server_wf c \<Longrightarrow> server_wf c'"
proof (induction getcwd c content rule: server_loop.induct)
  case (1 getcwd c content)
  obtain token r where t: "Tokenize content = (token, r)" by (cases "Tokenize content")
  show ?case
  proof (cases "token = ''}''")
    case True
    then show ?thesis using "1.prems" t by (subst (asm) server_loop.simps) simp
  next
    case False
    then obtain c1 r1 where d: "server_directive getcwd token c r = Inr (c1, r1)"
        and loop: "server_loop getcwd c1 r1 = Inr (c', rest)"
      using "1.prems"(1) t by (subst (asm) server_loop.simps) (auto simp: and_then_Inr_iff)
    have "server_wf c1" using server_directive_wf [OF d "1.prems"(2)] .
    with "1.IH" [OF t [symmetric] refl False d refl loop] show ?thesis .
  qed
qed

lemma ServerConfig_init_wf: "server_wf ServerConfig_init"
proof -
  have "IsValidHost ''0.0.0.0''" by code_simp
  then show ?thesis by (simp add: server_wf_def ServerConfig_init_def)
qed

lemma config_loop_wf:
  "config_loop getcwd cs content = Inr cs' \<Longrightarrow> \<forall>c\<in>set cs. server_wf c \<Longrightarrow> \<forall>c\<in>set cs'. server_wf c"
proof (induction getcwd cs content rule: config_loop.induct)
  case (1 getcwd cs content)
  obtain token r where t: "Tokenize content = (token, r)" by (cases "Tokenize content")
  show ?case
  proof (cases "token = ''server''")
    case True
    then obtain cs1 r1 where d: "ParseServer getcwd cs r = Inr (cs1, r1)"
        and loop: "config_loop getcwd cs1 r1 = Inr cs'"
      using "1.prems"(1) t by (subst (asm) config_loop.simps) (auto simp: and_then_Inr_iff)
    obtain c r2 r3 where "server_loop getcwd ServerConfig_init r2 = Inr (c, r3)" "cs1 = cs @ [c]"
      using d by (auto simp: ParseServer_def Let_def and_then_Inr_iff split: prod.splits if_splits)
    then have "\<forall>c\<in>set cs1. server_wf c"
      using server_loop_wf ServerConfig_init_wf "1.prems"(2) by auto
    moreover have "token \<noteq> []" using True by simp
    ultimately show ?thesis using "1.IH" [OF t [symmetric] refl _ True d refl loop] by blast
  next
    case False
    then have "cs' = cs" using "1.prems"(1) t by (subst (asm) config_loop.simps) (auto split: if_splits)
    then show ?thesis using "1.prems"(2) by simp
  qed
qed

subsection \<open>Only the tokens matter\<close>

function tokens_of :: "string \<Rightarrow> string list" where
  "tokens_of content =
     (let (token, rest) = Tokenize content in if token = [] then [] else token # tokens_of rest)"
  by pat_completeness auto
termination
proof (relation "measure length", goal_cases)
  case (2 content t token rest)
  then show ?case using Tokenize_shorter [of content token rest] by simp
qed simp

declare tokens_of.simps [simp del]

lemma Tokenize_same:
  assumes "tokens_of a = tokens_of b" and "Tokenize a = (t, r)"
  obtains r' where "Tokenize b = (t, r')" and "tokens_of r = tokens_of r'"
proof -
  obtain t' r' where b: "Tokenize b = (t', r')" by (cases "Tokenize b")
  have none: "Tokenize s = ([], u) \<Longrightarrow> u = []" for s u by (elim Tokenize_split) auto
  show thesis
  proof (cases "t = []")
    case True
    then have "tokens_of b = []" using assms by (simp add: tokens_of.simps [of a])
    then have "t' = []" using b by (simp add: tokens_of.simps [of b] split: if_splits)
    then show thesis using that [of r'] True b assms(2) none by auto
  next
    case False
    then have "tokens_of b = t # tokens_of r" using assms by (simp add: tokens_of.simps [of a])
    then have "t' = t" "tokens_of r' = tokens_of r"
      using b by (simp_all add: tokens_of.simps [of b] split: if_splits)
    then show thesis using that [of r'] b by simp
  qed
qed

text \<open>Two results that agree up to the layout of what is left.\<close>

definition same_rest :: "exn + 'a \<times> string \<Rightarrow> exn + 'a \<times> string \<Rightarrow> bool" where
  "same_rest m m' \<longleftrightarrow> map_sum id (map_prod id tokens_of) m = map_sum id (map_prod id tokens_of) m'"

lemma same_rest_simps [simp]:
  "same_rest (Inl e) (Inl e') \<longleftrightarrow> e = e'"
  "same_rest (Inr (x, r)) (Inr (x', r')) \<longleftrightarrow> x = x' \<and> tokens_of r = tokens_of r'"
  "\<not> same_rest (Inl e) (Inr y)" "\<not> same_rest (Inr y) (Inl e)"
  by (auto simp: same_rest_def)

lemma same_rest_bind:
  assumes "same_rest m m'"
    and "\<And>x r r'. m = Inr (x, r) \<Longrightarrow> m' = Inr (x, r') \<Longrightarrow> tokens_of r = tokens_of r' \<Longrightarrow> same_rest (f (x, r)) (g (x, r'))"
  shows "same_rest (and_then m f) (and_then m' g)"
  using assms by (cases m; cases m') (auto simp: same_rest_def)

lemma same_rest_pure:
  "(\<And>x. m = Inr x \<Longrightarrow> same_rest (f x) (g x)) \<Longrightarrow> same_rest (and_then m f) (and_then m g)"
  by (cases m) simp_all

lemma semicolon_same:
  assumes "tokens_of a = tokens_of b"
  shows "same_rest (and_then (ConsumeExpectedSemicolon name a) (\<lambda>r. Inr (x, r)))
    (and_then (ConsumeExpectedSemicolon name b) (\<lambda>r. Inr (x, r)))"
proof -
  obtain t r where a: "Tokenize a = (t, r)" by (cases "Tokenize a")
  obtain r' where "Tokenize b = (t, r')" "tokens_of r = tokens_of r'" by (rule Tokenize_same [OF assms a])
  then show ?thesis using a by (simp add: ConsumeExpectedSemicolon_def)
qed

lemmas same_rest_intros = same_rest_pure semicolon_same

lemma simple_directive_same:
  assumes "tokens_of a = tokens_of b"
  shows "same_rest (ParseSimpleDirective setter msg obj a) (ParseSimpleDirective setter msg obj b)"
proof -
  obtain t r where a: "Tokenize a = (t, r)" by (cases "Tokenize a")
  obtain r' where "Tokenize b = (t, r')" "tokens_of r = tokens_of r'" by (rule Tokenize_same [OF assms a])
  then show ?thesis using a by (simp add: ParseSimpleDirective_def same_rest_intros)
qed

lemma methods_loop_same:
  "tokens_of a = tokens_of b \<Longrightarrow>
     same_rest (map_sum id (\<lambda>(l, e, r). ((l, e), r)) (methods_loop l e a))
       (map_sum id (\<lambda>(l, e, r). ((l, e), r)) (methods_loop l e b))"
proof (induction l e a arbitrary: b rule: methods_loop.induct)
  case (1 l e a)
  obtain t r where a: "Tokenize a = (t, r)" by (cases "Tokenize a")
  obtain r' where b: "Tokenize b = (t, r')" and r: "tokens_of r = tokens_of r'"
    by (rule Tokenize_same [OF "1.prems" a])
  show ?case using "1.IH" [OF a [symmetric] refl] a b r
    by (simp add: methods_loop.simps [of l e a] methods_loop.simps [of l e b])
qed

lemma ParseMethods_same:
  assumes "tokens_of a = tokens_of b"
  shows "same_rest (ParseMethods l a) (ParseMethods l b)"
  using methods_loop_same [OF assms, of l True]
  by (cases "methods_loop l True a"; cases "methods_loop l True b") (auto simp: ParseMethods_def split: prod.splits)

lemma extensions_loop_same:
  "tokens_of a = tokens_of b \<Longrightarrow> fst (extensions_loop l t a) = fst (extensions_loop l t b) \<and>
     tokens_of (snd (extensions_loop l t a)) = tokens_of (snd (extensions_loop l t b))"
proof (induction l t a arbitrary: b rule: extensions_loop.induct)
  case (1 l t a)
  obtain t' r where a: "Tokenize a = (t', r)" by (cases "Tokenize a")
  obtain r' where b: "Tokenize b = (t', r')" and r: "tokens_of r = tokens_of r'"
    by (rule Tokenize_same [OF "1.prems" a])
  show ?case
  proof (cases "t \<noteq> [] \<and> t \<noteq> '';''")
    case True
    then show ?thesis using "1.IH" [OF True a [symmetric] refl r] a b
      by (simp add: extensions_loop.simps [of l t a] extensions_loop.simps [of l t b])
  next
    case False
    then show ?thesis using "1.prems"
      by (auto simp: extensions_loop.simps [of l t a] extensions_loop.simps [of l t b])
  qed
qed

lemma location_directive_same:
  assumes "tokens_of a = tokens_of b"
  shows "same_rest (location_directive getcwd token l a) (location_directive getcwd token l b)"
proof -
  obtain t r where a: "Tokenize a = (t, r)" by (cases "Tokenize a")
  obtain r' where b: "Tokenize b = (t, r')" and r: "tokens_of r = tokens_of r'" by (rule Tokenize_same [OF assms a])
  have ext: "same_rest (ParseCgiAllowedExtensions l a) (ParseCgiAllowedExtensions l b)"
    using a b extensions_loop_same [OF r, of l t] by (simp add: ParseCgiAllowedExtensions_def case_prod_beta)
  show ?thesis
    by (cases "ToTokenType token")
       (simp_all add: location_directive_def ParseMethods_same [OF assms] ParseRedirect_def ParseCgi_def
        simple_directive_same [OF assms] ext ParseRoot_def ParseAutoIndex_def ParseIndex_def ParseUploadPath_def
        a b same_rest_pure semicolon_same [OF r])
qed

lemma location_loop_same:
  "tokens_of a = tokens_of b \<Longrightarrow> same_rest (location_loop getcwd l a) (location_loop getcwd l b)"
proof (induction getcwd l a arbitrary: b rule: location_loop.induct)
  case (1 getcwd l a)
  obtain t r where a: "Tokenize a = (t, r)" by (cases "Tokenize a")
  obtain r' where b: "Tokenize b = (t, r')" and r: "tokens_of r = tokens_of r'" by (rule Tokenize_same [OF "1.prems" a])
  show ?case
  proof (cases "t = ''}''")
    case True
    then show ?thesis using a b r by (simp add: location_loop.simps [of getcwd l a] location_loop.simps [of getcwd l b])
  next
    case False
    have "same_rest (and_then (location_directive getcwd t l r) (\<lambda>(l1, r1). location_loop getcwd l1 r1))
        (and_then (location_directive getcwd t l r') (\<lambda>(l1, r1). location_loop getcwd l1 r1))"
      by (rule same_rest_bind [OF location_directive_same [OF r]])
         (use "1.IH" [OF a [symmetric] refl False _ refl] in simp)
    then show ?thesis using a b False
      by (simp add: location_loop.simps [of getcwd l a] location_loop.simps [of getcwd l b])
  qed
qed

lemma ParseLocation_same:
  assumes "tokens_of a = tokens_of b"
  shows "same_rest (ParseLocation getcwd c a) (ParseLocation getcwd c b)"
proof -
  obtain t r where a: "Tokenize a = (t, r)" by (cases "Tokenize a")
  obtain r' where b: "Tokenize b = (t, r')" and r: "tokens_of r = tokens_of r'" by (rule Tokenize_same [OF assms a])
  obtain u q where q: "Tokenize r = (u, q)" by (cases "Tokenize r")
  obtain q' where q': "Tokenize r' = (u, q')" and qq: "tokens_of q = tokens_of q'" by (rule Tokenize_same [OF r q])
  have "same_rest (and_then (location_loop getcwd l q) (\<lambda>(l1, r2). and_then (AddLocation l1 c) (\<lambda>c1. Inr (c1, r2))))
      (and_then (location_loop getcwd l q') (\<lambda>(l1, r2). and_then (AddLocation l1 c) (\<lambda>c1. Inr (c1, r2))))" for l
    by (rule same_rest_bind [OF location_loop_same [OF qq]]) (auto intro: same_rest_pure)
  then show ?thesis by (simp add: ParseLocation_def a b q q')
qed

lemma ParseListen_same:
  assumes "tokens_of a = tokens_of b"
  shows "same_rest (ParseListen c a) (ParseListen c b)"
proof -
  obtain t r where a: "Tokenize a = (t, r)" by (cases "Tokenize a")
  obtain r' where b: "Tokenize b = (t, r')" and r: "tokens_of r = tokens_of r'" by (rule Tokenize_same [OF assms a])
  obtain u q where q: "Tokenize r = (u, q)" by (cases "Tokenize r")
  obtain q' where q': "Tokenize r' = (u, q')" and qq: "tokens_of q = tokens_of q'" by (rule Tokenize_same [OF r q])
  show ?thesis
    by (cases "str_find '':'' t") (simp_all add: ParseListen_def a b q q' qq Let_def same_rest_pure)
qed

lemma ParseErrorPage_same:
  assumes "tokens_of a = tokens_of b"
  shows "same_rest (ParseErrorPage c a) (ParseErrorPage c b)"
proof -
  obtain t r where a: "Tokenize a = (t, r)" by (cases "Tokenize a")
  obtain r' where b: "Tokenize b = (t, r')" and r: "tokens_of r = tokens_of r'" by (rule Tokenize_same [OF assms a])
  obtain u q where q: "Tokenize r = (u, q)" by (cases "Tokenize r")
  obtain q' where q': "Tokenize r' = (u, q')" and qq: "tokens_of q = tokens_of q'" by (rule Tokenize_same [OF r q])
  show ?thesis by (simp add: ParseErrorPage_def a b q q' Let_def semicolon_same [OF qq])
qed

lemma server_directive_same:
  assumes "tokens_of a = tokens_of b"
  shows "same_rest (server_directive getcwd token c a) (server_directive getcwd token c b)"
proof -
  obtain t r where a: "Tokenize a = (t, r)" by (cases "Tokenize a")
  obtain r' where b: "Tokenize b = (t, r')" and r: "tokens_of r = tokens_of r'" by (rule Tokenize_same [OF assms a])
  have body: "same_rest (ParseMaxBody c a) (ParseMaxBody c b)"
    by (simp add: ParseMaxBody_def a b Let_def same_rest_pure semicolon_same [OF r])
  show ?thesis
    by (cases "ToTokenType token")
       (simp_all add: server_directive_def ParseServerName_def simple_directive_same [OF assms] body
        ParseListen_same [OF assms] ParseErrorPage_same [OF assms] ParseLocation_same [OF assms])
qed

lemma server_loop_same:
  "tokens_of a = tokens_of b \<Longrightarrow> same_rest (server_loop getcwd c a) (server_loop getcwd c b)"
proof (induction getcwd c a arbitrary: b rule: server_loop.induct)
  case (1 getcwd c a)
  obtain t r where a: "Tokenize a = (t, r)" by (cases "Tokenize a")
  obtain r' where b: "Tokenize b = (t, r')" and r: "tokens_of r = tokens_of r'" by (rule Tokenize_same [OF "1.prems" a])
  show ?case
  proof (cases "t = ''}''")
    case True
    then show ?thesis using a b r by (simp add: server_loop.simps [of getcwd c a] server_loop.simps [of getcwd c b])
  next
    case False
    have "same_rest (and_then (server_directive getcwd t c r) (\<lambda>(c1, r1). server_loop getcwd c1 r1))
        (and_then (server_directive getcwd t c r') (\<lambda>(c1, r1). server_loop getcwd c1 r1))"
      by (rule same_rest_bind [OF server_directive_same [OF r]])
         (use "1.IH" [OF a [symmetric] refl False _ refl] in simp)
    then show ?thesis using a b False
      by (simp add: server_loop.simps [of getcwd c a] server_loop.simps [of getcwd c b])
  qed
qed

lemma ParseServer_same:
  assumes "tokens_of a = tokens_of b"
  shows "same_rest (ParseServer getcwd cs a) (ParseServer getcwd cs b)"
proof -
  obtain t r where a: "Tokenize a = (t, r)" by (cases "Tokenize a")
  obtain r' where b: "Tokenize b = (t, r')" and r: "tokens_of r = tokens_of r'" by (rule Tokenize_same [OF assms a])
  have "same_rest (and_then (server_loop getcwd ServerConfig_init r) (\<lambda>(c, r1). Inr (cs @ [c], r1)))
      (and_then (server_loop getcwd ServerConfig_init r') (\<lambda>(c, r1). Inr (cs @ [c], r1)))"
    by (rule same_rest_bind [OF server_loop_same [OF r]]) simp
  then show ?thesis by (simp add: ParseServer_def a b)
qed

lemma config_loop_same:
  "tokens_of a = tokens_of b \<Longrightarrow> config_loop getcwd cs a = config_loop getcwd cs b"
proof (induction getcwd cs a arbitrary: b rule: config_loop.induct)
  case (1 getcwd cs a)
  obtain t r where a: "Tokenize a = (t, r)" by (cases "Tokenize a")
  obtain r' where b: "Tokenize b = (t, r')" and r: "tokens_of r = tokens_of r'" by (rule Tokenize_same [OF "1.prems" a])
  show ?case
  proof (cases "t = ''server''")
    case False
    then show ?thesis using a b by (simp add: config_loop.simps [of getcwd cs a] config_loop.simps [of getcwd cs b])
  next
    case True
    have "and_then (ParseServer getcwd cs r) (\<lambda>(cs1, r1). config_loop getcwd cs1 r1) =
        and_then (ParseServer getcwd cs r') (\<lambda>(cs1, r1). config_loop getcwd cs1 r1)"
    proof (cases "ParseServer getcwd cs r")
      case (Inl e)
      then show ?thesis using ParseServer_same [OF r, of getcwd cs] by (cases "ParseServer getcwd cs r'") auto
    next
      case (Inr x)
      obtain cs1 q where x: "x = (cs1, q)" by (cases x)
      then obtain q' where q': "ParseServer getcwd cs r' = Inr (cs1, q')" "tokens_of q = tokens_of q'"
        using ParseServer_same [OF r, of getcwd cs] Inr by (cases "ParseServer getcwd cs r'") auto
      have "t \<noteq> []" using True by simp
      from "1.IH" [OF a [symmetric] refl this True Inr [unfolded x] refl q'(2)] show ?thesis
        using Inr x q'(1) by simp
    qed
    then show ?thesis using a b True
      by (simp add: config_loop.simps [of getcwd cs a] config_loop.simps [of getcwd cs b])
  qed
qed

text \<open>The tokens read back.\<close>

definition token_ok :: "string \<Rightarrow> bool" where
  "token_ok t \<longleftrightarrow> (\<exists>c. t = [c] \<and> is_special c) \<or> t \<noteq> [] \<and> (\<forall>c\<in>set t. is_regular c)"

definition print_tokens :: "string list \<Rightarrow> string" where
  "print_tokens ts = concat (map (\<lambda>t. t @ '' '') ts)"

lemma Tokenize_token:
  assumes "token_ok t"
  shows "Tokenize (t @ '' '' @ rest) = (t, '' '' @ rest)"
proof -
  have sp: "\<not> is_regular SP" "is_config_space SP" by (simp_all add: is_regular_def is_config_space_def)
  from assms consider c where "t = [c]" "is_special c" | "t \<noteq> []" "\<forall>c\<in>set t. is_regular c"
    by (auto simp: token_ok_def)
  then show ?thesis
  proof cases
    case 1
    then have "\<not> is_config_space c" by (auto simp: is_special_def is_config_space_def)
    then show ?thesis using 1 by (simp add: Tokenize_def)
  next
    case 2
    then obtain c cs where t: "t = c # cs" by (cases t) auto
    then have c: "\<not> is_config_space c" "\<not> is_special c" "is_regular c" using 2 by (auto simp: is_regular_def)
    have "takeWhile is_regular (cs @ SP # rest) = cs" "dropWhile is_regular (cs @ SP # rest) = SP # rest"
      using 2 t sp by (simp_all add: takeWhile_append dropWhile_append)
    then show ?thesis using c t by (simp add: Tokenize_def)
  qed
qed

lemma Tokenize_skip: "is_config_space c \<Longrightarrow> Tokenize (c # s) = Tokenize s"
  by (simp add: Tokenize_def)

lemma tokens_of_skip: "is_config_space c \<Longrightarrow> tokens_of (c # s) = tokens_of s"
  by (simp add: tokens_of.simps [of "c # s"] tokens_of.simps [of s] Tokenize_skip)

lemma tokens_of_print: "\<forall>t\<in>set ts. token_ok t \<Longrightarrow> tokens_of (print_tokens ts) = ts"
proof (induction ts)
  case Nil
  then show ?case by (simp add: print_tokens_def tokens_of.simps Tokenize_def)
next
  case (Cons t ts)
  have "Tokenize (print_tokens (t # ts)) = (t, SP # print_tokens ts)"
    using Tokenize_token [of t "print_tokens ts"] Cons.prems by (simp add: print_tokens_def)
  moreover have "tokens_of (SP # print_tokens ts) = tokens_of (print_tokens ts)"
    by (rule tokens_of_skip) (simp add: is_config_space_def)
  moreover have "t \<noteq> []" using Cons.prems by (auto simp: token_ok_def)
  ultimately show ?case using Cons by (simp add: tokens_of.simps [of "print_tokens (t # ts)"])
qed

lemma tokens_of_ok: "\<forall>t\<in>set (tokens_of s). token_ok t"
proof (induction s rule: tokens_of.induct)
  case (1 s)
  obtain t r where s: "Tokenize s = (t, r)" by (cases "Tokenize s")
  show ?case
  proof (cases "t = []")
    case False
    then have "token_ok t" using s by (elim Tokenize_split) (auto simp: token_ok_def)
    then show ?thesis using "1.IH" [OF s [symmetric] refl False] s False by (simp add: tokens_of.simps [of s])
  qed (use s in \<open>simp add: tokens_of.simps [of s]\<close>)
qed

subsection \<open>Properties\<close>

text \<open>C20: Every server block of an accepted configuration is well-formed: the host is one of the
  accepted names and the port is not 0, the body limit lies between 0 and 100000000, error pages
  are bound to statuses from 400 to 599 and absolute paths or URLs, no two locations have the same
  name up to trailing slashes, and in each location the name is an absolute path without \<open>..\<close>
  and \<open>//\<close>, a configured root or upload path is absolute and printable, the index file is a
  plain file name, and the allowed methods are among GET, POST and DELETE and not empty when
  the directive is there.\<close>

theorem config_wf:
  assumes "ConfigParser_Parse getcwd content = Inr cs" and "c \<in> set cs"
  shows "server_wf c"
  using config_loop_wf [of getcwd "[]" content cs] assms by (simp add: ConfigParser_Parse_def)

abbreviation sample_text :: string where
  "sample_text \<equiv> ''server { location / { root /srv; } }''"

theorem config_wf_witness:
  "\<exists>cs. ConfigParser_Parse None sample_text = Inr cs \<and> length cs = 1 \<and> (\<forall>c\<in>set cs. server_wf c)"
proof -
  have "map_sum id length (ConfigParser_Parse None sample_text) = Inr 1" by code_simp
  then obtain cs where "ConfigParser_Parse None sample_text = Inr cs" "length cs = 1"
    by (cases "ConfigParser_Parse None sample_text") auto
  then show ?thesis using config_wf [of None sample_text cs] by blast
qed



end
