(* ===== verification/Stream_Parser.thy ===== *)
theory Stream_Parser
  imports String_Utils
begin

text \<open>
  \<open>lib::parser::StreamParser\<close>: the base class of the request parser and of the CGI response
  parser. Its fields are the record \<open>stream_state\<close>, which the derived classes extend; its
  pure virtual functions are the parameters of \<open>Parse\<close> and, with the contract the header
  file states for them, of the locale \<open>stream_parser\<close>. The loop of \<open>Parse\<close> may run
  forever when a derived class lets data after the end pass (\<open>OnExtraDataAfterDone\<close> returns),
  so it is a partial function: \<open>None\<close> is "does not return".

  \<open>ReadHeaderLine\<close> is characterised exactly: it accepts \<open>key: value\<close> and a line end, and
  nothing else, and its length account stays within the limit.
\<close>

datatype parser_state = kHeader | kBody | kDone

record stream_state =
  sp_buffer :: string
  sp_read_pos :: nat
  sp_state :: parser_state

subsection \<open>Lines\<close>

definition IsCRLF :: "string \<Rightarrow> bool" where
  "IsCRLF p \<longleftrightarrow> deref p = CR \<and> deref (tl p) = LF"

definition IsLF :: "string \<Rightarrow> bool" where
  "IsLF p \<longleftrightarrow> deref p = LF"

definition FindEndOfHeader :: "bool \<Rightarrow> string \<Rightarrow> nat option" where
  "FindEndOfHeader strict payload =
     (case str_find (CRLF @ CRLF) payload of
        Some pos \<Rightarrow> Some (pos + 4)
      | None \<Rightarrow>
          (if \<not> strict then
             (case str_find [LF, LF] payload of Some pos \<Rightarrow> Some (pos + 2) | None \<Rightarrow> None)
           else None))"

definition BumpLenOrThrow :: "nat \<Rightarrow> nat \<Rightarrow> nat \<Rightarrow> exn + nat" where
  "BumpLenOrThrow tot inc max_size =
     (if sz_sub max_size tot < inc then throw_status kRequestHeaderFieldsTooLarge
      else Inr (sz_add tot inc))"

text \<open>The two loops of \<open>ReadHeaderLine\<close>: the bytes read, the bytes left and the account.\<close>

fun read_key :: "nat \<Rightarrow> nat \<Rightarrow> string \<Rightarrow> string \<Rightarrow> exn + string \<times> string \<times> nat" where
  "read_key max_size tot key [] = Inr (key, [], tot)"
| "read_key max_size tot key (c # p) =
     (if c = NUL \<or> c = CHR '':'' then Inr (key, c # p, tot)
      else if \<not> IsValidHeaderChar c then throw_status kBadRequest
      else and_then (BumpLenOrThrow tot 1 max_size) (\<lambda>tot'.
             read_key max_size tot' (key @ [c]) p))"

fun read_value :: "nat \<Rightarrow> nat \<Rightarrow> string \<Rightarrow> string \<Rightarrow> exn + string \<times> string \<times> nat" where
  "read_value max_size tot val [] = Inr (val, [], tot)"
| "read_value max_size tot val (c # p) =
     (if c = NUL \<or> c = CR \<or> c = LF then Inr (val, c # p, tot)
      else if \<not> IsValidHeaderChar c then throw_status kBadRequest
      else and_then (BumpLenOrThrow tot 1 max_size) (\<lambda>tot'.
             read_value max_size tot' (val @ [c]) p))"

text \<open>The key, the value, the account and what follows the line.\<close>

definition ReadHeaderLine ::
  "bool \<Rightarrow> nat \<Rightarrow> nat \<Rightarrow> string \<Rightarrow> exn + string \<times> string \<times> nat \<times> string" where
  "ReadHeaderLine strict max_size total_len data =
     and_then (read_key max_size total_len [] data) (\<lambda>(key, p, total1).
       if deref p \<noteq> CHR '':'' \<or> deref (tl p) = NUL \<or> deref (tl p) \<noteq> SP
       then throw_status kBadRequest
       else and_then (BumpLenOrThrow total1 2 max_size) (\<lambda>total2.
         and_then (read_value max_size total2 [] (drop 2 p)) (\<lambda>(val, q, total3).
           if IsCRLF q then
             and_then (BumpLenOrThrow total3 2 max_size) (\<lambda>total4.
               Inr (key, val, total4, drop 2 q))
           else if \<not> strict \<and> IsLF q then
             and_then (BumpLenOrThrow total3 1 max_size) (\<lambda>total4.
               Inr (key, val, total4, drop 1 q))
           else throw_status kBadRequest)))"

subsection \<open>What a header line is\<close>

definition valid_key :: "string \<Rightarrow> bool" where
  "valid_key k \<longleftrightarrow> (\<forall>c\<in>set k. IsValidHeaderChar c \<and> c \<noteq> CHR '':'')"

definition valid_value :: "string \<Rightarrow> bool" where
  "valid_value v \<longleftrightarrow> (\<forall>c\<in>set v. IsValidHeaderChar c)"

definition line_end :: "bool \<Rightarrow> string \<Rightarrow> bool" where
  "line_end strict eol \<longleftrightarrow> eol = CRLF \<or> \<not> strict \<and> eol = [LF]"

lemma valid_key_simps [simp]:
  "valid_key []" "valid_key (c # k) \<longleftrightarrow> IsValidHeaderChar c \<and> c \<noteq> CHR '':'' \<and> valid_key k"
  by (auto simp: valid_key_def)

lemma valid_value_simps [simp]:
  "valid_value []" "valid_value (c # v) \<longleftrightarrow> IsValidHeaderChar c \<and> valid_value v"
  by (auto simp: valid_value_def)

lemma valid_no_break:
  "valid_value v \<Longrightarrow> CR \<notin> set v \<and> LF \<notin> set v"
  "valid_key k \<Longrightarrow> CR \<notin> set k \<and> LF \<notin> set k"
  unfolding valid_value_def valid_key_def using not_header_char by blast+

lemma BumpLenOrThrow_eq:
  "tot \<le> max_size \<Longrightarrow> max_size < 2 ^ 64 \<Longrightarrow> BumpLenOrThrow tot inc max_size =
     (if tot + inc \<le> max_size then Inr (tot + inc) else throw_status kRequestHeaderFieldsTooLarge)"
  by (auto simp: BumpLenOrThrow_def)

lemma read_key_Inr:
  assumes "tot \<le> max_size" and "max_size < 2 ^ 64"
  shows "read_key max_size tot key p = Inr (k, q, t) \<longleftrightarrow>
     (\<exists>u. p = u @ q \<and> k = key @ u \<and> valid_key u \<and> t = tot + length u \<and> t \<le> max_size \<and>
        (deref q = NUL \<or> deref q = CHR '':''))"
  using assms(1)
proof (induction p arbitrary: tot key)
  case (Cons c p)
  show ?case
  proof (cases "c = NUL \<or> c = CHR '':'' \<or> \<not> IsValidHeaderChar c")
    case True
    then show ?thesis using Cons.prems unfolding ex_Cons_append by auto
  next
    case False
    then have "read_key max_size tot key (c # p) = Inr (k, q, t) \<longleftrightarrow>
        tot + 1 \<le> max_size \<and> read_key max_size (tot + 1) (key @ [c]) p = Inr (k, q, t)"
      using Cons.prems assms(2) by (simp add: BumpLenOrThrow_eq)
    with Cons.IH [of "tot + 1" "key @ [c]"] False show ?thesis
      unfolding ex_Cons_append by auto
  qed
qed auto

lemma read_value_Inr:
  assumes "tot \<le> max_size" and "max_size < 2 ^ 64"
  shows "read_value max_size tot v0 p = Inr (v, q, t) \<longleftrightarrow>
     (\<exists>u. p = u @ q \<and> v = v0 @ u \<and> valid_value u \<and> t = tot + length u \<and> t \<le> max_size \<and>
        (deref q = NUL \<or> deref q = CR \<or> deref q = LF))"
  using assms(1)
proof (induction p arbitrary: tot v0)
  case (Cons c p)
  show ?case
  proof (cases "c = NUL \<or> c = CR \<or> c = LF \<or> \<not> IsValidHeaderChar c")
    case True
    then show ?thesis using Cons.prems unfolding ex_Cons_append by auto
  next
    case False
    then have "read_value max_size tot v0 (c # p) = Inr (v, q, t) \<longleftrightarrow>
        tot + 1 \<le> max_size \<and> read_value max_size (tot + 1) (v0 @ [c]) p = Inr (v, q, t)"
      using Cons.prems assms(2) by (simp add: BumpLenOrThrow_eq)
    with Cons.IH [of "tot + 1" "v0 @ [c]"] False show ?thesis
      unfolding ex_Cons_append by auto
  qed
qed auto

lemma deref_eq: "c \<noteq> NUL \<Longrightarrow> deref p = c \<longleftrightarrow> (\<exists>q. p = c # q)"
  by (cases p) auto

lemma IsCRLF_iff: "IsCRLF p \<longleftrightarrow> (\<exists>q. p = CR # LF # q)"
  by (auto simp: IsCRLF_def deref_eq)

lemma IsLF_iff: "IsLF p \<longleftrightarrow> (\<exists>q. p = LF # q)"
  by (simp add: IsLF_def deref_eq)

text \<open>
  Exactly the lines \<open>key: value\<close> with a proper line end, within the limit: what is read, and
  what is left.
\<close>

lemma ReadHeaderLine_Inr:
  assumes "tot \<le> max_size" and "max_size < 2 ^ 64"
  shows "ReadHeaderLine strict max_size tot data = Inr (k, v, t, rest) \<longleftrightarrow>
     (\<exists>eol. line_end strict eol \<and> data = k @ '': '' @ v @ eol @ rest \<and> valid_key k \<and> valid_value v \<and>
        t = tot + length k + length v + 2 + length eol \<and> t \<le> max_size)"
  (is "?l \<longleftrightarrow> ?r")
proof
  assume l: ?l
  then obtain p t1 where key: "read_key max_size tot [] data = Inr (k, p, t1)"
      and p: "deref p = CHR '':''" "deref (tl p) = SP"
      and l2: "and_then (BumpLenOrThrow t1 2 max_size) (\<lambda>t2.
         and_then (read_value max_size t2 [] (drop 2 p)) (\<lambda>(val, q, t3).
           if IsCRLF q then and_then (BumpLenOrThrow t3 2 max_size) (\<lambda>t4. Inr (k, val, t4, drop 2 q))
           else if \<not> strict \<and> IsLF q then
             and_then (BumpLenOrThrow t3 1 max_size) (\<lambda>t4. Inr (k, val, t4, drop 1 q))
           else throw_status kBadRequest)) = Inr (k, v, t, rest)"
    by (auto simp: ReadHeaderLine_def and_then_Inr_iff split: if_splits prod.splits)
  from key assms have d: "data = k @ p" "valid_key k" "t1 = tot + length k" "t1 \<le> max_size"
    by (auto simp: read_key_Inr)
  from p obtain p' where p': "p = CHR '':'' # SP # p'" by (auto simp: deref_eq)
  from l2 d assms obtain q t3 where t1: "t1 + 2 \<le> max_size"
      and val: "read_value max_size (t1 + 2) [] p' = Inr (v, q, t3)"
      and q: "(IsCRLF q \<and> t = t3 + 2 \<and> rest = drop 2 q \<or>
        \<not> IsCRLF q \<and> \<not> strict \<and> IsLF q \<and> t = t3 + 1 \<and> rest = drop 1 q) \<and> t \<le> max_size \<and> t3 \<le> max_size"
    by (auto simp: and_then_Inr_iff BumpLenOrThrow_eq p' read_value_Inr
        split: if_splits prod.splits)
  from val t1 assms have "p' = v @ q" "valid_value v" "t3 = t1 + 2 + length v"
    by (auto simp: read_value_Inr)
  with d p' have all: "data = k @ '': '' @ v @ q" "valid_key k" "valid_value v"
      "t3 = tot + length k + length v + 2" by simp_all
  from q show ?r
  proof (elim conjE disjE)
    assume "IsCRLF q" "rest = drop 2 q" "t = t3 + 2" "t \<le> max_size"
    with all show ?r by (intro exI [of _ CRLF]) (auto simp: IsCRLF_iff line_end_def)
  next
    assume "\<not> strict" "IsLF q" "rest = drop 1 q" "t = t3 + 1" "t \<le> max_size"
    with all show ?r by (intro exI [of _ "[LF]"]) (auto simp: IsLF_iff line_end_def)
  qed
next
  assume ?r
  then obtain eol where eol: "line_end strict eol" and d: "data = k @ '': '' @ v @ eol @ rest"
      and k: "valid_key k" and v: "valid_value v"
      and t: "t = tot + length k + length v + 2 + length eol" "t \<le> max_size" by blast
  have e: "eol = CRLF \<or> eol = [LF] \<and> \<not> strict" using eol by (auto simp: line_end_def)
  have "read_key max_size tot [] data = Inr (k, '': '' @ v @ eol @ rest, tot + length k)"
    using assms d k t by (subst read_key_Inr) auto
  moreover have "read_value max_size (tot + length k + 2) [] (v @ eol @ rest) =
      Inr (v, eol @ rest, tot + length k + 2 + length v)"
    using assms v t e by (subst read_value_Inr) auto
  ultimately show ?l
    using assms t e by (auto simp: ReadHeaderLine_def BumpLenOrThrow_eq IsCRLF_def IsLF_def)
qed

text \<open>Whatever the account says, a line that is read leaves less than there was.\<close>

lemma read_key_length: "read_key m t key p = Inr (k, q, t') \<Longrightarrow> length q \<le> length p"
proof (induction m t key p rule: read_key.induct)
  case (2 m t key c p)
  then show ?case by (fastforce simp: and_then_Inr_iff split: if_splits)
qed auto

lemma read_value_length: "read_value m t v0 p = Inr (v, q, t') \<Longrightarrow> length q \<le> length p"
proof (induction m t v0 p rule: read_value.induct)
  case (2 m t v0 c p)
  then show ?case by (fastforce simp: and_then_Inr_iff split: if_splits)
qed auto

lemma ReadHeaderLine_shorter:
  assumes "ReadHeaderLine strict max_size tot data = Inr (k, v, t, rest)"
  shows "length rest < length data"
proof -
  obtain p t1 t2 q t3 where "read_key max_size tot [] data = Inr (k, p, t1)"
      and p: "deref p = CHR '':''"
      and "read_value max_size t2 [] (drop 2 p) = Inr (v, q, t3)"
      and rest: "rest = drop 2 q \<or> rest = drop 1 q"
    using assms
    by (auto simp: ReadHeaderLine_def and_then_Inr_iff split: if_splits prod.splits)
  then have "length p \<le> length data" "length q \<le> length (drop 2 p)"
    by (blast dest: read_key_length read_value_length)+
  moreover have "p \<noteq> []" using p by (auto simp: deref_def)
  ultimately show ?thesis using rest by (cases p) auto
qed

subsection \<open>Blocks of lines\<close>

definition lines_text :: "string list \<Rightarrow> string" where
  "lines_text ls = concat (map (\<lambda>l. l @ CRLF) ls)"

lemma lines_text_simps [simp]:
  "lines_text [] = []" "lines_text (l # ls) = l @ CRLF @ lines_text ls"
  "lines_text (ls @ ls') = lines_text ls @ lines_text ls'"
  by (simp_all add: lines_text_def)

lemma find_blank_skip:
  "CR \<notin> set l \<Longrightarrow> deref rest \<noteq> CR \<Longrightarrow>
     str_find (CRLF @ CRLF) (l @ CRLF @ rest) =
       map_option (\<lambda>i. length l + 2 + i) (str_find (CRLF @ CRLF) rest)"
proof (induction l)
  case Nil
  then show ?case by (cases rest) (auto simp: option.map_comp o_def)
next
  case (Cons c l)
  then show ?case by (auto simp: option.map_comp o_def)
qed

lemma find_blank_here: "CR \<notin> set l \<Longrightarrow> str_find (CRLF @ CRLF) (l @ CRLF @ CRLF @ rest) = Some (length l)"
  by (induction l) auto

text \<open>In lines without line breaks, the first blank line is where the lines end.\<close>

lemma find_blank_lines:
  "ls \<noteq> [] \<Longrightarrow> \<forall>l\<in>set ls. l \<noteq> [] \<and> CR \<notin> set l \<Longrightarrow>
     str_find (CRLF @ CRLF) (lines_text ls @ CRLF @ rest) = Some (length (lines_text ls) - 2)"
proof (induction ls)
  case (Cons l ls)
  show ?case
  proof (cases ls)
    case Nil
    with Cons.prems show ?thesis using find_blank_here [of l rest] by simp
  next
    case (Cons l' ls')
    have "deref (lines_text ls @ CRLF @ rest) \<noteq> CR"
      using Cons.prems Cons by (cases l') auto
    then have "str_find (CRLF @ CRLF) (l @ CRLF @ lines_text ls @ CRLF @ rest) =
        map_option (\<lambda>i. length l + 2 + i) (Some (length (lines_text ls) - 2))"
      using find_blank_skip [of l "lines_text ls @ CRLF @ rest"] Cons.IH Cons.prems Cons by simp
    then show ?thesis using Cons by simp
  qed
qed simp

lemma FindEndOfHeader_lines:
  assumes "ls \<noteq> []" and "\<forall>l\<in>set ls. l \<noteq> [] \<and> CR \<notin> set l"
  shows "FindEndOfHeader strict (lines_text ls @ CRLF @ rest) = Some (length (lines_text ls) + 2)"
proof -
  have "2 \<le> length (lines_text ls)" using assms(1) by (cases ls) auto
  then show ?thesis
    using find_blank_lines [OF assms, of rest] by (simp add: FindEndOfHeader_def)
qed

text \<open>Once the strict end of the header has been seen, more data does not move it.\<close>

lemma FindEndOfHeader_append:
  "FindEndOfHeader True payload = Some e \<Longrightarrow> FindEndOfHeader True (payload @ ext) = Some e"
  by (auto simp: FindEndOfHeader_def simp del: append.simps
      dest: str_find_append [of _ _ _ ext] split: option.splits)

lemma FindEndOfHeader_le: "FindEndOfHeader strict payload = Some e \<Longrightarrow> e \<le> length payload"
  by (auto simp: FindEndOfHeader_def split: option.splits if_splits dest!: str_find_Some_le)

subsection \<open>The driver loop\<close>

text \<open>
  \<open>Parse\<close> after the data has been appended. \<open>advance_header\<close> and \<open>advance_body\<close> return
  their \<open>bool\<close> and the object; the two hooks may throw.
\<close>

partial_function (option) parse_loop ::
  "('a stream_state_scheme \<Rightarrow> exn + bool \<times> 'a stream_state_scheme) \<Rightarrow>
   ('a stream_state_scheme \<Rightarrow> exn + bool \<times> 'a stream_state_scheme) \<Rightarrow>
   ('a stream_state_scheme \<Rightarrow> exn + 'a stream_state_scheme) \<Rightarrow>
   ('a stream_state_scheme \<Rightarrow> exn + 'a stream_state_scheme) \<Rightarrow>
   'a stream_state_scheme \<Rightarrow> (exn + 'a stream_state_scheme) option" where
  "parse_loop advance_header advance_body on_error on_extra s =
     (case sp_state s of
        kHeader \<Rightarrow>
          (case advance_header s of
             Inl e \<Rightarrow> Some (Inl e)
           | Inr (ok, s1) \<Rightarrow>
               (if \<not> ok then Some (Inr s1)
                else if sp_state s1 \<noteq> kBody then
                  (case on_error s1 of
                     Inl e \<Rightarrow> Some (Inl e)
                   | Inr s2 \<Rightarrow> parse_loop advance_header advance_body on_error on_extra s2)
                else parse_loop advance_header advance_body on_error on_extra s1))
      | kBody \<Rightarrow>
          (case advance_body s of
             Inl e \<Rightarrow> Some (Inl e)
           | Inr (ok, s1) \<Rightarrow>
               (if \<not> ok then Some (Inr s1)
                else if sp_state s1 \<noteq> kDone then Some (on_error s1)
                else Some (Inr s1)))
      | kDone \<Rightarrow>
          (case on_extra s of
             Inl e \<Rightarrow> Some (Inl e)
           | Inr s1 \<Rightarrow> parse_loop advance_header advance_body on_error on_extra s1))"

definition append_data :: "string \<Rightarrow> 'a stream_state_scheme \<Rightarrow> 'a stream_state_scheme" where
  "append_data data s = s\<lparr>sp_buffer := sp_buffer s @ data\<rparr>"

definition Parse where
  "Parse advance_header advance_body on_error on_extra s data =
     parse_loop advance_header advance_body on_error on_extra (append_data data s)"

lemma append_data_append [simp]:
  "append_data b (append_data a s) = append_data (a @ b) s"
  by (simp add: append_data_def)

lemma append_data_Nil [simp]: "append_data [] s = s"
  by (simp add: append_data_def)

lemma append_data_sel [simp]:
  "sp_state (append_data d s) = sp_state s"
  "sp_read_pos (append_data d s) = sp_read_pos s"
  "sp_buffer (append_data d s) = sp_buffer s @ d"
  by (simp_all add: append_data_def)

lemma map_sum_snd_Inr: "map_sum id snd m = Inr y \<longleftrightarrow> (\<exists>ok. m = Inr (ok, y))"
  by (cases m) force+

subsection \<open>The contract of the virtual functions\<close>

text \<open>
  What the header file asks of \<open>AdvanceHeader\<close> and \<open>AdvanceBody\<close>: to report success only
  with the next state reached, and else to stay where they are. Under it \<open>Parse\<close> returns
  whenever the parser is not already done, and the hook for an inconsistent state never runs.
\<close>

locale stream_parser =
  fixes advance_header advance_body ::
      "'a stream_state_scheme \<Rightarrow> exn + bool \<times> 'a stream_state_scheme"
    and on_error on_extra :: "'a stream_state_scheme \<Rightarrow> exn + 'a stream_state_scheme"
  assumes header_done: "sp_state s = kHeader \<Longrightarrow> advance_header s = Inr (True, s') \<Longrightarrow> sp_state s' = kBody"
    and header_wait: "sp_state s = kHeader \<Longrightarrow> advance_header s = Inr (False, s') \<Longrightarrow> s' = s"
    and body_done: "sp_state s = kBody \<Longrightarrow> advance_body s = Inr (True, s') \<Longrightarrow> sp_state s' = kDone"
    and body_wait: "sp_state s = kBody \<Longrightarrow> advance_body s = Inr (False, s') \<Longrightarrow> sp_state s' = kBody"
begin

abbreviation run where "run \<equiv> parse_loop advance_header advance_body on_error on_extra"

lemma run_body: "sp_state s = kBody \<Longrightarrow> run s = Some (map_sum id snd (advance_body s))"
  using body_done [of s]
  by (subst parse_loop.simps) (auto split: sum.splits)

lemma run_header: "sp_state s = kHeader \<Longrightarrow> run s =
    (case advance_header s of
       Inl e \<Rightarrow> Some (Inl e)
     | Inr (ok, s1) \<Rightarrow> if ok then Some (map_sum id snd (advance_body s1)) else Some (Inr s))"
proof -
  assume s: "sp_state s = kHeader"
  show ?thesis
  proof (cases "advance_header s")
    case (Inl e)
    then show ?thesis by (subst parse_loop.simps) (simp add: s)
  next
    case (Inr r)
    obtain ok s1 where r: "r = (ok, s1)" by (cases r)
    show ?thesis
    proof (cases ok)
      case True
      then have "sp_state s1 = kBody" using header_done [OF s] Inr r by simp
      with Inr r True s show ?thesis
        by (subst parse_loop.simps) (simp add: run_body)
    next
      case False
      then have "s1 = s" using header_wait [OF s] Inr r by simp
      with Inr r False s show ?thesis by (subst parse_loop.simps) simp
    qed
  qed
qed

lemma run_returns: "sp_state s \<noteq> kDone \<Longrightarrow> \<exists>r. run s = Some r"
  by (cases "sp_state s") (auto simp: run_body run_header split: sum.split)

text \<open>A run that stays in the header has changed nothing.\<close>

lemma run_body_state:
  assumes "sp_state s = kBody" and "run s = Some (Inr s')"
  shows "sp_state s' \<noteq> kHeader"
proof -
  have "map_sum id snd (advance_body s) = Inr s'"
    using assms(2) by (simp only: run_body [OF assms(1)] option.inject)
  then obtain r where "advance_body s = Inr r" and "snd r = s'"
    by (cases "advance_body s") simp_all
  then have "advance_body s = Inr (fst r, s')" by (metis prod.collapse)
  then show ?thesis
    using body_done [OF assms(1), of s'] body_wait [OF assms(1), of s'] by (cases "fst r") simp_all
qed

lemma run_waiting:
  assumes "run s = Some (Inr s')" and "sp_state s = kHeader" and "sp_state s' = kHeader"
  shows "s' = s"
proof (cases "advance_header s")
  case (Inr r)
  obtain ok s1 where r: "r = (ok, s1)" by (cases r)
  show ?thesis
  proof (cases ok)
    case True
    then have "sp_state s1 = kBody" using header_done [OF assms(2)] Inr r by simp
    moreover from this have "run s1 = Some (Inr s')"
      using assms Inr r True by (simp add: run_header run_body)
    ultimately show ?thesis using run_body_state assms(3) by blast
  qed (use assms Inr r in \<open>simp add: run_header\<close>)
qed (use assms in \<open>simp add: run_header\<close>)

end

text \<open>
  A parser that also keeps its progress: a finished header does not change when more data
  follows, and an unfinished body continues where it was. Then the cuts between the pieces of
  the input do not matter. \<open>invar\<close> is what the derived class keeps of its own fields.
\<close>

locale incremental_parser = stream_parser advance_header advance_body on_error on_extra
  for advance_header advance_body :: "'a stream_state_scheme \<Rightarrow> exn + bool \<times> 'a stream_state_scheme"
    and on_error on_extra :: "'a stream_state_scheme \<Rightarrow> exn + 'a stream_state_scheme" +
  fixes invar :: "'a stream_state_scheme \<Rightarrow> bool"
  assumes header_resume: "invar s \<Longrightarrow> sp_state s = kHeader \<Longrightarrow> advance_header s = Inr (True, s') \<Longrightarrow>
        advance_header (append_data d s) = Inr (True, append_data d s')"
    and body_resume: "invar s \<Longrightarrow> sp_state s = kBody \<Longrightarrow> advance_body s = Inr (False, s') \<Longrightarrow>
        advance_body (append_data d s) = advance_body (append_data d s')"
    and append_invar: "invar s \<Longrightarrow> sp_state s \<noteq> kDone \<Longrightarrow> invar (append_data d s)"
    and header_invar: "invar s \<Longrightarrow> sp_state s = kHeader \<Longrightarrow> advance_header s = Inr (True, s') \<Longrightarrow> invar s'"
    and extra_throws: "\<exists>e. on_extra s = Inl e"
    and body_invar: "invar s \<Longrightarrow> sp_state s = kBody \<Longrightarrow> advance_body s = Inr (ok, s') \<Longrightarrow> invar s'"
begin

lemma run_body_resume:
  assumes "invar s" and "sp_state s = kBody" and "run s = Some (Inr s')" and "sp_state s' \<noteq> kDone"
  shows "run (append_data d s) = run (append_data d s')"
proof -
  have "map_sum id snd (advance_body s) = Inr s'"
    using assms(3) by (simp only: run_body [OF assms(2)] option.inject)
  then obtain ok where ok: "advance_body s = Inr (ok, s')" unfolding map_sum_snd_Inr by blast
  then have "\<not> ok" using body_done [OF assms(2), of s'] assms(4) by (cases ok) simp_all
  with ok have f: "advance_body s = Inr (False, s')" by simp
  then have "sp_state s' = kBody" using body_wait assms(2) by blast
  with assms(2) body_resume [OF assms(1,2) f, of d] show ?thesis by (simp add: run_body)
qed

lemma run_resume:
  assumes "invar s" and "run s = Some (Inr s')" and "sp_state s \<noteq> kDone" and "sp_state s' \<noteq> kDone"
  shows "run (append_data d s) = run (append_data d s')"
proof (cases "sp_state s")
  case kHeader
  then show ?thesis
  proof (cases "advance_header s")
    case (Inr x)
    obtain ok s1 where x: "x = (ok, s1)" by (cases x)
    show ?thesis
    proof (cases ok)
      case True
      then have h: "advance_header s = Inr (True, s1)" using Inr x by simp
      then have s1: "sp_state s1 = kBody" using header_done kHeader by blast
      have "run s1 = Some (Inr s')" using assms(2) h s1 kHeader by (simp add: run_header run_body)
      then have "run (append_data d s1) = run (append_data d s')"
        using run_body_resume header_invar [OF assms(1) kHeader h] s1 assms(4) by blast
      moreover have "run (append_data d s) = run (append_data d s1)"
        using header_resume [OF assms(1) kHeader h, of d] kHeader s1 by (simp add: run_header run_body)
      ultimately show ?thesis by simp
    next
      case False
      then have "s' = s" using assms(2) Inr x kHeader by (simp add: run_header)
      then show ?thesis by simp
    qed
  qed (use assms kHeader in \<open>simp add: run_header\<close>)
qed (use assms run_body_resume in auto)

lemma run_invar:
  assumes "invar s" and "run s = Some (Inr s')" and "sp_state s \<noteq> kDone"
  shows "invar s'"
proof -
  have body: "invar t'" if "invar t" "sp_state t = kBody" "map_sum id snd (advance_body t) = Inr t'" for t t'
  proof -
    from that(3) obtain ok where "advance_body t = Inr (ok, t')" unfolding map_sum_snd_Inr by blast
    then show "invar t'" using body_invar that by blast
  qed
  show ?thesis
  proof (cases "sp_state s")
    case kHeader
    then show ?thesis
    proof (cases "advance_header s")
      case (Inr x)
      obtain ok s1 where x: "x = (ok, s1)" by (cases x)
      show ?thesis
      proof (cases ok)
        case True
        then have "invar s1" "sp_state s1 = kBody"
          using Inr x header_invar [OF assms(1) kHeader] header_done [OF kHeader] by auto
        moreover have "map_sum id snd (advance_body s1) = Inr s'"
          using assms(2) Inr x True kHeader by (simp add: run_header)
        ultimately show ?thesis using body by blast
      qed (use assms kHeader Inr x in \<open>simp add: run_header\<close>)
    qed (use assms kHeader in \<open>simp add: run_header\<close>)
  next
    case kBody
    then have "map_sum id snd (advance_body s) = Inr s'"
      using assms(2) by (simp only: run_body [OF kBody] option.inject)
    then show ?thesis using body kBody assms(1) by blast
  qed (use assms in simp)
qed

end

text \<open>The pieces of the input, one call of \<open>Parse\<close> each; the first error stops.\<close>

fun feed ::
  "('s \<Rightarrow> string \<Rightarrow> (exn + 's) option) \<Rightarrow> 's \<Rightarrow> string list \<Rightarrow> (exn + 's) option" where
  "feed parse s [] = Some (Inr s)"
| "feed parse s (p # ps) =
     (case parse s p of
        Some (Inr s1) \<Rightarrow> feed parse s1 ps
      | other \<Rightarrow> other)"

context incremental_parser
begin

lemma parse_resume:
  assumes "invar s" and "sp_state s \<noteq> kDone"
    and "Parse advance_header advance_body on_error on_extra s a = Some (Inr s1)" and "sp_state s1 \<noteq> kDone"
  shows "Parse advance_header advance_body on_error on_extra s (a @ b) =
    Parse advance_header advance_body on_error on_extra s1 b"
  using run_resume [of "append_data a s" s1 b] assms append_invar by (simp add: Parse_def)

lemma parse_invar:
  assumes "invar s" and "sp_state s \<noteq> kDone"
    and "Parse advance_header advance_body on_error on_extra s a = Some (Inr s1)"
  shows "invar s1"
  using run_invar [of "append_data a s" s1] append_invar [of s a] assms by (simp add: Parse_def)

lemma parse_done:
  "sp_state s = kDone \<Longrightarrow> \<exists>e. Parse advance_header advance_body on_error on_extra s a = Some (Inl e)"
  using extra_throws [of "append_data a s"]
  by (auto simp: Parse_def parse_loop.simps [of _ _ _ _ "append_data a s"])

text \<open>However the input is cut, the last piece sees what one call would have seen.\<close>

lemma feed_parse:
  assumes "invar s" and "feed (Parse advance_header advance_body on_error on_extra) s ps = Some (Inr s1)"
    and "sp_state s1 \<noteq> kDone"
  shows "Parse advance_header advance_body on_error on_extra s (concat ps @ d) =
    Parse advance_header advance_body on_error on_extra s1 d"
  using assms
proof (induction ps arbitrary: s)
  case (Cons p ps)
  let ?P = "Parse advance_header advance_body on_error on_extra"
  from Cons.prems(2) obtain s2 where s2: "?P s p = Some (Inr s2)" "feed ?P s2 ps = Some (Inr s1)"
    by (auto split: option.splits sum.splits)
  have s: "sp_state s \<noteq> kDone" using parse_done [of s p] s2(1) by auto
  have "sp_state s2 \<noteq> kDone"
  proof (cases ps)
    case (Cons q qs)
    then show ?thesis using parse_done [of s2 q] s2(2) by auto
  qed (use s2(2) Cons.prems(3) in simp)
  moreover have "invar s2" using parse_invar [OF Cons.prems(1) s s2(1)] .
  ultimately show ?case
    using Cons.IH [of s2] parse_resume [OF Cons.prems(1) s s2(1), of "concat ps @ d"] s2(2) Cons.prems(3)
    by simp
qed simp

end

subsection \<open>Properties\<close>

text \<open>C37: The header lines that are read, exactly: a name without colon, a colon, one blank, a value, all
  of printable bytes, and a line end (a bare line feed only where the parser is lenient); the
  account grows by the length of the line and stays within the limit, and what follows is left.\<close>

theorem header_line_language:
  assumes "tot \<le> max_size" and "max_size < 2 ^ 64"
  shows "ReadHeaderLine strict max_size tot data = Inr (k, v, t, rest) \<longleftrightarrow>
     (\<exists>eol. line_end strict eol \<and> data = k @ '': '' @ v @ eol @ rest \<and> valid_key k \<and> valid_value v \<and>
        t = tot + length k + length v + 2 + length eol \<and> t \<le> max_size)"
  by (rule ReadHeaderLine_Inr [OF assms])

theorem header_line_language_witness:
  "ReadHeaderLine True 100 0 (''a: b'' @ CRLF @ ''c'') = Inr (''a'', ''b'', 6, ''c'')"
proof -
  have "line_end True CRLF" "valid_key ''a''" "valid_value ''b''"
    by (simp_all add: line_end_def IsValidHeaderChar_def char_le_iff)
  then show ?thesis
    using header_line_language [of 0 100 True "''a: b'' @ CRLF @ ''c''" "''a''" "''b''" 6 "''c''"] by auto
qed

end
