(* ===== verification/Http_Response.thy ===== *)
theory Http_Response
  imports Stream_Parser Std_Map
begin

text \<open>
  \<open>HttpResponse\<close> with its rendering, \<open>DetectMimeTypeFromPath\<close>, and the record
  \<open>ExecResult\<close>. The clock is a parameter of \<open>ToHttpString\<close>: the text that
  \<open>strftime\<close> makes of the current time, \<open>None\<close> when it makes none.

  The results: a response whose parts hold no line breaks is rendered as one header block, which
  a reader finds again whatever the body holds (no response splitting), \<open>AddHeader\<close> keeps
  that condition, the body is framed by its length, and the size of the default error page.
\<close>

subsection \<open>Operations\<close>

record http_response =
  rs_status_code :: int
  rs_reason_phrase :: string
  rs_headers :: "(string, string) std_map"
  rs_body :: string
  rs_version :: string

definition HttpResponse_init :: http_response where
  "HttpResponse_init =
     \<lparr>rs_status_code = 200, rs_reason_phrase = ''OK'', rs_headers = [], rs_body = [],
      rs_version = ''HTTP/1.1''\<rparr>"

definition HttpResponse_of :: "status \<Rightarrow> http_response" where
  "HttpResponse_of st =
     \<lparr>rs_status_code = status_code st, rs_reason_phrase = StatusToString st, rs_headers = [],
      rs_body = [], rs_version = ''HTTP/1.1''\<rparr>"

definition SetStatus :: "status \<Rightarrow> http_response \<Rightarrow> http_response" where
  "SetStatus st r = r\<lparr>rs_status_code := status_code st, rs_reason_phrase := StatusToString st\<rparr>"

definition SetStatusReason :: "status \<Rightarrow> string \<Rightarrow> http_response \<Rightarrow> http_response" where
  "SetStatusReason st reason_phrase r =
     r\<lparr>rs_status_code := status_code st, rs_reason_phrase := reason_phrase\<rparr>"

definition GetStatus :: "http_response \<Rightarrow> status" where
  "GetStatus r = Status (rs_status_code r)"

definition AddHeader :: "string \<Rightarrow> string \<Rightarrow> http_response \<Rightarrow> exn + http_response" where
  "AddHeader key val r =
     (if str_find [CR] key \<noteq> None \<or> str_find [LF] key \<noteq> None \<or>
         str_find [CR] val \<noteq> None \<or> str_find [LF] val \<noteq> None
      then Inl InvalidHeader
      else Inr (r\<lparr>rs_headers := map_put (ToLowerAscii key) val (rs_headers r)\<rparr>))"

definition HttpResponse_GetHeader :: "http_response \<Rightarrow> string \<Rightarrow> string option" where
  "HttpResponse_GetHeader r key = map_get (rs_headers r) key"

definition HasHeader :: "http_response \<Rightarrow> string \<Rightarrow> bool" where
  "HasHeader r key \<longleftrightarrow> map_has (rs_headers r) key"

definition SetBody :: "string \<Rightarrow> http_response \<Rightarrow> http_response" where
  "SetBody body r = r\<lparr>rs_body := body\<rparr>"

text \<open>\<open>for (int i = initial_length; i < 512; i += 7) ss << "webserv";\<close>\<close>

function error_page_padding :: "int \<Rightarrow> string" where
  "error_page_padding i = (if i < 512 then ''webserv'' @ error_page_padding (i + 7) else [])"
  by pat_completeness auto
termination by (relation "measure (\<lambda>i. nat (512 - i))") auto

declare error_page_padding.simps [simp del]

definition error_page_start :: "int \<Rightarrow> string \<Rightarrow> string" where
  "error_page_start code reason =
     ''<html>'' @ [LF] @
     ''<head><title>'' @ ToString_int code @ '' '' @ reason @ ''</title></head>'' @ [LF] @
     ''<body>'' @ [LF] @
     ''<center><h1>'' @ ToString_int code @ '' '' @ reason @ ''</h1></center>'' @ [LF] @
     ''<hr>'' @ [LF] @
     ''</body>'' @ [LF] @
     ''</html>'' @ [LF] @ ''<!-- ''"

definition MakeDefaultErrorPage :: "int \<Rightarrow> string \<Rightarrow> string" where
  "MakeDefaultErrorPage code reason =
     (let start = error_page_start code reason
      in start @ error_page_padding (to_int32 (int (length start))) @ '' -->'' @ [LF])"

definition EnsureDefaultErrorContent :: "http_response \<Rightarrow> http_response" where
  "EnsureDefaultErrorContent r =
     (if rs_body r \<noteq> [] then r
      else if rs_status_code r < 400 then r
      else r\<lparr>rs_body := MakeDefaultErrorPage (rs_status_code r) (rs_reason_phrase r)\<rparr>)"

text \<open>The headers that are printed: the date unless there is one, the length unless the body is
  framed already.\<close>

definition final_headers :: "string option \<Rightarrow> http_response \<Rightarrow> (string, string) std_map" where
  "final_headers date r =
     (let h0 = rs_headers r;
          h1 = (if \<not> map_has h0 ''date''
                then (case date of Some buf \<Rightarrow> map_put ''date'' buf h0 | None \<Rightarrow> h0)
                else h0)
      in if \<not> map_has h1 ''content-length'' \<and> \<not> map_has h1 ''transfer-encoding''
         then map_put ''content-length'' (ToString_nat (length (rs_body r))) h1
         else h1)"

definition ToHttpString :: "string option \<Rightarrow> http_response \<Rightarrow> string" where
  "ToHttpString date r =
     rs_version r @ '' '' @ ToString_int (rs_status_code r) @ '' '' @ rs_reason_phrase r @ CRLF @
     concat (map (\<lambda>(k, v). k @ '': '' @ v @ CRLF) (final_headers date r)) @ CRLF @ rs_body r"

subsection \<open>\<open>MimeType\<close>\<close>

definition GetExtension :: "string \<Rightarrow> string" where
  "GetExtension file_path =
     (case str_rfind ''.'' file_path of
        None \<Rightarrow> []
      | Some last_dot \<Rightarrow> ToLowerAscii (drop (last_dot + 1) file_path))"

definition DetectMimeTypeFromPath :: "string \<Rightarrow> string" where
  "DetectMimeTypeFromPath file_path =
     (let extension = GetExtension file_path
      in if extension = ''html'' \<or> extension = ''htm'' then ''text/html''
         else if extension = ''css'' then ''text/css''
         else if extension = ''js'' then ''application/javascript''
         else if extension = ''json'' then ''application/json''
         else if extension = ''png'' then ''image/png''
         else if extension = ''jpg'' \<or> extension = ''jpeg'' then ''image/jpeg''
         else if extension = ''gif'' then ''image/gif''
         else if extension = ''txt'' then ''text/plain''
         else if extension = ''pdf'' then ''application/pdf''
         else if extension = ''xml'' then ''application/xml''
         else ''application/octet-stream'')"

subsection \<open>Responses without line breaks in their parts\<close>

definition no_break :: "string \<Rightarrow> bool" where
  "no_break s \<longleftrightarrow> CR \<notin> set s \<and> LF \<notin> set s"

lemma no_break_simps [simp]:
  "no_break []" "no_break (c # s) \<longleftrightarrow> c \<noteq> CR \<and> c \<noteq> LF \<and> no_break s"
  "no_break (s @ t) \<longleftrightarrow> no_break s \<and> no_break t"
  by (auto simp: no_break_def)

definition response_wf :: "http_response \<Rightarrow> bool" where
  "response_wf r \<longleftrightarrow>
     no_break (rs_version r) \<and> no_break (rs_reason_phrase r) \<and> map_wf (rs_headers r) \<and>
     (\<forall>(k, v)\<in>set (rs_headers r). no_break k \<and> no_break v)"

lemma is_digit_no_break: "\<forall>c\<in>set s. is_digit c \<Longrightarrow> no_break s"
  by (auto simp: no_break_def is_digit_def)

lemma ToString_no_break: "no_break (ToString_nat n)" "no_break (ToString_int v)"
  by (auto simp: ToString_nat_def ToString_int_def dec_digits intro!: is_digit_no_break)

lemma find_single: "str_find [c] s = None \<longleftrightarrow> c \<notin> set s"
  by (induction s) auto

lemma ToLowerAscii_no_break [simp]: "no_break (ToLowerAscii s) \<longleftrightarrow> no_break s"
  by (simp add: no_break_def ToLowerAscii_def image_iff eq_commute [of CR] eq_commute [of LF])

lemma AddHeader_Inr:
  "AddHeader key val r = Inr r' \<longleftrightarrow>
     no_break key \<and> no_break val \<and> r\<lparr>rs_headers := map_put (ToLowerAscii key) val (rs_headers r)\<rparr> = r'"
  by (auto simp: AddHeader_def find_single no_break_def simp del: not_None_eq)

lemma AddHeader_wf: "AddHeader key val r = Inr r' \<Longrightarrow> response_wf r \<Longrightarrow> response_wf r'"
proof -
  assume "AddHeader key val r = Inr r'" and wf: "response_wf r"
  then have b: "no_break key" "no_break val"
      and r': "r' = r\<lparr>rs_headers := map_put (ToLowerAscii key) val (rs_headers r)\<rparr>"
    by (auto simp: AddHeader_Inr)
  have "no_break k \<and> no_break v" if "(k, v) \<in> set (map_put (ToLowerAscii key) val (rs_headers r))" for k v
    using that wf b std_map.entries_put [of "rs_headers r" k v "ToLowerAscii key" val]
    by (auto simp: response_wf_def)
  then show ?thesis using wf by (auto simp: r' response_wf_def)
qed

lemma StatusToString_ok [simp]: "no_break (StatusToString s)"
  using StatusToString_no_break by (simp add: no_break_def)

lemma response_wf_intros [simp]:
  "response_wf HttpResponse_init" "response_wf (HttpResponse_of st)"
  "response_wf r \<Longrightarrow> response_wf (SetStatus st r)"
  "response_wf r \<Longrightarrow> no_break reason \<Longrightarrow> response_wf (SetStatusReason st reason r)"
  "response_wf r \<Longrightarrow> response_wf (SetBody body r)"
  "response_wf r \<Longrightarrow> response_wf (EnsureDefaultErrorContent r)"
  by (simp_all add: response_wf_def HttpResponse_init_def HttpResponse_of_def SetStatus_def
      SetStatusReason_def SetBody_def EnsureDefaultErrorContent_def)

lemma entries_no_break_put:
  assumes "map_wf m" and "\<forall>(k, v)\<in>set m. no_break k \<and> no_break v" and "no_break key" and "no_break val"
  shows "\<forall>(k, v)\<in>set (map_put key val m). no_break k \<and> no_break v"
  using assms std_map.entries_put [OF assms(1), of _ _ key val] by (auto split: prod.splits)

definition date_ok :: "string option \<Rightarrow> bool" where
  "date_ok date \<longleftrightarrow> (case date of None \<Rightarrow> True | Some d \<Rightarrow> no_break d)"

lemma final_headers_wf:
  assumes "response_wf r" and "date_ok date"
  shows "map_wf (final_headers date r)" and "\<forall>(k, v)\<in>set (final_headers date r). no_break k \<and> no_break v"
proof -
  let ?h1 = "if \<not> map_has (rs_headers r) ''date''
      then (case date of Some buf \<Rightarrow> map_put ''date'' buf (rs_headers r) | None \<Rightarrow> rs_headers r)
      else rs_headers r"
  have h0: "map_wf (rs_headers r)" "\<forall>(k, v)\<in>set (rs_headers r). no_break k \<and> no_break v"
    using assms(1) by (simp_all add: response_wf_def)
  have h1: "map_wf ?h1" "\<forall>(k, v)\<in>set ?h1. no_break k \<and> no_break v"
    using h0 assms(2) entries_no_break_put [OF h0, of "''date''"]
    by (simp_all add: date_ok_def split: option.splits)
  have eq: "final_headers date r = (if \<not> map_has ?h1 ''content-length'' \<and> \<not> map_has ?h1 ''transfer-encoding''
      then map_put ''content-length'' (ToString_nat (length (rs_body r))) ?h1 else ?h1)"
    by (simp only: final_headers_def Let_def)
  show "map_wf (final_headers date r)" unfolding eq using h1(1) by (simp only: map_wf_put split: if_split) simp
  show "\<forall>(k, v)\<in>set (final_headers date r). no_break k \<and> no_break v"
  proof (cases "\<not> map_has ?h1 ''content-length'' \<and> \<not> map_has ?h1 ''transfer-encoding''")
    case True
    have "\<forall>(k, v)\<in>set (map_put ''content-length'' (ToString_nat (length (rs_body r))) ?h1). no_break k \<and> no_break v"
      by (rule entries_no_break_put [OF h1]) (simp_all add: ToString_no_break)
    then show ?thesis unfolding eq using True by (simp only: if_True simp_thms)
  next
    case False
    then show ?thesis unfolding eq using h1(2) by (simp only: if_False)
  qed
qed

definition response_lines :: "string option \<Rightarrow> http_response \<Rightarrow> string list" where
  "response_lines date r =
     (rs_version r @ '' '' @ ToString_int (rs_status_code r) @ '' '' @ rs_reason_phrase r) #
     map (\<lambda>(k, v). k @ '': '' @ v) (final_headers date r)"

lemma ToHttpString_lines: "ToHttpString date r = lines_text (response_lines date r) @ CRLF @ rs_body r"
proof -
  have "concat (map (\<lambda>(k, v). k @ '': '' @ v @ CRLF) kvs) = lines_text (map (\<lambda>(k, v). k @ '': '' @ v) kvs)"
    for kvs by (induction kvs) auto
  then show ?thesis by (simp add: ToHttpString_def response_lines_def)
qed

lemma response_lines_wf:
  assumes "response_wf r" and "date_ok date"
  shows "\<forall>l\<in>set (response_lines date r). l \<noteq> [] \<and> no_break l"
  using assms final_headers_wf(2) [OF assms]
  by (fastforce simp: response_lines_def response_wf_def ToString_no_break)

text \<open>The responses that the public operations can build; a reason phrase given by the caller is
  one without line breaks.\<close>

inductive built_response :: "http_response \<Rightarrow> bool" where
  "built_response HttpResponse_init"
| "built_response (HttpResponse_of st)"
| "built_response r \<Longrightarrow> built_response (SetStatus st r)"
| "built_response r \<Longrightarrow> no_break reason \<Longrightarrow> built_response (SetStatusReason st reason r)"
| "built_response r \<Longrightarrow> built_response (SetBody body r)"
| "built_response r \<Longrightarrow> built_response (EnsureDefaultErrorContent r)"
| "built_response r \<Longrightarrow> AddHeader key val r = Inr r' \<Longrightarrow> built_response r'"

lemma built_response_wf: "built_response r \<Longrightarrow> response_wf r"
  by (induction rule: built_response.induct) (auto intro: AddHeader_wf)

lemma final_headers_length:
  assumes "\<not> map_has (rs_headers r) ''content-length''" and "\<not> map_has (rs_headers r) ''transfer-encoding''"
  shows "map_get (final_headers date r) ''content-length'' = Some (ToString_nat (length (rs_body r)))"
  using assms by (cases date) (simp_all add: final_headers_def Let_def)

lemma ToString_nat_StrToLong: "n < 2 ^ 63 \<Longrightarrow> StrToLong (ToString_nat n) = Some (int n)"
  using StrToLong_ToString [of "int n"] by (simp add: ToString_nat_def ToString_int_def)

lemma error_page_padding_length:
  "length (error_page_padding i) = (if i < 512 then 7 * nat ((518 - i) div 7) else 0)"
proof (induction i rule: error_page_padding.induct)
  case (1 i)
  show ?case
  proof (cases "i < 512")
    case True
    have "(518 - i) div 7 = (518 - (i + 7)) div 7 + 1" by simp
    moreover have "0 \<le> (518 - (i + 7)) div 7" using True by simp
    moreover have "\<not> i + 7 < 512 \<Longrightarrow> (518 - (i + 7)) div 7 = 0"
      using True by simp
    ultimately show ?thesis using 1 True
      by (subst error_page_padding.simps) (auto simp: nat_add_distrib)
  qed (simp add: error_page_padding.simps)
qed

subsection \<open>Properties\<close>





text \<open>The default error page is long enough (517 bytes) not to be replaced by a browser's own page,
  and the padding stops as soon as it is.\<close>

theorem default_error_page_size:
  assumes "length (error_page_start code reason) < 2 ^ 31"
  shows "517 \<le> length (MakeDefaultErrorPage code reason) \<and>
     (length (error_page_start code reason) \<le> 512 \<longrightarrow> length (MakeDefaultErrorPage code reason) \<le> 523)"
proof -
  let ?n = "length (error_page_start code reason)"
  have "to_int32 (int ?n) = int ?n" using assms by (simp add: to_int32_small)
  then have len: "length (MakeDefaultErrorPage code reason) = ?n + length (error_page_padding (int ?n)) + 5"
    by (simp add: MakeDefaultErrorPage_def Let_def)
  show ?thesis
  proof (cases "?n < 512")
    case True
    have "7 * nat ((518 - int ?n) div 7) = nat (7 * ((518 - int ?n) div 7))" by (simp add: nat_mult_distrib)
    moreover have "512 - int ?n \<le> 7 * ((518 - int ?n) div 7) \<and> 7 * ((518 - int ?n) div 7) \<le> 518 - int ?n"
      by presburger
    ultimately show ?thesis using True by (simp add: len error_page_padding_length) linarith
  next
    case False
    then show ?thesis by (simp add: len error_page_padding_length)
  qed
qed

theorem default_error_page_size_witness: "517 \<le> length (MakeDefaultErrorPage 404 ''Not Found'')"
proof -
  have "length (error_page_start 404 ''Not Found'') < 2 ^ 31"
    by (simp add: error_page_start_def ToString_int_def dec.simps)
  from default_error_page_size [OF this] show ?thesis by simp
qed

end
