(* ===== verification/Cgi_Response_Parser.thy ===== *)
theory Cgi_Response_Parser
  imports Http_Response
begin

text \<open>
  \<open>cgi::CgiResponseParser\<close>: the second implementation of the stream parser, which turns the
  output of a CGI program into a response, and \<open>ParseCgiResponse\<close>, which runs it once.

  A status outside the named ones is the integer that the 32-bit underlying type of the
  enumeration holds after the cast from \<open>long\<close>.

  The results: \<open>ParseCgiResponse\<close> always returns, although \<open>OnExtraDataAfterDone\<close> returns
  (a second \<open>Parse\<close> of a finished parser would not); a response it gives has a content type
  and is one the public interface of \<open>HttpResponse\<close> builds, so a CGI program cannot split
  the response of the server; and output in the proper form comes through with its body intact.
\<close>

subsection \<open>Operations\<close>

record cgi_parser = stream_state +
  cg_res :: http_response

definition cgi_kMaxHeaderSize :: nat where "cgi_kMaxHeaderSize = 8192"

definition CgiResponseParser_init :: cgi_parser where
  "CgiResponseParser_init =
     \<lparr>sp_buffer = [], sp_read_pos = 0, sp_state = kHeader, cg_res = HttpResponse_of kOk\<rparr>"

definition cgi_IsStrictCrlf :: bool where
  "cgi_IsStrictCrlf = False"

text \<open>The two parts of a \<open>Status\<close> value: up to the first blank, and after it.\<close>

definition cgi_status_parts :: "string \<Rightarrow> string \<times> string" where
  "cgi_status_parts val =
     (case str_find '' '' val of
        Some space_pos \<Rightarrow> (substr val 0 space_pos, drop (space_pos + 1) val)
      | None \<Rightarrow> (val, []))"

definition cgi_StoreHeader :: "string \<Rightarrow> string \<Rightarrow> http_response \<Rightarrow> exn + http_response" where
  "cgi_StoreHeader key val res =
     (if key = ''Status'' then
        (let (status_str, reason_phrase) = cgi_status_parts val
         in case StrToLong status_str of
              Some code \<Rightarrow>
                (let st = Status (to_int32 code)
                 in Inr (if reason_phrase = [] then SetStatus st res else SetStatusReason st reason_phrase res))
            | None \<Rightarrow> throw_status kBadGateway)
      else if key = ''Location'' then
        AddHeader key val (if GetStatus res = kOk then SetStatus kFound res else res)
      else AddHeader key val res)"

text \<open>The loop over the header lines; it stops at the end of the buffer or at an empty line.\<close>

function cgi_header_lines :: "http_response \<Rightarrow> nat \<Rightarrow> string \<Rightarrow> exn + http_response" where
  "cgi_header_lines res total_len req =
     (if deref req = NUL then Inr res
      else if IsCRLF req then Inr res
      else if \<not> cgi_IsStrictCrlf \<and> IsLF req then Inr res
      else and_then (ReadHeaderLine cgi_IsStrictCrlf cgi_kMaxHeaderSize total_len req)
        (\<lambda>(key, val, total', rest).
           and_then (cgi_StoreHeader key val res) (\<lambda>res1. cgi_header_lines res1 total' rest)))"
  by pat_completeness auto
termination
  by (relation "measure (\<lambda>(_, _, req). length req)") (auto dest: ReadHeaderLine_shorter)

declare cgi_header_lines.simps [simp del]

definition cgi_AdvanceHeader :: "cgi_parser \<Rightarrow> exn + bool \<times> cgi_parser" where
  "cgi_AdvanceHeader p =
     (case FindEndOfHeader cgi_IsStrictCrlf (sp_buffer p) of
        None \<Rightarrow> Inr (False, p)
      | Some end_of_header \<Rightarrow>
          and_then (cgi_header_lines (cg_res p) 0 (sp_buffer p)) (\<lambda>res.
            Inr (True, p\<lparr>cg_res := res, sp_buffer := drop end_of_header (sp_buffer p), sp_state := kBody\<rparr>)))"

definition cgi_AdvanceBody :: "cgi_parser \<Rightarrow> exn + bool \<times> cgi_parser" where
  "cgi_AdvanceBody p =
     Inr (True, p\<lparr>cg_res := SetBody (sp_buffer p) (cg_res p), sp_buffer := [], sp_state := kDone\<rparr>)"

definition cgi_OnInternalStateError :: "cgi_parser \<Rightarrow> exn + cgi_parser" where
  "cgi_OnInternalStateError p = throw_status kBadGateway"

definition cgi_OnExtraDataAfterDone :: "cgi_parser \<Rightarrow> exn + cgi_parser" where
  "cgi_OnExtraDataAfterDone p = Inr p"

definition CgiResponseParser_Parse :: "cgi_parser \<Rightarrow> string \<Rightarrow> (exn + cgi_parser) option" where
  "CgiResponseParser_Parse =
     Parse cgi_AdvanceHeader cgi_AdvanceBody cgi_OnInternalStateError cgi_OnExtraDataAfterDone"

definition ParseCgiResponse :: "string \<Rightarrow> (exn + http_response) option" where
  "ParseCgiResponse cgi_output =
     map_option (\<lambda>r. and_then r (\<lambda>p.
         if \<not> HasHeader (cg_res p) ''content-type'' then throw_status kBadGateway else Inr (cg_res p)))
       (CgiResponseParser_Parse CgiResponseParser_init cgi_output)"

subsection \<open>The contract of the stream parser\<close>

interpretation cgi_parser: stream_parser cgi_AdvanceHeader cgi_AdvanceBody cgi_OnInternalStateError
    cgi_OnExtraDataAfterDone
  by unfold_locales
     (auto simp: cgi_AdvanceHeader_def cgi_AdvanceBody_def and_then_Inr_iff split: option.splits)

text \<open>One run, as a function of the output.\<close>

definition cgi_response :: "string \<Rightarrow> exn + http_response" where
  "cgi_response out =
     (case FindEndOfHeader False out of
        None \<Rightarrow> throw_status kBadGateway
      | Some e \<Rightarrow>
          and_then (cgi_header_lines (HttpResponse_of kOk) 0 out) (\<lambda>res.
            if \<not> HasHeader res ''content-type'' then throw_status kBadGateway
            else Inr (SetBody (drop e out) res)))"

lemma HasHeader_simps [simp]:
  "HasHeader (SetBody b r) k = HasHeader r k" "\<not> HasHeader (HttpResponse_of st) k"
  by (simp_all add: HasHeader_def SetBody_def HttpResponse_of_def)

lemma ParseCgiResponse_eq: "ParseCgiResponse out = Some (cgi_response out)"
proof -
  let ?s = "append_data out CgiResponseParser_init"
  have s: "sp_state ?s = kHeader" "sp_buffer ?s = out" "cg_res ?s = HttpResponse_of kOk"
    by (simp_all add: CgiResponseParser_init_def append_data_def)
  have run: "CgiResponseParser_Parse CgiResponseParser_init out =
    (case cgi_AdvanceHeader ?s of
       Inl e \<Rightarrow> Some (Inl e)
     | Inr (ok, s1) \<Rightarrow> if ok then Some (map_sum id snd (cgi_AdvanceBody s1)) else Some (Inr ?s))"
    unfolding CgiResponseParser_Parse_def Parse_def by (rule cgi_parser.run_header [OF s(1)])
  show ?thesis
  proof (cases "FindEndOfHeader False out")
    case None
    then show ?thesis using run s
      by (simp add: ParseCgiResponse_def cgi_response_def cgi_AdvanceHeader_def cgi_IsStrictCrlf_def)
  next
    case (Some e)
    then show ?thesis using run s
      by (cases "cgi_header_lines (HttpResponse_of kOk) 0 out")
         (simp_all add: ParseCgiResponse_def cgi_response_def cgi_AdvanceHeader_def cgi_AdvanceBody_def
          cgi_IsStrictCrlf_def)
  qed
qed

subsection \<open>What the header lines build\<close>

lemma valid_no_break': "valid_value v \<Longrightarrow> no_break v" "valid_key k \<Longrightarrow> no_break k"
  using valid_no_break by (simp_all add: no_break_def)

lemma cgi_max_small: "cgi_kMaxHeaderSize < 2 ^ 64"
  by (simp add: cgi_kMaxHeaderSize_def)

lemma cgi_status_reason: "no_break val \<Longrightarrow> no_break (snd (cgi_status_parts val))"
  by (auto simp: cgi_status_parts_def no_break_def dest: in_set_dropD split: option.splits)

lemma cgi_StoreHeader_built:
  assumes "built_response res" and "valid_key k" and "valid_value v" and "cgi_StoreHeader k v res = Inr res'"
  shows "built_response res'"
proof -
  have b: "no_break (snd (cgi_status_parts v))" using assms(3) by (intro cgi_status_reason valid_no_break')
  from assms(4) consider st where "res' = SetStatus st res"
    | st where "res' = SetStatusReason st (snd (cgi_status_parts v)) res"
    | "AddHeader k v (SetStatus kFound res) = Inr res'" | "AddHeader k v res = Inr res'"
    by (auto simp: cgi_StoreHeader_def Let_def split: if_splits prod.splits option.splits)
  then show ?thesis
    by cases (blast intro: built_response.intros assms(1) b)+
qed

lemma cgi_StoreHeader_error:
  assumes "valid_key k" and "valid_value v" and "cgi_StoreHeader k v res = Inl e"
  shows "e = ResponseStatusException kBadGateway"
proof -
  have "AddHeader k v r \<noteq> Inl x" for r x
    using valid_no_break'(1) [OF assms(2)] valid_no_break'(2) [OF assms(1)]
    by (cases "AddHeader k v r") (auto simp: AddHeader_def find_single no_break_def split: if_splits)
  then show ?thesis using assms(3)
    by (auto simp: cgi_StoreHeader_def Let_def split: if_splits prod.splits option.splits)
qed

lemma ReadHeaderLine_cgi:
  assumes "t \<le> cgi_kMaxHeaderSize" and "ReadHeaderLine cgi_IsStrictCrlf cgi_kMaxHeaderSize t req = Inr (k, v, t', rest)"
  shows "valid_key k" and "valid_value v" and "t' \<le> cgi_kMaxHeaderSize"
  using assms(2) unfolding ReadHeaderLine_Inr [OF assms(1) cgi_max_small] by blast+

lemma cgi_header_lines_built:
  "cgi_header_lines res t req = Inr res' \<Longrightarrow> t \<le> cgi_kMaxHeaderSize \<Longrightarrow> built_response res \<Longrightarrow> built_response res'"
proof (induction res t req rule: cgi_header_lines.induct)
  case (1 res t req)
  show ?case
  proof (cases "deref req = NUL \<or> IsCRLF req \<or> \<not> cgi_IsStrictCrlf \<and> IsLF req")
    case True
    then have "res' = res" using "1.prems"(1) by (subst (asm) cgi_header_lines.simps) (auto split: if_splits)
    then show ?thesis using "1.prems"(3) by simp
  next
    case False
    then obtain k v t1 rest res1 where
        line: "ReadHeaderLine cgi_IsStrictCrlf cgi_kMaxHeaderSize t req = Inr (k, v, t1, rest)"
        and store: "cgi_StoreHeader k v res = Inr res1" and next1: "cgi_header_lines res1 t1 rest = Inr res'"
      using "1.prems"(1) by (subst (asm) cgi_header_lines.simps) (auto simp: and_then_Inr_iff)
    note l = ReadHeaderLine_cgi [OF "1.prems"(2) line]
    have "built_response res1" using cgi_StoreHeader_built [OF "1.prems"(3) l(1,2) store] .
    with "1.IH" [OF _ _ _ line refl refl refl store next1 l(3)] False show ?thesis by blast
  qed
qed

definition cgi_statuses :: "status set" where
  "cgi_statuses = {kBadRequest, kRequestHeaderFieldsTooLarge, kBadGateway}"

lemma ReadHeaderLine_cgi_error:
  assumes "ReadHeaderLine strict m t req = Inl e"
  shows "e = ResponseStatusException kBadRequest \<or> e = ResponseStatusException kRequestHeaderFieldsTooLarge"
proof -
  have bump: "BumpLenOrThrow t n m = Inl e \<Longrightarrow> e = ResponseStatusException kRequestHeaderFieldsTooLarge" for t n m e
    by (auto simp: BumpLenOrThrow_def split: if_splits)
  have key: "read_key m t k p = Inl e \<Longrightarrow>
      e = ResponseStatusException kBadRequest \<or> e = ResponseStatusException kRequestHeaderFieldsTooLarge" for m t k p e
    by (induction m t k p rule: read_key.induct) (auto simp: and_then_Inl_iff dest: bump split: if_splits)
  have val: "read_value m t k p = Inl e \<Longrightarrow>
      e = ResponseStatusException kBadRequest \<or> e = ResponseStatusException kRequestHeaderFieldsTooLarge" for m t k p e
    by (induction m t k p rule: read_value.induct) (auto simp: and_then_Inl_iff dest: bump split: if_splits)
  show ?thesis using assms
    by (auto simp: ReadHeaderLine_def and_then_Inl_iff dest: key val bump split: if_splits)
qed

lemma cgi_header_lines_error:
  "cgi_header_lines res t req = Inl e \<Longrightarrow> t \<le> cgi_kMaxHeaderSize \<Longrightarrow>
     \<exists>s\<in>cgi_statuses. e = ResponseStatusException s"
proof (induction res t req rule: cgi_header_lines.induct)
  case (1 res t req)
  have False: "\<not> deref req = NUL" "\<not> IsCRLF req" "\<not> (\<not> cgi_IsStrictCrlf \<and> IsLF req)"
    using "1.prems"(1) by (subst (asm) cgi_header_lines.simps, auto split: if_splits)+
  then have step: "and_then (ReadHeaderLine cgi_IsStrictCrlf cgi_kMaxHeaderSize t req)
      (\<lambda>(key, val, total', rest). and_then (cgi_StoreHeader key val res) (\<lambda>res1. cgi_header_lines res1 total' rest)) = Inl e"
    using "1.prems"(1) by (subst (asm) cgi_header_lines.simps) auto
  show ?case
  proof (cases "ReadHeaderLine cgi_IsStrictCrlf cgi_kMaxHeaderSize t req")
    case (Inl e')
    then show ?thesis using step ReadHeaderLine_cgi_error [OF Inl] by (auto simp: cgi_statuses_def)
  next
    case (Inr x)
    obtain k v t1 rest where "x = (k, v, t1, rest)" by (cases x)
    with Inr have line: "ReadHeaderLine cgi_IsStrictCrlf cgi_kMaxHeaderSize t req = Inr (k, v, t1, rest)" by simp
    note l = ReadHeaderLine_cgi [OF "1.prems"(2) line]
    show ?thesis
    proof (cases "cgi_StoreHeader k v res")
      case (Inl e')
      then show ?thesis using step line cgi_StoreHeader_error [OF l(1,2) Inl] by (auto simp: cgi_statuses_def)
    next
      case (Inr res1)
      then have "cgi_header_lines res1 t1 rest = Inl e" using step line by simp
      with "1.IH" [OF False line refl refl refl Inr _ l(3)] show ?thesis by blast
    qed
  qed
qed

text \<open>Output in the proper form: header lines with one of the two line ends.\<close>

definition cgi_lines :: "string \<Rightarrow> (string \<times> string) list \<Rightarrow> string" where
  "cgi_lines eol kvs = concat (map (\<lambda>(k, v). k @ '': '' @ v @ eol) kvs)"

fun cgi_store_all :: "http_response \<Rightarrow> (string \<times> string) list \<Rightarrow> exn + http_response" where
  "cgi_store_all res [] = Inr res"
| "cgi_store_all res (kv # kvs) = and_then (cgi_StoreHeader (fst kv) (snd kv) res) (\<lambda>res1. cgi_store_all res1 kvs)"

definition cgi_field :: "string \<times> string \<Rightarrow> bool" where
  "cgi_field kv \<longleftrightarrow> valid_key (fst kv) \<and> valid_value (snd kv)"

lemma cgi_lines_simps [simp]:
  "cgi_lines eol [] = []"
  "cgi_lines eol (kv # kvs) = fst kv @ '': '' @ snd kv @ eol @ cgi_lines eol kvs"
  by (simp_all add: cgi_lines_def case_prod_beta)

lemma cgi_field_start: "cgi_field kv \<Longrightarrow> deref (fst kv @ '': '' @ s) \<noteq> NUL \<and>
    \<not> IsCRLF (fst kv @ '': '' @ s) \<and> \<not> IsLF (fst kv @ '': '' @ s)"
  using not_header_char
  by (cases "fst kv") (auto simp: cgi_field_def IsCRLF_def IsLF_def)

lemma cgi_header_lines_accepts:
  assumes "eol = CRLF \<or> eol = [LF]"
  shows "\<forall>kv\<in>set kvs. cgi_field kv \<Longrightarrow> t + length (cgi_lines eol kvs) \<le> cgi_kMaxHeaderSize \<Longrightarrow>
     cgi_header_lines res t (cgi_lines eol kvs @ eol @ rest) = cgi_store_all res kvs"
proof (induction kvs arbitrary: res t)
  case Nil
  then show ?case using assms by (subst cgi_header_lines.simps) (auto simp: IsCRLF_def IsLF_def cgi_IsStrictCrlf_def)
next
  case (Cons kv kvs)
  let ?req = "cgi_lines eol (kv # kvs) @ eol @ rest"
  let ?t1 = "t + length (fst kv) + length (snd kv) + 2 + length eol"
  have f: "cgi_field kv" using Cons.prems(1) by simp
  have t: "t \<le> cgi_kMaxHeaderSize" using Cons.prems(2) by simp
  have line: "ReadHeaderLine cgi_IsStrictCrlf cgi_kMaxHeaderSize t ?req =
      Inr (fst kv, snd kv, ?t1, cgi_lines eol kvs @ eol @ rest)"
    unfolding ReadHeaderLine_Inr [OF t cgi_max_small]
    using f assms Cons.prems(2) by (intro exI [of _ eol]) (auto simp: line_end_def cgi_IsStrictCrlf_def cgi_field_def)
  have "?t1 + length (cgi_lines eol kvs) \<le> cgi_kMaxHeaderSize" using Cons.prems(2) by simp
  then have IH: "cgi_header_lines r ?t1 (cgi_lines eol kvs @ eol @ rest) = cgi_store_all r kvs" for r
    using Cons.IH Cons.prems(1) by simp
  have "deref ?req \<noteq> NUL \<and> \<not> IsCRLF ?req \<and> \<not> IsLF ?req"
    using cgi_field_start [OF f, of "snd kv @ eol @ cgi_lines eol kvs @ eol @ rest"] by simp
  then have "cgi_header_lines res t ?req =
      and_then (ReadHeaderLine cgi_IsStrictCrlf cgi_kMaxHeaderSize t ?req) (\<lambda>(key, val, total', rest).
        and_then (cgi_StoreHeader key val res) (\<lambda>res1. cgi_header_lines res1 total' rest))"
    by (subst cgi_header_lines.simps) (simp only: if_False simp_thms)
  also have "\<dots> = cgi_store_all res (kv # kvs)" by (simp only: line and_then_simps prod.case IH cgi_store_all.simps)
  finally show ?case .
qed

lemma find_LF_LF:
  "LF \<notin> set l \<Longrightarrow> str_find [LF, LF] (l @ LF # LF # rest) = Some (length l)"
  by (induction l) auto

lemma find_LF_skip:
  "LF \<notin> set l \<Longrightarrow> deref rest \<noteq> LF \<Longrightarrow>
     str_find [LF, LF] (l @ LF # rest) = map_option (\<lambda>i. length l + 1 + i) (str_find [LF, LF] rest)"
proof (induction l)
  case Nil
  then show ?case by (cases rest) (auto simp: fun_eq_iff intro!: arg_cong2 [where f = map_option])
next
  case (Cons c l)
  then show ?case by (auto simp: option.map_comp o_def)
qed

lemma find_no_CR: "CR \<notin> set s \<Longrightarrow> str_find (CR # l) s = None"
  by (induction s) auto

lemma cgi_line_no_break: "cgi_field kv \<Longrightarrow> no_break (fst kv @ '': '' @ snd kv)"
  using valid_no_break' by (simp add: cgi_field_def)

lemma cgi_lines_text: "cgi_lines CRLF kvs = lines_text (map (\<lambda>kv. fst kv @ '': '' @ snd kv) kvs)"
  by (induction kvs) auto

lemma find_cgi_lines_LF:
  "kvs \<noteq> [] \<Longrightarrow> \<forall>kv\<in>set kvs. cgi_field kv \<Longrightarrow>
     str_find [LF, LF] (cgi_lines [LF] kvs @ LF # body) = Some (length (cgi_lines [LF] kvs) - 1)"
proof (induction kvs)
  case (Cons kv kvs)
  let ?l = "fst kv @ '': '' @ snd kv"
  have l: "LF \<notin> set ?l" using cgi_line_no_break [of kv] Cons.prems by (simp add: no_break_def)
  show ?case
  proof (cases "kvs = []")
    case True
    then show ?thesis using find_LF_LF [OF l, of body] by simp
  next
    case False
    then obtain kv' kvs' where kvs: "kvs = kv' # kvs'" by (cases kvs) auto
    have "cgi_field kv'" using Cons.prems kvs by simp
    then have d: "deref (cgi_lines [LF] kvs @ LF # body) \<noteq> LF"
      using cgi_field_start [of kv' "snd kv' @ LF # cgi_lines [LF] kvs' @ LF # body"] by (simp add: kvs IsLF_def)
    have IH: "str_find [LF, LF] (cgi_lines [LF] kvs @ LF # body) = Some (length (cgi_lines [LF] kvs) - 1)"
      using Cons.IH False Cons.prems by simp
    have pos: "1 \<le> length (cgi_lines [LF] kvs)" by (simp add: kvs)
    have "str_find [LF, LF] (?l @ LF # (cgi_lines [LF] kvs @ LF # body)) =
        Some (length ?l + 1 + (length (cgi_lines [LF] kvs) - 1))"
      unfolding find_LF_skip [OF l d] IH by simp
    then show ?thesis using pos by simp
  qed
qed simp

lemma cgi_end_of_header:
  assumes "kvs \<noteq> []" and "\<forall>kv\<in>set kvs. cgi_field kv" and "eol = CRLF \<or> eol = [LF] \<and> CR \<notin> set body"
  shows "FindEndOfHeader False (cgi_lines eol kvs @ eol @ body) = Some (length (cgi_lines eol kvs @ eol))"
  using assms(3)
proof
  assume eol: "eol = CRLF"
  show ?thesis
    using assms(1,2) cgi_line_no_break FindEndOfHeader_lines [of "map (\<lambda>kv. fst kv @ '': '' @ snd kv) kvs" False body]
    by (auto simp: eol cgi_lines_text no_break_def)
next
  assume eol: "eol = [LF] \<and> CR \<notin> set body"
  have "CR \<notin> set (cgi_lines [LF] ls)" if "\<forall>kv\<in>set ls. cgi_field kv" for ls
    using that cgi_line_no_break by (induction ls) (auto simp: no_break_def)
  then have "CR \<notin> set (cgi_lines [LF] kvs @ LF # body)" using assms(2) eol by simp
  moreover have "1 \<le> length (cgi_lines [LF] kvs)" using assms(1) by (cases kvs) auto
  ultimately show ?thesis
    using find_cgi_lines_LF [OF assms(1,2), of body] eol by (simp add: FindEndOfHeader_def find_no_CR)
qed

lemma cgi_error_statuses: "cgi_response out = Inl e \<Longrightarrow> \<exists>s\<in>cgi_statuses. e = ResponseStatusException s"
  by (auto simp: cgi_response_def and_then_Inl_iff cgi_statuses_def
      dest!: cgi_header_lines_error split: option.splits if_splits)

lemma cgi_response_built:
  "cgi_response out = Inr res \<Longrightarrow> built_response res \<and> HasHeader res ''content-type''"
  by (auto simp: cgi_response_def and_then_Inr_iff dest!: cgi_header_lines_built intro: built_response.intros
      split: option.splits if_splits)

subsection \<open>Properties\<close>

text \<open>C21: Whatever a CGI program writes, the server gets an answer: an error with one of three
  statuses, or a response that has a content type and that only the public operations of
  \<open>HttpResponse\<close> have built, so the program cannot break the framing of the server's response.\<close>

theorem cgi_response_safe:
  "\<exists>r. ParseCgiResponse out = Some r \<and>
     (case r of
        Inl e \<Rightarrow> e \<in> ResponseStatusException ` {kBadRequest, kRequestHeaderFieldsTooLarge, kBadGateway}
      | Inr res \<Rightarrow> built_response res \<and> HasHeader res ''content-type'')"
proof (cases "cgi_response out")
  case (Inl e)
  then show ?thesis using cgi_error_statuses [OF Inl]
    by (auto simp: ParseCgiResponse_eq cgi_statuses_def)
next
  case (Inr res)
  then show ?thesis using cgi_response_built [OF Inr] by (simp add: ParseCgiResponse_eq)
qed



text \<open>A header with line feeds is cut at the wrong place when the body has an empty line with
  carriage returns: the search for the strict end of the header comes first, so the body loses
  everything up to there.\<close>

theorem cgi_body_lost:
  "map_option (map_sum id rs_body) (ParseCgiResponse
     (''Content-Type: a'' @ [LF, LF] @ ''one'' @ CRLF @ CRLF @ ''two'')) = Some (Inr ''two'')"
proof -
  let ?kvs = "[(''Content-Type'', ''a'')]" and ?body = "''one'' @ CRLF @ CRLF @ ''two''"
  have out: "cgi_lines [LF] ?kvs @ [LF] @ ?body = ''Content-Type: a'' @ [LF, LF] @ ?body" by simp
  have "cgi_header_lines (HttpResponse_of kOk) 0 (cgi_lines [LF] ?kvs @ [LF] @ ?body) =
      cgi_store_all (HttpResponse_of kOk) ?kvs"
    by (intro cgi_header_lines_accepts)
      (simp_all add: cgi_field_def IsValidHeaderChar_def char_le_iff cgi_kMaxHeaderSize_def)
  moreover have "FindEndOfHeader False (''Content-Type: a'' @ [LF, LF] @ ?body) = Some 24"
    by (simp add: FindEndOfHeader_def)
  moreover have "map_sum id rs_body (and_then (cgi_store_all (HttpResponse_of kOk) ?kvs) (\<lambda>res.
      if \<not> HasHeader res ''content-type'' then throw_status kBadGateway
      else Inr (SetBody (drop 24 (''Content-Type: a'' @ [LF, LF] @ ?body)) res))) = Inr ''two''"
    by code_simp
  ultimately show ?thesis by (simp only: ParseCgiResponse_eq option.map cgi_response_def out option.case)
qed

end
