(* ===== verification/Operating_System.thy ===== *)
theory Operating_System
  imports Http_Types
begin

text \<open>
  The operating system as the sources use it, a parameter of the model: a record of the calls,
  each a function of the state of the world. What a call is documented to do is stated where a
  property needs it, as a hypothesis on this record.

  A function of the server that calls the system is a function of the machine, the pair of
  the world and the list of the calls made so far, and gives a result, which may be an
  exception, and the next machine. The list is what confinement and the handling of
  descriptors are stated about. \<open>io_spec\<close> is a small calculus for such functions: which calls
  they make, what they return and what they throw.
\<close>

subsection \<open>Calls\<close>

datatype file_kind = RegularFile | Directory | OtherFile

datatype access_mode = R_OK | W_OK | X_OK

text \<open>What a child process does between \<open>fork\<close> and \<open>execve\<close>.\<close>

datatype child_call =
    Child_close int
  | Child_dup2 int int
  | Child_execve string "string list" "string list"
  | Child_exit int

datatype epoll_op = EPOLL_CTL_ADD | EPOLL_CTL_MOD | EPOLL_CTL_DEL

text \<open>
  The log of the calls: the arguments that matter and, where later calls depend on it, the
  result. \<open>'p\<close> is the type of the pointers that are registered with \<open>epoll\<close>.
\<close>

datatype syscall =
    Stat string
  | Access string "access_mode list"
  | ReadFile string
  | OpenWrite string
  | WriteFile string string
  | Remove string
  | Time
  | Date
  | Socketpair "(int \<times> int) option"
  | Fork "child_call list" int
  | Fcntl_getfl int
  | Fcntl_setfl int int
  | Write int string
  | Read int nat
  | Recv int nat
  | Send int string
  | Accept int "(int \<times> 32 word) option"
  | Close int
  | Epoll_ctl int epoll_op int "32 word" "nat option" "int option"
  | Waitpid int
  | Kill int
  | Socket int
  | Setsockopt int
  | Bind int "16 word"
  | Listen int
  | Epoll_create int

text \<open>The path a call names.\<close>

fun path_of :: "syscall \<Rightarrow> string option" where
  "path_of (Stat p) = Some p"
| "path_of (Access p mode) = Some p"
| "path_of (ReadFile p) = Some p"
| "path_of (OpenWrite p) = Some p"
| "path_of (WriteFile p d) = Some p"
| "path_of (Remove p) = Some p"
| "path_of _ = None"

text \<open>
  A failing call gives its \<open>errno\<close>, or nothing where the sources do not look at it.
  \<open>os_read\<close> and \<open>os_recv\<close> give the bytes, none at the end of the stream; \<open>os_waitpid\<close> gives
  the exit code, \<open>None\<close> when the child did not exit normally. \<open>os_http_date\<close> is the clock
  in the format of \<open>strftime\<close>.
\<close>

record 'w os =
  os_stat :: "string \<Rightarrow> 'w \<Rightarrow> (int + file_kind) \<times> 'w"
  os_access :: "string \<Rightarrow> access_mode list \<Rightarrow> 'w \<Rightarrow> int option \<times> 'w"
  os_read_file :: "string \<Rightarrow> 'w \<Rightarrow> (int + string) \<times> 'w"
  os_open_write :: "string \<Rightarrow> 'w \<Rightarrow> bool \<times> 'w"
  os_write_file :: "string \<Rightarrow> string \<Rightarrow> 'w \<Rightarrow> bool \<times> 'w"
  os_remove :: "string \<Rightarrow> 'w \<Rightarrow> int option \<times> 'w"
  os_time :: "'w \<Rightarrow> int \<times> 'w"
  os_http_date :: "'w \<Rightarrow> string option \<times> 'w"
  os_socketpair :: "'w \<Rightarrow> (int \<times> int) option \<times> 'w"
  os_fork :: "child_call list \<Rightarrow> 'w \<Rightarrow> int \<times> 'w"
  os_fcntl_getfl :: "int \<Rightarrow> 'w \<Rightarrow> (int + int) \<times> 'w"
  os_fcntl_setfl :: "int \<Rightarrow> int \<Rightarrow> 'w \<Rightarrow> int option \<times> 'w"
  os_write :: "int \<Rightarrow> string \<Rightarrow> 'w \<Rightarrow> int \<times> 'w"
  os_read :: "int \<Rightarrow> nat \<Rightarrow> 'w \<Rightarrow> string option \<times> 'w"
  os_recv :: "int \<Rightarrow> nat \<Rightarrow> 'w \<Rightarrow> string option \<times> 'w"
  os_send :: "int \<Rightarrow> string \<Rightarrow> 'w \<Rightarrow> int \<times> 'w"
  os_accept :: "int \<Rightarrow> 'w \<Rightarrow> (int \<times> 32 word) option \<times> 'w"
  os_close :: "int \<Rightarrow> 'w \<Rightarrow> unit \<times> 'w"
  os_epoll_ctl :: "int \<Rightarrow> epoll_op \<Rightarrow> int \<Rightarrow> 32 word \<Rightarrow> nat option \<Rightarrow> 'w \<Rightarrow> int option \<times> 'w"
  os_waitpid :: "int \<Rightarrow> 'w \<Rightarrow> int option \<times> 'w"
  os_kill :: "int \<Rightarrow> 'w \<Rightarrow> unit \<times> 'w"
  os_socket :: "'w \<Rightarrow> int \<times> 'w"
  os_setsockopt :: "int \<Rightarrow> 'w \<Rightarrow> bool \<times> 'w"
  os_bind :: "int \<Rightarrow> 16 word \<Rightarrow> 'w \<Rightarrow> bool \<times> 'w"
  os_listen :: "int \<Rightarrow> 'w \<Rightarrow> bool \<times> 'w"
  os_epoll_create :: "'w \<Rightarrow> int \<times> 'w"

record 'w machine =
  world :: 'w
  calls :: "syscall list"

type_synonym ('w, 'a) io = "'w machine \<Rightarrow> (exn + 'a) \<times> 'w machine"

subsection \<open>Functions of the machine\<close>

definition io_return :: "'a \<Rightarrow> ('w, 'a) io" where
  "io_return x = (\<lambda>m. (Inr x, m))"

definition io_throw :: "exn \<Rightarrow> ('w, 'a) io" where
  "io_throw e = (\<lambda>m. (Inl e, m))"

definition io_lift :: "exn + 'a \<Rightarrow> ('w, 'a) io" where
  "io_lift r = (\<lambda>m. (r, m))"

definition io_bind :: "('w, 'a) io \<Rightarrow> ('a \<Rightarrow> ('w, 'b) io) \<Rightarrow> ('w, 'b) io" where
  "io_bind f g = (\<lambda>m. case f m of (Inl e, m1) \<Rightarrow> (Inl e, m1) | (Inr x, m1) \<Rightarrow> g x m1)"

text \<open>\<open>try f catch (...) { g; throw; }\<close>: destructors that run while an exception passes.\<close>

definition io_unwind :: "('w, 'a) io \<Rightarrow> ('w, unit) io \<Rightarrow> ('w, 'a) io" where
  "io_unwind f g = (\<lambda>m. case f m of (Inl e, m1) \<Rightarrow> (Inl e, snd (g m1)) | (Inr x, m1) \<Rightarrow> (Inr x, m1))"

definition sys :: "('a \<Rightarrow> syscall) \<Rightarrow> ('w \<Rightarrow> 'a \<times> 'w) \<Rightarrow> ('w, 'a) io" where
  "sys entry call = (\<lambda>m. case call (world m) of (r, w) \<Rightarrow> (Inr r, \<lparr>world = w, calls = calls m @ [entry r]\<rparr>))"

named_theorems io_run \<open>running the functions of the machine\<close>

lemma io_run_simps [io_run]:
  "io_return x m = (Inr x, m)" "io_throw e m = (Inl e, m)" "io_lift r m = (r, m)"
  "io_bind f g m = (case f m of (Inl e, m1) \<Rightarrow> (Inl e, m1) | (Inr x, m1) \<Rightarrow> g x m1)"
  "sys entry call m = (case call (world m) of (r, w) \<Rightarrow> (Inr r, \<lparr>world = w, calls = calls m @ [entry r]\<rparr>))"
  by (simp_all add: io_return_def io_throw_def io_lift_def io_bind_def sys_def)

lemma io_bind_simps [simp]:
  "io_bind (io_return x) g = g x" "io_bind (io_throw e) g = io_throw e"
  "io_bind (io_lift (Inr x)) g = g x" "io_bind (io_lift (Inl e)) g = io_throw e"
  "io_bind (io_bind f h) g = io_bind f (\<lambda>x. io_bind (h x) g)"
  by (auto simp: fun_eq_iff io_bind_def io_return_def io_throw_def io_lift_def split: prod.splits sum.splits)

subsection \<open>What such a function calls, returns and throws\<close>

definition io_spec :: "(syscall \<Rightarrow> bool) \<Rightarrow> ('a \<Rightarrow> bool) \<Rightarrow> (exn \<Rightarrow> bool) \<Rightarrow> ('w, 'a) io \<Rightarrow> bool" where
  "io_spec P Q E f \<longleftrightarrow>
     (\<forall>m. (\<exists>cs. calls (snd (f m)) = calls m @ cs \<and> list_all P cs) \<and>
        (case fst (f m) of Inr x \<Rightarrow> Q x | Inl e \<Rightarrow> E e))"

named_theorems io_rules \<open>rules of the calculus\<close>

lemma io_spec_return [io_rules]: "Q x \<Longrightarrow> io_spec P Q E (io_return x)"
  by (simp add: io_spec_def io_return_def)

lemma io_spec_throw [io_rules]: "E e \<Longrightarrow> io_spec P Q E (io_throw e)"
  by (simp add: io_spec_def io_throw_def)

lemma io_spec_lift [io_rules]:
  "(\<And>x. r = Inr x \<Longrightarrow> Q x) \<Longrightarrow> (\<And>e. r = Inl e \<Longrightarrow> E e) \<Longrightarrow> io_spec P Q E (io_lift r)"
  by (cases r) (simp_all add: io_spec_def io_lift_def)

lemma io_spec_sys [io_rules]: "(\<And>r. P (entry r)) \<Longrightarrow> (\<And>r. Q r) \<Longrightarrow> io_spec P Q E (sys entry call)"
  by (simp add: io_spec_def sys_def split: prod.split)

lemma io_spec_bind:
  assumes "io_spec P Q E f" and "\<And>x. Q x \<Longrightarrow> io_spec P R E (g x)"
  shows "io_spec P R E (io_bind f g)"
  unfolding io_spec_def
proof
  fix m
  obtain r m1 where f: "f m = (r, m1)" by (cases "f m")
  from assms(1) obtain cs where cs: "calls m1 = calls m @ cs" "list_all P cs"
      and r: "case r of Inr x \<Rightarrow> Q x | Inl e \<Rightarrow> E e"
    unfolding io_spec_def by (metis f fst_conv snd_conv)
  show "(\<exists>cs. calls (snd (io_bind f g m)) = calls m @ cs \<and> list_all P cs) \<and>
      (case fst (io_bind f g m) of Inr x \<Rightarrow> R x | Inl e \<Rightarrow> E e)"
  proof (cases r)
    case (Inl e)
    then show ?thesis using f cs r by (simp add: io_bind_def)
  next
    case (Inr x)
    then have "io_spec P R E (g x)" using r assms(2) by simp
    then obtain cs' where "calls (snd (g x m1)) = calls m1 @ cs'" "list_all P cs'"
        and "case fst (g x m1) of Inr x \<Rightarrow> R x | Inl e \<Rightarrow> E e"
      unfolding io_spec_def by blast
    then show ?thesis using f cs Inr by (auto simp: io_bind_def)
  qed
qed

lemma io_spec_weaken:
  "io_spec P Q E f \<Longrightarrow> (\<And>c. P c \<Longrightarrow> P' c) \<Longrightarrow> (\<And>x. Q x \<Longrightarrow> Q' x) \<Longrightarrow> (\<And>e. E e \<Longrightarrow> E' e) \<Longrightarrow> io_spec P' Q' E' f"
  unfolding io_spec_def by (fastforce simp: list_all_iff split: sum.splits)

text \<open>The steps of a function, each with any result.\<close>

lemma io_spec_step [io_rules]:
  "io_spec P (\<lambda>_. True) E f \<Longrightarrow> (\<And>x. io_spec P R E (g x)) \<Longrightarrow> io_spec P R E (io_bind f g)"
  by (erule io_spec_bind) simp

lemma io_spec_lift_bind [io_rules]:
  "(\<And>x. r = Inr x \<Longrightarrow> io_spec P R E (g x)) \<Longrightarrow> (\<And>e. r = Inl e \<Longrightarrow> E e) \<Longrightarrow> io_spec P R E (io_bind (io_lift r) g)"
  by (cases r) (simp_all add: io_spec_throw)

lemma io_spec_if [io_rules]:
  "(b \<Longrightarrow> io_spec P Q E f) \<Longrightarrow> (\<not> b \<Longrightarrow> io_spec P Q E g) \<Longrightarrow> io_spec P Q E (if b then f else g)"
  by simp

lemma io_spec_case_sum [io_rules]:
  "(\<And>e. r = Inl e \<Longrightarrow> io_spec P Q E (f e)) \<Longrightarrow> (\<And>x. r = Inr x \<Longrightarrow> io_spec P Q E (g x)) \<Longrightarrow>
     io_spec P Q E (case r of Inl e \<Rightarrow> f e | Inr x \<Rightarrow> g x)"
  by (cases r) simp_all

lemma io_spec_case_option [io_rules]:
  "(r = None \<Longrightarrow> io_spec P Q E f) \<Longrightarrow> (\<And>x. r = Some x \<Longrightarrow> io_spec P Q E (g x)) \<Longrightarrow>
     io_spec P Q E (case r of None \<Rightarrow> f | Some x \<Rightarrow> g x)"
  by (cases r) simp_all

lemma io_spec_D:
  assumes "io_spec P Q E f" and "f m = (r, m')"
  shows "\<exists>cs. calls m' = calls m @ cs \<and> list_all P cs"
    and "r = Inr x \<Longrightarrow> Q x" and "r = Inl e \<Longrightarrow> E e"
proof -
  from assms have "(\<exists>cs. calls m' = calls m @ cs \<and> list_all P cs) \<and>
      (case r of Inr x \<Rightarrow> Q x | Inl e \<Rightarrow> E e)"
    unfolding io_spec_def by (metis fst_conv snd_conv)
  then show "\<exists>cs. calls m' = calls m @ cs \<and> list_all P cs"
    and "r = Inr x \<Longrightarrow> Q x" and "r = Inl e \<Longrightarrow> E e" by auto
qed

text \<open>\<open>c_str()\<close> as a C function reads it: up to the first NUL byte.\<close>

definition c_str :: "string \<Rightarrow> string" where
  "c_str s = takeWhile (\<lambda>c. c \<noteq> NUL) s"

lemma c_str_id: "set s \<subseteq> {c. IsValidHeaderChar c} \<Longrightarrow> c_str s = s"
  unfolding c_str_def by (rule takeWhile_eq_all_conv [THEN iffD2]) (use not_header_char in blast)

end
