(* ===== verification/File_Utils.thy ===== *)
theory File_Utils
  imports Operating_System
begin

text \<open>
  \<open>lib/utils/file_utils.cpp\<close> and \<open>ConfigParser::LoadFileOrThrowRuntime\<close>: the checks before a
  file is read, executed or deleted, with the translation of \<open>errno\<close> to a status. The
  \<open>errno\<close> values are those of Linux.

  The results: which calls each check makes, all of them on the path it was given (or on its
  parent directory, for deletion), and that every failure is an exception with one of four statuses.
\<close>

subsection \<open>Operations\<close>

definition ENOENT :: int where "ENOENT = 2"
definition ENOTDIR :: int where "ENOTDIR = 20"
definition EACCES :: int where "EACCES = 13"
definition EPERM :: int where "EPERM = 1"
definition EISDIR :: int where "EISDIR = 21"

definition MapErrnoToHttpStatus :: "int \<Rightarrow> status" where
  "MapErrnoToHttpStatus e =
     (if e = ENOENT \<or> e = ENOTDIR then kNotFound
      else if e = EACCES \<or> e = EPERM then kForbidden
      else if e = EISDIR then kBadRequest
      else kInternalServerError)"

definition throw_errno :: "int \<Rightarrow> ('w, 'a) io" where
  "throw_errno e = io_throw (ResponseStatusException (MapErrnoToHttpStatus e))"

definition call_stat :: "'w os \<Rightarrow> string \<Rightarrow> ('w, int + file_kind) io" where
  "call_stat os path = sys (\<lambda>_. Stat (c_str path)) (os_stat os (c_str path))"

definition call_access :: "'w os \<Rightarrow> string \<Rightarrow> access_mode list \<Rightarrow> ('w, int option) io" where
  "call_access os path mode = sys (\<lambda>_. Access (c_str path) mode) (os_access os (c_str path) mode)"

definition IsDirectory :: "'w os \<Rightarrow> string \<Rightarrow> ('w, bool) io" where
  "IsDirectory os path =
     io_bind (call_stat os path) (\<lambda>r.
       case r of Inl e \<Rightarrow> io_return False | Inr st \<Rightarrow> io_return (st = Directory))"

definition StatOrThrow :: "'w os \<Rightarrow> string \<Rightarrow> ('w, file_kind) io" where
  "StatOrThrow os path =
     io_bind (call_stat os path) (\<lambda>r. case r of Inl e \<Rightarrow> throw_errno e | Inr st \<Rightarrow> io_return st)"

definition EnsureAccessOrThrow :: "'w os \<Rightarrow> string \<Rightarrow> access_mode list \<Rightarrow> ('w, unit) io" where
  "EnsureAccessOrThrow os path mode =
     io_bind (call_access os path mode) (\<lambda>r. case r of None \<Rightarrow> io_return () | Some e \<Rightarrow> throw_errno e)"

definition EnsureRegularFileOrThrowForbidden :: "file_kind \<Rightarrow> ('w, unit) io" where
  "EnsureRegularFileOrThrowForbidden st =
     (if st \<noteq> RegularFile then io_throw (ResponseStatusException kForbidden) else io_return ())"

definition ReadFileToStringOrThrow :: "'w os \<Rightarrow> string \<Rightarrow> ('w, string) io" where
  "ReadFileToStringOrThrow os filename =
     io_bind (StatOrThrow os filename) (\<lambda>buffer.
     io_bind (EnsureRegularFileOrThrowForbidden buffer) (\<lambda>_.
     io_bind (EnsureAccessOrThrow os filename [R_OK]) (\<lambda>_.
     io_bind (sys (\<lambda>_. ReadFile (c_str filename)) (os_read_file os (c_str filename))) (\<lambda>r.
       case r of Inl e \<Rightarrow> throw_errno e | Inr content \<Rightarrow> io_return content))))"

definition CheckReadableRegularFileOrThrow :: "'w os \<Rightarrow> string \<Rightarrow> ('w, unit) io" where
  "CheckReadableRegularFileOrThrow os path =
     io_bind (StatOrThrow os path) (\<lambda>buffer.
     io_bind (EnsureRegularFileOrThrowForbidden buffer) (\<lambda>_. EnsureAccessOrThrow os path [R_OK]))"

definition CheckExecutableCgiScriptOrThrow :: "'w os \<Rightarrow> string \<Rightarrow> ('w, unit) io" where
  "CheckExecutableCgiScriptOrThrow os path =
     io_bind (StatOrThrow os path) (\<lambda>buffer.
     io_bind (EnsureRegularFileOrThrowForbidden buffer) (\<lambda>_. EnsureAccessOrThrow os path [X_OK]))"

text \<open>\<open>dirname\<close> of the C library: without the trailing slashes, the part before the last name.\<close>

definition strip_back :: "(char \<Rightarrow> bool) \<Rightarrow> string \<Rightarrow> string" where
  "strip_back p s = rev (dropWhile p (rev s))"

definition dirname :: "string \<Rightarrow> string" where
  "dirname path =
     (let q = strip_back (\<lambda>c. c = CHR ''/'') path
      in if q = [] then (if path = [] then ''.'' else ''/'')
         else
           (let d = strip_back (\<lambda>c. c \<noteq> CHR ''/'') q
            in if d = [] then ''.''
               else (let e = strip_back (\<lambda>c. c = CHR ''/'') d in if e = [] then ''/'' else e)))"

definition CheckDeletableRegularFileOrThrow :: "'w os \<Rightarrow> string \<Rightarrow> ('w, unit) io" where
  "CheckDeletableRegularFileOrThrow os path =
     io_bind (StatOrThrow os path) (\<lambda>buffer.
     io_bind (EnsureRegularFileOrThrowForbidden buffer) (\<lambda>_.
       let dir_name = dirname (c_str path)
       in io_bind (call_stat os dir_name) (\<lambda>r.
            case r of
              Inl e \<Rightarrow> throw_errno e
            | Inr _ \<Rightarrow>
                io_bind (call_access os dir_name [W_OK, X_OK]) (\<lambda>a.
                  case a of None \<Rightarrow> io_return () | Some e \<Rightarrow> throw_errno e))))"

text \<open>The content of the configuration file.\<close>

definition LoadFileOrThrowRuntime :: "'w os \<Rightarrow> string \<Rightarrow> ('w, string) io" where
  "LoadFileOrThrowRuntime os filename =
     io_bind (call_stat os filename) (\<lambda>r.
       case r of
         Inl e \<Rightarrow> io_throw (RuntimeError (''File does not exist: '' @ filename))
       | Inr s \<Rightarrow>
           (if s = Directory then io_throw (RuntimeError (filename @ '' is a directory''))
            else
              io_bind (sys (\<lambda>_. ReadFile (c_str filename)) (os_read_file os (c_str filename))) (\<lambda>c.
                case c of
                  Inl e \<Rightarrow> io_throw (RuntimeError (''Failed to open file: '' @ filename))
                | Inr content \<Rightarrow> io_return content)))"

subsection \<open>Calls and failures\<close>

definition file_error :: "exn \<Rightarrow> bool" where
  "file_error e \<longleftrightarrow> e \<in> ResponseStatusException ` {kNotFound, kForbidden, kBadRequest, kInternalServerError}"

lemma file_error_intros [simp, intro]:
  "file_error (ResponseStatusException (MapErrnoToHttpStatus e))"
  "file_error (ResponseStatusException kForbidden)" "file_error (ResponseStatusException kNotFound)"
  "file_error (ResponseStatusException kBadRequest)" "file_error (ResponseStatusException kInternalServerError)"
  by (simp_all add: file_error_def MapErrnoToHttpStatus_def)

text \<open>Calls that only look at a path, and calls that read it.\<close>

definition looks_at :: "string \<Rightarrow> syscall \<Rightarrow> bool" where
  "looks_at p c \<longleftrightarrow> c = Stat p \<or> (\<exists>mode. c = Access p mode)"

definition reads :: "string \<Rightarrow> syscall \<Rightarrow> bool" where
  "reads p c \<longleftrightarrow> looks_at p c \<or> c = ReadFile p"

lemma io_spec_throw_errno [io_rules]: "(\<And>e. file_error e \<Longrightarrow> E e) \<Longrightarrow> io_spec P Q E (throw_errno e)"
  by (simp add: throw_errno_def io_spec_throw)

lemma call_stat_spec: "P (Stat (c_str p)) \<Longrightarrow> io_spec P (\<lambda>_. True) E (call_stat os p)"
  by (simp add: call_stat_def io_spec_sys)

lemma call_access_spec: "P (Access (c_str p) mode) \<Longrightarrow> io_spec P (\<lambda>_. True) E (call_access os p mode)"
  by (simp add: call_access_def io_spec_sys)

lemma IsDirectory_spec: "P (Stat (c_str p)) \<Longrightarrow> io_spec P (\<lambda>_. True) E (IsDirectory os p)"
  unfolding IsDirectory_def by (intro io_rules call_stat_spec) auto

lemma StatOrThrow_spec: "io_spec (looks_at (c_str p)) (\<lambda>_. True) file_error (StatOrThrow os p)"
  unfolding StatOrThrow_def by (intro io_rules call_stat_spec) (auto simp: looks_at_def)

lemma EnsureAccessOrThrow_spec: "io_spec (looks_at (c_str p)) (\<lambda>_. True) file_error (EnsureAccessOrThrow os p mode)"
  unfolding EnsureAccessOrThrow_def by (intro io_rules call_access_spec) (auto simp: looks_at_def)

lemma EnsureRegular_spec: "io_spec P (\<lambda>_. st = RegularFile) file_error (EnsureRegularFileOrThrowForbidden st)"
  by (simp add: EnsureRegularFileOrThrowForbidden_def io_spec_throw io_spec_return)

lemmas file_check_specs = StatOrThrow_spec EnsureAccessOrThrow_spec EnsureRegular_spec

lemma ReadFileToStringOrThrow_spec:
  "io_spec (reads (c_str p)) (\<lambda>_. True) file_error (ReadFileToStringOrThrow os p)"
  unfolding ReadFileToStringOrThrow_def
  by (intro io_rules file_check_specs [THEN io_spec_weaken]) (auto simp: reads_def)

lemma CheckReadable_spec:
  "io_spec (looks_at (c_str p)) (\<lambda>_. True) file_error (CheckReadableRegularFileOrThrow os p)"
  unfolding CheckReadableRegularFileOrThrow_def
  by (intro io_rules file_check_specs [THEN io_spec_weaken]) auto

lemma CheckExecutable_spec:
  "io_spec (looks_at (c_str p)) (\<lambda>_. True) file_error (CheckExecutableCgiScriptOrThrow os p)"
  unfolding CheckExecutableCgiScriptOrThrow_def
  by (intro io_rules file_check_specs [THEN io_spec_weaken]) auto

lemma c_str_idem [simp]: "c_str (c_str p) = c_str p"
  by (simp add: c_str_def takeWhile_idem)

subsection \<open>The documented behaviour of the file calls\<close>

text \<open>What a path names: nothing, a file that the server can read, or something else.\<close>

datatype node = File string | Other_node

text \<open>
  \<open>file_system os view\<close>: looking at files and reading them changes nothing and tells what is
  there; opening for writing truncates, writing appends, and removing removes.
\<close>

definition file_system :: "'w os \<Rightarrow> ('w \<Rightarrow> string \<Rightarrow> node option) \<Rightarrow> bool" where
  "file_system os view \<longleftrightarrow>
     (\<forall>w p. view (snd (os_stat os p w)) = view w) \<and>
     (\<forall>w p mode. view (snd (os_access os p mode w)) = view w) \<and>
     (\<forall>w p. view (snd (os_read_file os p w)) = view w) \<and>
     (\<forall>w p c. view w p = Some (File c) \<longrightarrow>
        fst (os_stat os p w) = Inr RegularFile \<and> fst (os_access os p [R_OK] w) = None \<and>
        fst (os_read_file os p w) = Inr c) \<and>
     (\<forall>w p. view w p = None \<longrightarrow> fst (os_stat os p w) = Inl ENOENT) \<and>
     (\<forall>w p w'. os_open_write os p w = (True, w') \<longrightarrow> view w' = (view w)(p \<mapsto> File [])) \<and>
     (\<forall>w p c d w'. view w p = Some (File c) \<longrightarrow> os_write_file os p d w = (True, w') \<longrightarrow>
        view w' = (view w)(p \<mapsto> File (c @ d))) \<and>
     (\<forall>w p w'. os_remove os p w = (None, w') \<longrightarrow> view w' = (view w)(p := None))"

lemma file_system_same:
  assumes "file_system os view"
  shows "view (snd (os_stat os p w)) = view w" and "view (snd (os_access os p mode w)) = view w"
    and "view (snd (os_read_file os p w)) = view w"
  using assms by (simp_all add: file_system_def)

lemma file_system_file:
  assumes "file_system os view" and "view w p = Some (File c)"
  shows "fst (os_stat os p w) = Inr RegularFile" and "fst (os_access os p [R_OK] w) = None"
    and "fst (os_read_file os p w) = Inr c"
  using assms by (simp_all add: file_system_def)

lemma file_system_absent:
  "file_system os view \<Longrightarrow> view w p = None \<Longrightarrow> fst (os_stat os p w) = Inl ENOENT"
  by (simp add: file_system_def)

lemma file_system_change:
  assumes "file_system os view"
  shows "os_open_write os p w = (True, w') \<Longrightarrow> view w' = (view w)(p \<mapsto> File [])"
    and "view w p = Some (File c) \<Longrightarrow> os_write_file os p d w = (True, w') \<Longrightarrow> view w' = (view w)(p \<mapsto> File (c @ d))"
    and "os_remove os p w = (None, w') \<Longrightarrow> view w' = (view w)(p := None)"
  using assms by (simp_all add: file_system_def)

lemma IsDirectory_run:
  assumes "file_system os view"
  obtains m' where "IsDirectory os p m = (Inr (fst (os_stat os (c_str p) (world m)) = Inr Directory), m')"
    and "view (world m') = view (world m)"
proof -
  obtain r w where st: "os_stat os (c_str p) (world m) = (r, w)" by (cases "os_stat os (c_str p) (world m)")
  then have "view w = view (world m)" using file_system_same(1) [OF assms, of "c_str p" "world m"] by simp
  then show thesis using st
    by (cases r) (auto simp: IsDirectory_def call_stat_def io_run intro: that)
qed

lemma ReadFile_run:
  assumes "file_system os view" and "view (world m) (c_str p) = Some (File c)"
  obtains m' where "ReadFileToStringOrThrow os p m = (Inr c, m')"
proof -
  let ?q = "c_str p"
  obtain w1 where w1: "os_stat os ?q (world m) = (Inr RegularFile, w1)" "view w1 ?q = Some (File c)"
    using file_system_file(1) [OF assms] file_system_same(1) [OF assms(1), of ?q "world m"] assms(2)
    by (metis prod.collapse)
  obtain w2 where w2: "os_access os ?q [R_OK] w1 = (None, w2)" "view w2 ?q = Some (File c)"
    using file_system_file(2) [OF assms(1) w1(2)] file_system_same(2) [OF assms(1), of ?q "[R_OK]" w1] w1(2)
    by (metis prod.collapse)
  obtain w3 where w3: "os_read_file os ?q w2 = (Inr c, w3)"
    using file_system_file(3) [OF assms(1) w2(2)] by (metis prod.collapse)
  show thesis
    by (rule that) (simp add: ReadFileToStringOrThrow_def StatOrThrow_def EnsureAccessOrThrow_def
        EnsureRegularFileOrThrowForbidden_def call_stat_def call_access_def io_run w1 w2 w3)
qed

lemma ReadFile_absent:
  assumes "file_system os view" and "view (world m) (c_str p) = None"
  obtains m' where "ReadFileToStringOrThrow os p m = (Inl (ResponseStatusException kNotFound), m')"
proof -
  obtain w where "os_stat os (c_str p) (world m) = (Inl ENOENT, w)"
    using file_system_absent [OF assms] by (metis prod.collapse)
  then show thesis
    by (intro that) (simp add: ReadFileToStringOrThrow_def StatOrThrow_def call_stat_def throw_errno_def
        MapErrnoToHttpStatus_def io_run)
qed

end
