(* ===== verification/Socket_Base.thy ===== *)
theory Socket_Base
  imports File_Utils
begin

text \<open>
  \<open>Fd\<close>, \<open>ASocket\<close> and the part of \<open>CgiSocket\<close> that the executor of CGI programs uses.
  An \<open>Fd\<close> owns a descriptor: its copies move the ownership, its destructor closes. It is the
  descriptor itself here, -1 when it owns none; the constructor of a socket closes what it was
  given when it throws. A pointer is the address of an object (\<open>nat\<close>), \<open>None\<close> for NULL.

  The results: which calls the constructors make, and that a descriptor that is not handed on is
  closed exactly once (\<open>fd_balance\<close>, an account of the descriptors that are open).
\<close>

unbundle bit_operations_syntax

subsection \<open>\<open>Fd\<close>\<close>

definition call_close :: "'w os \<Rightarrow> int \<Rightarrow> ('w, unit) io" where
  "call_close os fd = sys (\<lambda>_. Close fd) (os_close os fd)"

definition Fd_Reset :: "'w os \<Rightarrow> int \<Rightarrow> int \<Rightarrow> ('w, int) io" where
  "Fd_Reset os this new_fd =
     io_bind (if this \<noteq> -1 then call_close os this else io_return ()) (\<lambda>_. io_return new_fd)"

definition Fd_destroy :: "'w os \<Rightarrow> int \<Rightarrow> ('w, unit) io" where
  "Fd_destroy os this = io_bind (Fd_Reset os this (-1)) (\<lambda>_. io_return ())"

text \<open>The copy constructor: the copy, and what is left in the source.\<close>

definition Fd_copy :: "int \<Rightarrow> int \<times> int" where
  "Fd_copy other = (other, -1)"

text \<open>\<open>operator=\<close> on two different objects: the target and what is left in the source.\<close>

definition Fd_assign :: "'w os \<Rightarrow> int \<Rightarrow> int \<Rightarrow> ('w, int \<times> int) io" where
  "Fd_assign os this other =
     io_bind (if this \<noteq> -1 then call_close os this else io_return ()) (\<lambda>_. io_return (Fd_copy other))"

subsection \<open>\<open>ASocket\<close>\<close>

record asocket =
  so_fd :: int
  so_last_activity :: int
  so_read_buffer :: string
  so_write_buffer :: string

definition O_NONBLOCK :: int where "O_NONBLOCK = 2048"

definition SetNonBlocking :: "'w os \<Rightarrow> int \<Rightarrow> ('w, unit) io" where
  "SetNonBlocking os fd =
     (if fd = -1 then io_throw (ResponseStatusException kInternalServerError)
      else
        io_bind (sys (\<lambda>_. Fcntl_getfl fd) (os_fcntl_getfl os fd)) (\<lambda>flags.
          case flags of
            Inl e \<Rightarrow> throw_errno e
          | Inr fl \<Rightarrow>
              io_bind (sys (\<lambda>_. Fcntl_setfl fd (fl OR O_NONBLOCK)) (os_fcntl_setfl os fd (fl OR O_NONBLOCK))) (\<lambda>r.
                case r of Some e \<Rightarrow> throw_errno e | None \<Rightarrow> io_return ())))"

definition call_time :: "'w os \<Rightarrow> ('w, int) io" where
  "call_time os = sys (\<lambda>_. Time) (os_time os)"

text \<open>
  The descriptor moves into the member \<open>fd_\<close>, which is destroyed when the constructor
  throws.
\<close>

definition ASocket_init :: "'w os \<Rightarrow> int \<Rightarrow> ('w, asocket) io" where
  "ASocket_init os fd =
     io_unwind
       (io_bind (call_time os) (\<lambda>now.
        io_bind (if fd = -1 then io_throw (ResponseStatusException kInternalServerError) else io_return ()) (\<lambda>_.
        io_bind (SetNonBlocking os fd) (\<lambda>_.
          io_return \<lparr>so_fd = fd, so_last_activity = now, so_read_buffer = [], so_write_buffer = []\<rparr>))))
       (Fd_destroy os fd)"

definition UpdateLastActivity :: "'w os \<Rightarrow> 'a asocket_scheme \<Rightarrow> ('w, 'a asocket_scheme) io" where
  "UpdateLastActivity os s = io_bind (call_time os) (\<lambda>now. io_return (s\<lparr>so_last_activity := now\<rparr>))"

definition IsTimeout :: "'a asocket_scheme \<Rightarrow> int \<Rightarrow> bool" where
  "IsTimeout s threshold_time \<longleftrightarrow> so_last_activity s < threshold_time"

subsection \<open>\<open>CgiSocket\<close>\<close>

record cgi_socket = asocket +
  cgs_pid :: int
  cgs_owner :: "nat option"

definition CgiSocket_init :: "'w os \<Rightarrow> int \<Rightarrow> int \<Rightarrow> ('w, cgi_socket) io" where
  "CgiSocket_init os fd pid =
     io_bind (ASocket_init os fd) (\<lambda>s. io_return (asocket.extend s \<lparr>cgs_pid = pid, cgs_owner = None\<rparr>))"

definition CgiSocket_Send :: "'w os \<Rightarrow> cgi_socket \<Rightarrow> string \<Rightarrow> ('w, int) io" where
  "CgiSocket_Send os s data = sys (\<lambda>_. Write (so_fd s) data) (os_write os (so_fd s) data)"

subsection \<open>Calls on a descriptor\<close>

text \<open>The calls of the constructors; they neither open nor close any other descriptor.\<close>

definition on_fd :: "int \<Rightarrow> syscall \<Rightarrow> bool" where
  "on_fd fd c \<longleftrightarrow> c = Time \<or> c = Fcntl_getfl fd \<or> (\<exists>fl. c = Fcntl_setfl fd fl) \<or> c = Close fd \<or> (\<exists>d. c = Write fd d)"

lemma call_close_spec: "P (Close fd) \<Longrightarrow> io_spec P (\<lambda>_. True) E (call_close os fd)"
  by (simp add: call_close_def io_spec_sys)

lemma Fd_destroy_spec: "(fd \<noteq> -1 \<Longrightarrow> P (Close fd)) \<Longrightarrow> io_spec P (\<lambda>_. True) E (Fd_destroy os fd)"
  unfolding Fd_destroy_def Fd_Reset_def by (intro io_rules call_close_spec) auto

lemma SetNonBlocking_spec: "io_spec (on_fd fd) (\<lambda>_. True) file_error (SetNonBlocking os fd)"
  unfolding SetNonBlocking_def by (intro io_rules) (auto simp: on_fd_def)

lemma io_unwind_spec:
  assumes "io_spec P Q E f" and "io_spec P (\<lambda>_. True) E' g"
  shows "io_spec P Q E (io_unwind f g)"
  unfolding io_spec_def
proof
  fix m
  obtain r m1 where f: "f m = (r, m1)" by (cases "f m")
  obtain cs where cs: "calls m1 = calls m @ cs" "list_all P cs" using io_spec_D(1) [OF assms(1) f] by blast
  show "(\<exists>cs. calls (snd (io_unwind f g m)) = calls m @ cs \<and> list_all P cs) \<and>
      (case fst (io_unwind f g m) of Inr x \<Rightarrow> Q x | Inl e \<Rightarrow> E e)"
  proof (cases r)
    case (Inl e)
    obtain r' m2 where g: "g m1 = (r', m2)" by (cases "g m1")
    obtain cs' where "calls m2 = calls m1 @ cs'" "list_all P cs'" using io_spec_D(1) [OF assms(2) g] by blast
    then show ?thesis using f g cs Inl io_spec_D(3) [OF assms(1) f] by (auto simp: io_unwind_def)
  next
    case (Inr x)
    then show ?thesis using f cs io_spec_D(2) [OF assms(1) f] by (auto simp: io_unwind_def)
  qed
qed

lemma ASocket_init_spec:
  "io_spec (on_fd fd) (\<lambda>s. so_fd s = fd \<and> fd \<noteq> -1 \<and> so_write_buffer s = []) file_error (ASocket_init os fd)"
proof -
  have "io_spec (on_fd fd) (\<lambda>_. fd \<noteq> -1) file_error
      (if fd = -1 then io_throw (ResponseStatusException kInternalServerError) else io_return ())"
    by (simp add: io_spec_throw io_spec_return)
  then show ?thesis
    unfolding ASocket_init_def call_time_def
    by (intro io_unwind_spec io_spec_step [OF io_spec_sys] io_spec_bind [where Q = "\<lambda>_. fd \<noteq> -1"]
        io_spec_step [OF SetNonBlocking_spec] io_spec_return Fd_destroy_spec) (auto simp: on_fd_def)
qed

lemma CgiSocket_init_spec:
  "io_spec (on_fd fd) (\<lambda>s. so_fd s = fd \<and> fd \<noteq> -1 \<and> cgs_pid s = pid \<and> cgs_owner s = None) file_error
     (CgiSocket_init os fd pid)"
  unfolding CgiSocket_init_def
  by (rule io_spec_bind [OF ASocket_init_spec]) (simp add: io_spec_return asocket.defs)

subsection \<open>The account of the descriptors\<close>

text \<open>
  The number of times a descriptor has been opened by the calls less the number of times it has
  been closed.
\<close>

fun opened :: "syscall \<Rightarrow> int list" where
  "opened (Socketpair (Some (a, b))) = [a, b]"
| "opened (Accept fd (Some (c, addr))) = [c]"
| "opened (Socket fd) = (if fd = -1 then [] else [fd])"
| "opened (Epoll_create fd) = (if fd = -1 then [] else [fd])"
| "opened _ = []"

fun closed_fds :: "syscall \<Rightarrow> int list" where
  "closed_fds (Close fd) = [fd]"
| "closed_fds _ = []"

definition fd_balance :: "int \<Rightarrow> syscall list \<Rightarrow> int" where
  "fd_balance fd cs = (\<Sum>c\<leftarrow>cs. int (count_list (opened c) fd) - int (count_list (closed_fds c) fd))"

lemma fd_balance_simps [simp]:
  "fd_balance fd [] = 0" "fd_balance fd (cs @ cs') = fd_balance fd cs + fd_balance fd cs'"
  "fd_balance fd (c # cs) = int (count_list (opened c) fd) - int (count_list (closed_fds c) fd) + fd_balance fd cs"
  by (simp_all add: fd_balance_def)

text \<open>
  \<open>accounts Q B B' f\<close>: what \<open>f\<close> returns satisfies \<open>Q\<close>, and its calls change the account by
  \<open>B\<close> of the result, or by \<open>B'\<close> when it throws.
\<close>

definition accounts ::
  "('a \<Rightarrow> bool) \<Rightarrow> ('a \<Rightarrow> int \<Rightarrow> int) \<Rightarrow> (int \<Rightarrow> int) \<Rightarrow> ('w, 'a) io \<Rightarrow> bool" where
  "accounts Q B B' f \<longleftrightarrow>
     (\<forall>m. \<exists>cs. calls (snd (f m)) = calls m @ cs \<and>
        (case fst (f m) of
           Inr x \<Rightarrow> Q x \<and> (\<forall>fd. fd_balance fd cs = B x fd)
         | Inl e \<Rightarrow> (\<forall>fd. fd_balance fd cs = B' fd)))"

lemma accounts_return: "Q x \<Longrightarrow> (\<And>fd. B x fd = 0) \<Longrightarrow> accounts Q B B' (io_return x)"
  by (simp add: accounts_def io_return_def)

lemma accounts_throw: "(\<And>fd. B' fd = 0) \<Longrightarrow> accounts Q B B' (io_throw e)"
  by (simp add: accounts_def io_throw_def)

lemma accounts_lift:
  "(\<And>x. r = Inr x \<Longrightarrow> Q x) \<Longrightarrow> (\<And>x fd. B x fd = 0) \<Longrightarrow> (\<And>fd. B' fd = 0) \<Longrightarrow> accounts Q B B' (io_lift r)"
  by (cases r) (simp_all add: accounts_def io_lift_def)

lemma accounts_sys:
  "(\<And>r w w'. call w = (r, w') \<Longrightarrow> Q r \<and>
      (\<forall>fd. int (count_list (opened (entry r)) fd) - int (count_list (closed_fds (entry r)) fd) = B r fd)) \<Longrightarrow>
   accounts Q B B' (sys entry call)"
  by (simp add: accounts_def sys_def split: prod.split)

lemma accounts_bind:
  assumes "accounts Q A B' f" and "\<And>x. Q x \<Longrightarrow> accounts R (\<lambda>y fd. B y fd - A x fd) (\<lambda>fd. B' fd - A x fd) (g x)"
  shows "accounts R B B' (io_bind f g)"
  unfolding accounts_def
proof
  fix m
  obtain r m1 where f: "f m = (r, m1)" by (cases "f m")
  from assms(1) obtain cs where cs: "calls m1 = calls m @ cs"
      and r: "case r of Inr x \<Rightarrow> Q x \<and> (\<forall>fd. fd_balance fd cs = A x fd) | Inl e \<Rightarrow> \<forall>fd. fd_balance fd cs = B' fd"
    unfolding accounts_def by (metis f fst_conv snd_conv)
  show "\<exists>cs. calls (snd (io_bind f g m)) = calls m @ cs \<and>
      (case fst (io_bind f g m) of
         Inr x \<Rightarrow> R x \<and> (\<forall>fd. fd_balance fd cs = B x fd) | Inl e \<Rightarrow> \<forall>fd. fd_balance fd cs = B' fd)"
  proof (cases r)
    case (Inl e)
    then show ?thesis using f cs r by (simp add: io_bind_def)
  next
    case (Inr x)
    then have "accounts R (\<lambda>y fd. B y fd - A x fd) (\<lambda>fd. B' fd - A x fd) (g x)" using r assms(2) by simp
    then obtain cs' where "calls (snd (g x m1)) = calls m1 @ cs'"
        and "case fst (g x m1) of Inr y \<Rightarrow> R y \<and> (\<forall>fd. fd_balance fd cs' = B y fd - A x fd)
          | Inl e \<Rightarrow> \<forall>fd. fd_balance fd cs' = B' fd - A x fd"
      unfolding accounts_def by blast
    then show ?thesis using f cs Inr r
      by (intro exI [of _ "cs @ cs'"]) (auto simp: io_bind_def split: sum.splits)
  qed
qed

lemma accounts_unwind:
  assumes "accounts Q B A f" and "accounts (\<lambda>_. True) (\<lambda>_ fd. B' fd - A fd) (\<lambda>fd. B' fd - A fd) g"
  shows "accounts Q B B' (io_unwind f g)"
  unfolding accounts_def
proof
  fix m
  obtain r m1 where f: "f m = (r, m1)" by (cases "f m")
  from assms(1) obtain cs where cs: "calls m1 = calls m @ cs"
      and r: "case r of Inr x \<Rightarrow> Q x \<and> (\<forall>fd. fd_balance fd cs = B x fd) | Inl e \<Rightarrow> \<forall>fd. fd_balance fd cs = A fd"
    unfolding accounts_def by (metis f fst_conv snd_conv)
  show "\<exists>cs. calls (snd (io_unwind f g m)) = calls m @ cs \<and>
      (case fst (io_unwind f g m) of
         Inr x \<Rightarrow> Q x \<and> (\<forall>fd. fd_balance fd cs = B x fd) | Inl e \<Rightarrow> \<forall>fd. fd_balance fd cs = B' fd)"
  proof (cases r)
    case (Inl e)
    obtain cs' where "calls (snd (g m1)) = calls m1 @ cs'" and "\<forall>fd. fd_balance fd cs' = B' fd - A fd"
      using assms(2) unfolding accounts_def by (fastforce split: sum.splits)
    then show ?thesis using f cs Inl r
      by (intro exI [of _ "cs @ cs'"]) (auto simp: io_unwind_def)
  next
    case (Inr x)
    then show ?thesis using f cs r by (auto simp: io_unwind_def)
  qed
qed

lemma accounts_weaken:
  assumes "accounts Q B B' f" and "\<And>x. Q x \<Longrightarrow> Q' x \<and> C x = B x" and "C' = B'"
  shows "accounts Q' C C' f"
  unfolding accounts_def
proof
  fix m
  obtain cs where "calls (snd (f m)) = calls m @ cs"
      "case fst (f m) of Inr x \<Rightarrow> Q x \<and> (\<forall>fd. fd_balance fd cs = B x fd) | Inl e \<Rightarrow> \<forall>fd. fd_balance fd cs = B' fd"
    using assms(1) unfolding accounts_def by blast
  then show "\<exists>cs. calls (snd (f m)) = calls m @ cs \<and>
      (case fst (f m) of Inr x \<Rightarrow> Q' x \<and> (\<forall>fd. fd_balance fd cs = C x fd) | Inl e \<Rightarrow> \<forall>fd. fd_balance fd cs = C' fd)"
    using assms(2,3) by (intro exI [of _ cs]) (cases "fst (f m)", simp_all)
qed

text \<open>Calls that leave the account alone.\<close>

definition quiet :: "syscall \<Rightarrow> bool" where
  "quiet c \<longleftrightarrow> opened c = [] \<and> closed_fds c = []"

lemma quiet_balance: "list_all quiet cs \<Longrightarrow> fd_balance fd cs = 0"
  by (induction cs) (simp_all add: quiet_def)

lemma accounts_quiet:
  assumes "io_spec quiet Q E f" and "\<And>x fd. B x fd = 0" and "\<And>fd. B' fd = 0"
  shows "accounts Q B B' f"
  unfolding accounts_def
proof
  fix m
  obtain r m1 where f: "f m = (r, m1)" by (cases "f m")
  obtain cs where cs: "calls m1 = calls m @ cs" "list_all quiet cs" using io_spec_D(1) [OF assms(1) f] by blast
  then have "fd_balance fd cs = 0" for fd by (simp add: quiet_balance)
  then show "\<exists>cs. calls (snd (f m)) = calls m @ cs \<and>
      (case fst (f m) of Inr x \<Rightarrow> Q x \<and> (\<forall>fd. fd_balance fd cs = B x fd) | Inl e \<Rightarrow> \<forall>fd. fd_balance fd cs = B' fd)"
    using cs(1) assms(2,3) io_spec_D(2) [OF assms(1) f]
    by (intro exI [of _ cs]) (cases r, simp_all add: f)
qed

lemma accounts_calm:
  assumes "io_spec quiet Q (\<lambda>_. False) f"
  shows "accounts Q (\<lambda>_ _. 0) B' f"
  unfolding accounts_def
proof
  fix m
  obtain r m1 where f: "f m = (r, m1)" by (cases "f m")
  obtain cs where cs: "calls m1 = calls m @ cs" "list_all quiet cs" using io_spec_D(1) [OF assms f] by blast
  then have "fd_balance fd cs = 0" for fd by (simp add: quiet_balance)
  then show "\<exists>cs. calls (snd (f m)) = calls m @ cs \<and>
      (case fst (f m) of Inr x \<Rightarrow> Q x \<and> (\<forall>fd. fd_balance fd cs = 0) | Inl e \<Rightarrow> \<forall>fd. fd_balance fd cs = B' fd)"
    using cs(1) io_spec_D(2,3) [OF assms f] by (intro exI [of _ cs]) (cases r, simp_all add: f)
qed

definition only_fd :: "int \<Rightarrow> int \<Rightarrow> int" where
  "only_fd fd x = (if x = fd \<and> fd \<noteq> -1 then 1 else 0)"

lemma accounts_destroy: "accounts (\<lambda>_. True) (\<lambda>_ x. - only_fd fd x) B' (Fd_destroy os fd)"
proof (cases "fd = -1")
  case True
  then show ?thesis by (simp add: Fd_destroy_def Fd_Reset_def only_fd_def accounts_return)
next
  case False
  then show ?thesis
    by (auto simp: Fd_destroy_def Fd_Reset_def call_close_def accounts_def io_run only_fd_def split: prod.splits)
qed

lemma accounts_Reset: "accounts (\<lambda>_. True) (\<lambda>_ x. - only_fd fd x) B' (Fd_Reset os fd new_fd)"
proof (cases "fd = -1")
  case True
  then show ?thesis by (simp add: Fd_Reset_def only_fd_def accounts_return)
next
  case False
  then show ?thesis
    by (auto simp: Fd_Reset_def call_close_def accounts_def io_run only_fd_def split: prod.splits)
qed

lemma SetNonBlocking_quiet: "io_spec quiet (\<lambda>_. fd \<noteq> -1) file_error (SetNonBlocking os fd)"
proof (cases "fd = -1")
  case False
  then show ?thesis unfolding SetNonBlocking_def by (simp, intro io_rules) (auto simp: quiet_def)
qed (simp add: SetNonBlocking_def io_spec_throw)

lemma accounts_ASocket_init:
  "accounts (\<lambda>s. so_fd s = fd \<and> fd \<noteq> -1) (\<lambda>_ _. 0) (\<lambda>x. - only_fd fd x) (ASocket_init os fd)"
proof -
  let ?body = "io_bind (call_time os) (\<lambda>now.
      io_bind (if fd = -1 then io_throw (ResponseStatusException kInternalServerError) else io_return ()) (\<lambda>_.
      io_bind (SetNonBlocking os fd) (\<lambda>_.
        io_return \<lparr>so_fd = fd, so_last_activity = now, so_read_buffer = [], so_write_buffer = []\<rparr>)))"
  have "io_spec quiet (\<lambda>s. so_fd s = fd \<and> fd \<noteq> -1) file_error ?body"
  proof (cases "fd = -1")
    case True
    then show ?thesis unfolding call_time_def
      by (simp, intro io_spec_step [OF io_spec_sys] io_spec_throw) (simp_all add: quiet_def)
  next
    case False
    then show ?thesis unfolding call_time_def
      by (simp, intro io_spec_step [OF io_spec_sys] io_spec_bind [OF SetNonBlocking_quiet] io_spec_return)
         (simp_all add: quiet_def)
  qed
  then have "accounts (\<lambda>s. so_fd s = fd \<and> fd \<noteq> -1) (\<lambda>_ _. 0) (\<lambda>_. 0) ?body"
    by (rule accounts_quiet) simp_all
  then show ?thesis unfolding ASocket_init_def
    by (rule accounts_unwind) (use accounts_destroy in simp)
qed

lemma accounts_CgiSocket_init:
  "accounts (\<lambda>s. so_fd s = fd \<and> fd \<noteq> -1) (\<lambda>_ _. 0) (\<lambda>x. - only_fd fd x) (CgiSocket_init os fd pid)"
  unfolding CgiSocket_init_def
  by (rule accounts_bind [OF accounts_ASocket_init]) (simp add: accounts_return asocket.defs)

end
