(* ===== verification/Http_Request.thy ===== *)
theory Http_Request
  imports Stream_Parser Std_Map
begin

text \<open>
  \<open>HttpRequest\<close>: the record of the request being read, and the header half of its parser
  (\<open>ConsumeMethod\<close>, \<open>ConsumeUri\<close>, \<open>ConsumeVersion\<close>, \<open>ConsumeHeader\<close> with its
  helpers, \<open>AdvanceHeader\<close>). The record extends \<open>stream_state\<close> as the class extends
  \<open>StreamParser\<close>. A consumer takes the request and what is left of the buffer and returns
  both; when it throws, the request is not read again by the server, so an exception carries no
  state.

  The results characterise each consumer: exactly which texts it accepts, what it stores and what
  it leaves. From them: the head of a request ends where \<open>FindEndOfHeader\<close> says, and reading
  it does not depend on what follows.
\<close>

subsection \<open>State\<close>

record http_request = stream_state +
  rq_method :: http_method
  rq_uri :: string
  rq_query_string :: string
  rq_host_name :: string
  rq_host_port :: "16 word"
  rq_version :: string
  rq_headers :: "(string, string) std_map"
  rq_body :: string
  rq_content_length :: int
  rq_next_chunk_size :: int
  rq_keep_alive :: bool
  rq_client_ip :: string
  rq_max_body_size_limit :: nat

definition kMaxHeaderSize :: nat where "kMaxHeaderSize = 8192"
definition kMaxPayloadSize :: nat where "kMaxPayloadSize = 1048576"
definition kMaxUriSize :: nat where "kMaxUriSize = 1024"
definition kDefaultPort :: "16 word" where "kDefaultPort = 8080"

definition HttpRequest_init :: http_request where
  "HttpRequest_init =
     \<lparr>sp_buffer = [], sp_read_pos = 0, sp_state = kHeader,
      rq_method = kUnknownMethod, rq_uri = [], rq_query_string = [], rq_host_name = [],
      rq_host_port = 8080, rq_version = [], rq_headers = [], rq_body = [],
      rq_content_length = -1, rq_next_chunk_size = -1, rq_keep_alive = False,
      rq_client_ip = [], rq_max_body_size_limit = kMaxPayloadSize\<rparr>"

text \<open>
  The copy constructor lists every member but \<open>max_body_size_limit_\<close>, whose value in the copy
  is whatever the memory held; the assignment operator copies all of them.
\<close>

definition HttpRequest_copy :: "nat \<Rightarrow> http_request \<Rightarrow> http_request" where
  "HttpRequest_copy uninitialised src =
     \<lparr>sp_buffer = sp_buffer src, sp_read_pos = sp_read_pos src, sp_state = sp_state src,
      rq_method = rq_method src, rq_uri = rq_uri src, rq_query_string = rq_query_string src,
      rq_host_name = rq_host_name src, rq_host_port = rq_host_port src,
      rq_version = rq_version src, rq_headers = rq_headers src, rq_body = rq_body src,
      rq_content_length = rq_content_length src, rq_next_chunk_size = rq_next_chunk_size src,
      rq_keep_alive = rq_keep_alive src, rq_client_ip = rq_client_ip src,
      rq_max_body_size_limit = uninitialised\<rparr>"

definition HttpRequest_assign :: "http_request \<Rightarrow> http_request \<Rightarrow> http_request" where
  "HttpRequest_assign this src =
     this\<lparr>sp_buffer := sp_buffer src, sp_read_pos := sp_read_pos src, sp_state := sp_state src,
      rq_method := rq_method src, rq_uri := rq_uri src, rq_query_string := rq_query_string src,
      rq_host_name := rq_host_name src, rq_host_port := rq_host_port src,
      rq_version := rq_version src, rq_headers := rq_headers src, rq_body := rq_body src,
      rq_content_length := rq_content_length src, rq_next_chunk_size := rq_next_chunk_size src,
      rq_keep_alive := rq_keep_alive src, rq_client_ip := rq_client_ip src,
      rq_max_body_size_limit := rq_max_body_size_limit src\<rparr>"

definition SetMaxBodySizeLimit :: "nat \<Rightarrow> http_request \<Rightarrow> http_request" where
  "SetMaxBodySizeLimit bytes r = r\<lparr>rq_max_body_size_limit := bytes\<rparr>"

definition SetClientIp :: "string \<Rightarrow> http_request \<Rightarrow> http_request" where
  "SetClientIp ip r = r\<lparr>rq_client_ip := ip\<rparr>"

definition IsDone :: "http_request \<Rightarrow> bool" where
  "IsDone r \<longleftrightarrow> sp_state r = kDone"

definition GetHeader :: "http_request \<Rightarrow> string \<Rightarrow> string option" where
  "GetHeader r key = map_get (rq_headers r) key"

definition HttpRequest_IsStrictCrlf :: bool where
  "HttpRequest_IsStrictCrlf = True"

subsection \<open>Request line\<close>

definition ConsumeMethod :: "http_request \<Rightarrow> string \<Rightarrow> exn + http_request \<times> string" where
  "ConsumeMethod r req =
     (if deref req = CHR ''G'' \<and> prefix ''GET '' req
        then Inr (r\<lparr>rq_method := kGet\<rparr>, drop 4 req)
      else if deref req = CHR ''H'' \<and> prefix ''HEAD '' req
        then Inr (r\<lparr>rq_method := kHead\<rparr>, drop 5 req)
      else if deref req = CHR ''P'' \<and> prefix ''POST '' req
        then Inr (r\<lparr>rq_method := kPost\<rparr>, drop 5 req)
      else if deref req = CHR ''D'' \<and> prefix ''DELETE '' req
        then Inr (r\<lparr>rq_method := kDelete\<rparr>, drop 7 req)
      else throw_status kNotImplemented)"

text \<open>\<open>BumpOrThrow\<close> of the URI only checks: the caller has counted.\<close>

definition BumpOrThrow :: "nat \<Rightarrow> exn + unit" where
  "BumpOrThrow len = throw_if (kMaxUriSize \<le> len) (ResponseStatusException kUriTooLong)"

text \<open>What was read, what is left and the count.\<close>

fun ConsumeUntilStopChar ::
  "string \<Rightarrow> nat \<Rightarrow> string \<Rightarrow> string \<Rightarrow> exn + string \<times> string \<times> nat" where
  "ConsumeUntilStopChar stop_char len acc [] = Inr (acc, [], len)"
| "ConsumeUntilStopChar stop_char len acc (c # req) =
     (if c = NUL \<or> c \<in> set stop_char then Inr (acc, c # req, len)
      else if c = CHR ''#'' then throw_status kBadRequest
      else and_then (BumpOrThrow (len + 1)) (\<lambda>_.
        if \<not> IsVisibleAscii c then throw_status kBadRequest
        else ConsumeUntilStopChar stop_char (len + 1) (acc @ [c]) req))"

definition ConsumeQuery ::
  "http_request \<Rightarrow> string \<Rightarrow> nat \<Rightarrow> exn + http_request \<times> string \<times> nat" where
  "ConsumeQuery r req len =
     and_then (ConsumeUntilStopChar '' '' len [] req) (\<lambda>(query, end, len').
       Inr (r\<lparr>rq_query_string := query\<rparr>, end, len'))"

definition ConsumeUri :: "http_request \<Rightarrow> string \<Rightarrow> exn + http_request \<times> string" where
  "ConsumeUri r req =
     (if deref req \<noteq> CHR ''/'' then throw_status kBadRequest
      else and_then (ConsumeUntilStopChar '' ?'' 0 [] req) (\<lambda>(path, path_stop, len).
        if path = [] \<or> (deref path_stop \<noteq> SP \<and> deref path_stop \<noteq> CHR ''?'')
        then throw_status kBadRequest
        else
          (let r1 = r\<lparr>rq_uri := path\<rparr>
           in and_then
                (if deref path_stop = CHR ''?'' then
                   and_then (BumpOrThrow (len + 1)) (\<lambda>_.
                     and_then (ConsumeQuery r1 (tl path_stop) (len + 1)) (\<lambda>(r2, end, _).
                       Inr (r2, end)))
                 else Inr (r1, path_stop)) (\<lambda>(r2, end).
              if deref end \<noteq> SP then throw_status kBadRequest
              else Inr (r2, tl end)))))"

fun scan_version :: "string \<Rightarrow> string \<Rightarrow> exn + string \<times> string" where
  "scan_version acc [] = Inr (acc, [])"
| "scan_version acc (c # req) =
     (if c = NUL \<or> c = CR then Inr (acc, c # req)
      else if \<not> IsVisibleAscii c then throw_status kBadRequest
      else scan_version (acc @ [c]) req)"

definition ConsumeVersion :: "http_request \<Rightarrow> string \<Rightarrow> exn + http_request \<times> string" where
  "ConsumeVersion r req =
     and_then (scan_version [] req) (\<lambda>(version, q).
       if deref q \<noteq> CR \<or> deref (tl q) \<noteq> LF then throw_status kBadRequest
       else if version \<noteq> ''HTTP/1.1'' \<and> version \<noteq> ''HTTP/1.0'' then throw_status kBadRequest
       else Inr (r\<lparr>rq_version := version\<rparr>, drop 2 q))"

subsection \<open>Header fields\<close>

definition StoreHeader :: "http_request \<Rightarrow> string \<Rightarrow> string \<Rightarrow> exn + http_request" where
  "StoreHeader r raw_key val =
     (let k = ToLowerAscii raw_key
      in if map_has (rq_headers r) k then throw_status kBadRequest
         else Inr (r\<lparr>rq_headers := map_put k val (rq_headers r)\<rparr>))"

definition ValidateAndExtractHost :: "http_request \<Rightarrow> exn + http_request" where
  "ValidateAndExtractHost r =
     (case map_get (rq_headers r) ''host'' of
        None \<Rightarrow> throw_status kBadRequest
      | Some host_value \<Rightarrow>
          (if host_value = [] then throw_status kBadRequest
           else
             (let i = length (takeWhile (\<lambda>c. c \<noteq> CHR '':'') host_value)
              in if i = 0 then throw_status kBadRequest
                 else
                   (let r1 = r\<lparr>rq_host_name := substr host_value 0 i\<rparr>
                    in if i = length host_value then Inr (r1\<lparr>rq_host_port := kDefaultPort\<rparr>)
                       else and_then
                         (Optional_Value (StrToUnsignedShort (drop (i + 1) host_value)))
                         (\<lambda>port. Inr (r1\<lparr>rq_host_port := port\<rparr>))))))"

definition ParseContentLength :: "http_request \<Rightarrow> string \<Rightarrow> exn + http_request" where
  "ParseContentLength r s =
     (case StrToLong s of
        None \<Rightarrow> throw_status kBadRequest
      | Some len \<Rightarrow>
          (if len < 0 \<or> kMaxPayloadSize < nat len then throw_status kBadRequest
           else Inr (r\<lparr>rq_content_length := len\<rparr>)))"

definition ParseTransferEncoding :: "http_request \<Rightarrow> string \<Rightarrow> exn + http_request" where
  "ParseTransferEncoding r s =
     (if s = ''chunked'' then Inr (r\<lparr>rq_content_length := -1\<rparr>)
      else throw_status kNotImplemented)"

text \<open>\<open>headers_["content-length"]\<close> is read only where \<open>count\<close> has found the key.\<close>

definition ValidateBodyHeaders :: "http_request \<Rightarrow> exn + http_request" where
  "ValidateBodyHeaders r =
     (let cl = map_get (rq_headers r) ''content-length'';
          te = map_get (rq_headers r) ''transfer-encoding''
      in if cl \<noteq> None \<and> te \<noteq> None then throw_status kBadRequest
         else case cl of
           Some s \<Rightarrow>
             and_then (ParseContentLength r s) (\<lambda>r1.
               if 0 \<le> rq_content_length r1 \<and>
                  rq_max_body_size_limit r1 < nat (rq_content_length r1)
               then throw_status kPayloadTooLarge
               else Inr r1)
         | None \<Rightarrow>
             (case te of
                Some s \<Rightarrow> ParseTransferEncoding r s
              | None \<Rightarrow> Inr (r\<lparr>rq_content_length := 0\<rparr>)))"

definition ParseConnectionDirective :: "http_request \<Rightarrow> exn + http_request" where
  "ParseConnectionDirective r =
     (case map_get (rq_headers r) ''connection'' of
        Some v \<Rightarrow>
          (if v = ''close'' then Inr (r\<lparr>rq_keep_alive := False\<rparr>)
           else if v = ''keep-alive'' then Inr (r\<lparr>rq_keep_alive := True\<rparr>)
           else throw_status kBadRequest)
      | None \<Rightarrow> Inr (r\<lparr>rq_keep_alive := (rq_version r = ''HTTP/1.1'')\<rparr>))"

text \<open>The loop over the header lines: the request, the account and what is left.\<close>

function header_lines ::
  "http_request \<Rightarrow> nat \<Rightarrow> string \<Rightarrow> exn + http_request \<times> nat \<times> string" where
  "header_lines r total_len req =
     (if deref req \<noteq> NUL \<and> \<not> IsCRLF req then
        and_then (ReadHeaderLine HttpRequest_IsStrictCrlf kMaxHeaderSize total_len req)
          (\<lambda>(key, val, total', rest).
             and_then (StoreHeader r key val) (\<lambda>r1. header_lines r1 total' rest))
      else Inr (r, total_len, req))"
  by pat_completeness auto
termination
  by (relation "measure (\<lambda>(_, _, req). length req)")
     (auto dest: ReadHeaderLine_shorter)

declare header_lines.simps [simp del]

definition ConsumeHeader :: "http_request \<Rightarrow> string \<Rightarrow> exn + http_request \<times> string" where
  "ConsumeHeader r req =
     and_then (header_lines r 0 req) (\<lambda>(r1, total_len, q).
       if \<not> IsCRLF q then throw_status kBadRequest
       else and_then (BumpLenOrThrow total_len 2 kMaxHeaderSize) (\<lambda>_.
         and_then (ValidateAndExtractHost r1) (\<lambda>r2.
           and_then (ValidateBodyHeaders r2) (\<lambda>r3.
             and_then (ParseConnectionDirective r3) (\<lambda>r4. Inr (r4, drop 2 q))))))"

text \<open>The \<open>try\<close> block of \<open>AdvanceHeader\<close>.\<close>

definition ConsumeHead :: "http_request \<Rightarrow> string \<Rightarrow> exn + http_request \<times> string" where
  "ConsumeHead r begin =
     and_then (ConsumeMethod r begin) (\<lambda>(r1, cur1).
       and_then (ConsumeUri r1 cur1) (\<lambda>(r2, cur2).
         and_then (ConsumeVersion r2 cur2) (\<lambda>(r3, cur3). ConsumeHeader r3 cur3)))"

fun rethrow_as_500 :: "exn + 'a \<Rightarrow> exn + 'a" where
  "rethrow_as_500 (Inr x) = Inr x"
| "rethrow_as_500 (Inl (ResponseStatusException s)) = throw_status s"
| "rethrow_as_500 (Inl _) = throw_status kInternalServerError"

definition AdvanceHeader :: "http_request \<Rightarrow> exn + bool \<times> http_request" where
  "AdvanceHeader r =
     (case FindEndOfHeader HttpRequest_IsStrictCrlf (sp_buffer r) of
        None \<Rightarrow> Inr (False, r)
      | Some end_of_header \<Rightarrow>
          and_then (rethrow_as_500 (ConsumeHead r (sp_buffer r))) (\<lambda>(r1, _).
            Inr (True, r1\<lparr>sp_buffer := drop end_of_header (sp_buffer r1), sp_state := kBody\<rparr>)))"

subsection \<open>The texts the consumers accept\<close>

lemma rethrow_Inr [simp]: "rethrow_as_500 m = Inr x \<longleftrightarrow> m = Inr x"
  by (cases m rule: rethrow_as_500.cases) simp_all

lemma rethrow_Inl: "rethrow_as_500 m = Inl e \<Longrightarrow>
    \<exists>s. e = ResponseStatusException s \<and> (m = Inl e \<or> s = kInternalServerError)"
  by (cases m rule: rethrow_as_500.cases) auto

definition method_text :: "http_method \<Rightarrow> string" where
  "method_text m = MethodToString m @ '' ''"

definition known_method :: "http_method \<Rightarrow> bool" where
  "known_method m \<longleftrightarrow> m = kGet \<or> m = kHead \<or> m = kPost \<or> m = kDelete"

lemma ConsumeMethod_Inr:
  "ConsumeMethod r p = Inr (r', q) \<longleftrightarrow>
     (\<exists>m. known_method m \<and> p = method_text m @ q \<and> r' = r\<lparr>rq_method := m\<rparr>)"
  (is "?l \<longleftrightarrow> ?r")
proof
  assume l: ?l
  have cut: "p = pre @ drop n p" if "prefix pre p" and "n = length pre" for pre n
    using that by (auto simp: prefix_def)
  consider "prefix ''GET '' p" "r' = r\<lparr>rq_method := kGet\<rparr>" "q = drop 4 p"
    | "prefix ''HEAD '' p" "r' = r\<lparr>rq_method := kHead\<rparr>" "q = drop 5 p"
    | "prefix ''POST '' p" "r' = r\<lparr>rq_method := kPost\<rparr>" "q = drop 5 p"
    | "prefix ''DELETE '' p" "r' = r\<lparr>rq_method := kDelete\<rparr>" "q = drop 7 p"
    using l by (auto simp: ConsumeMethod_def split: if_splits)
  then show ?r
  proof cases
    case 1
    with cut [of "''GET ''" 4] show ?thesis
      by (intro exI [of _ kGet]) (simp add: known_method_def method_text_def)
  next
    case 2
    with cut [of "''HEAD ''" 5] show ?thesis
      by (intro exI [of _ kHead]) (simp add: known_method_def method_text_def)
  next
    case 3
    with cut [of "''POST ''" 5] show ?thesis
      by (intro exI [of _ kPost]) (simp add: known_method_def method_text_def)
  next
    case 4
    with cut [of "''DELETE ''" 7] show ?thesis
      by (intro exI [of _ kDelete]) (simp add: known_method_def method_text_def)
  qed
next
  assume ?r
  then show ?l by (auto simp: known_method_def method_text_def ConsumeMethod_def)
qed

lemma ConsumeMethod_Inl:
  "ConsumeMethod r p = Inl e \<Longrightarrow> e = ResponseStatusException kNotImplemented"
  by (auto simp: ConsumeMethod_def split: if_splits)

text \<open>Bytes of a URI or a query.\<close>

definition uri_bytes :: "string \<Rightarrow> string \<Rightarrow> bool" where
  "uri_bytes stop_char u \<longleftrightarrow> (\<forall>c\<in>set u. IsVisibleAscii c \<and> c \<noteq> CHR ''#'' \<and> c \<notin> set stop_char)"

lemma uri_bytes_simps [simp]:
  "uri_bytes stop []"
  "uri_bytes stop (c # u) \<longleftrightarrow>
     IsVisibleAscii c \<and> c \<noteq> CHR ''#'' \<and> c \<notin> set stop \<and> uri_bytes stop u"
  by (auto simp: uri_bytes_def)

lemma uri_bytes_no_break: "uri_bytes stop u \<Longrightarrow> CR \<notin> set u \<and> LF \<notin> set u"
  unfolding uri_bytes_def using not_visible by blast

lemma BumpOrThrow_eq: "BumpOrThrow len = Inr u \<longleftrightarrow> len < kMaxUriSize"
  by (simp add: BumpOrThrow_def not_le)

lemma ConsumeUntilStopChar_Inr:
  "ConsumeUntilStopChar stop len acc p = Inr (acc', q, len') \<longleftrightarrow>
     (\<exists>u. p = u @ q \<and> acc' = acc @ u \<and> uri_bytes stop u \<and> len' = len + length u \<and>
        (u = [] \<or> len' < kMaxUriSize) \<and> (deref q = NUL \<or> deref q \<in> set stop))"
proof (induction p arbitrary: len acc)
  case (Cons c p)
  show ?case
  proof (cases "c = NUL \<or> c \<in> set stop \<or> c = CHR ''#'' \<or> \<not> IsVisibleAscii c \<or> \<not> len + 1 < kMaxUriSize")
    case True
    then show ?thesis
      unfolding ex_Cons_append by (auto simp: and_then_Inr_iff BumpOrThrow_eq)
  next
    case False
    then have "ConsumeUntilStopChar stop len acc (c # p) = Inr (acc', q, len') \<longleftrightarrow>
        ConsumeUntilStopChar stop (len + 1) (acc @ [c]) p = Inr (acc', q, len')"
      by (simp add: BumpOrThrow_def)
    with Cons.IH [of "len + 1" "acc @ [c]"] False show ?thesis
      unfolding ex_Cons_append by auto
  qed
qed auto

text \<open>The two forms of a request target: a path, or a path and a query.\<close>

fun target_text :: "string \<Rightarrow> string option \<Rightarrow> string" where
  "target_text path None = path"
| "target_text path (Some query) = path @ ''?'' @ query"

fun valid_target :: "string \<Rightarrow> string option \<Rightarrow> bool" where
  "valid_target path None \<longleftrightarrow>
     deref path = CHR ''/'' \<and> uri_bytes '' ?'' path \<and> length path < kMaxUriSize"
| "valid_target path (Some query) \<longleftrightarrow>
     deref path = CHR ''/'' \<and> uri_bytes '' ?'' path \<and> uri_bytes '' '' query \<and>
     length path + 1 + length query < kMaxUriSize"

fun store_target :: "string \<Rightarrow> string option \<Rightarrow> http_request \<Rightarrow> http_request" where
  "store_target path None r = r\<lparr>rq_uri := path\<rparr>"
| "store_target path (Some query) r = r\<lparr>rq_uri := path, rq_query_string := query\<rparr>"

lemma ConsumeUri_Inr:
  "ConsumeUri r p = Inr (r', q) \<longleftrightarrow>
     (\<exists>path query. valid_target path query \<and> p = target_text path query @ '' '' @ q \<and>
        r' = store_target path query r)"
  (is "?l \<longleftrightarrow> ?r")
proof
  assume ?l
  then obtain path p1 len where c: "ConsumeUntilStopChar '' ?'' 0 [] p = Inr (path, p1, len)"
      and d: "deref p = CHR ''/''" "path \<noteq> []" and p1: "deref p1 = SP \<or> deref p1 = CHR ''?''"
      and l: "and_then
                (if deref p1 = CHR ''?'' then
                   and_then (BumpOrThrow (len + 1)) (\<lambda>_.
                     and_then (ConsumeQuery (r\<lparr>rq_uri := path\<rparr>) (tl p1) (len + 1)) (\<lambda>(r2, end, _).
                       Inr (r2, end)))
                 else Inr (r\<lparr>rq_uri := path\<rparr>, p1)) (\<lambda>(r2, end).
              if deref end \<noteq> SP then throw_status kBadRequest
              else Inr (r2, tl end)) = Inr (r', q)"
    by (auto simp: ConsumeUri_def and_then_Inr_iff Let_def split: if_splits)
  from c have p: "p = path @ p1" "uri_bytes '' ?'' path" "len = length path" "len < kMaxUriSize"
    using d by (auto simp: ConsumeUntilStopChar_Inr)
  have dp: "deref path = CHR ''/''" using d p by (cases path) auto
  show ?r
  proof (cases "deref p1 = CHR ''?''")
    case True
    with l obtain query p2 len2 where bump: "len + 1 < kMaxUriSize"
        and c2: "ConsumeUntilStopChar '' '' (len + 1) [] (tl p1) = Inr (query, p2, len2)"
        and r': "r' = r\<lparr>rq_uri := path, rq_query_string := query\<rparr>" "deref p2 = SP" "q = tl p2"
      by (auto simp: and_then_Inr_iff ConsumeQuery_def BumpOrThrow_eq split: if_splits)
    from c2 have "tl p1 = query @ p2" "uri_bytes '' '' query" "len + 1 + length query < kMaxUriSize"
      using bump by (auto simp: ConsumeUntilStopChar_Inr)
    then have "valid_target path (Some query)" "p = target_text path (Some query) @ '' '' @ q"
      using p dp r' True by (auto simp: deref_eq)
    with r' show ?r by (intro exI [of _ path] exI [of _ "Some query"]) simp
  next
    case False
    with p1 l have "r' = r\<lparr>rq_uri := path\<rparr>" "p1 = SP # q" by (auto simp: deref_eq)
    with p dp show ?r by (intro exI [of _ path] exI [of _ None]) simp
  qed
next
  assume ?r
  then obtain path query where v: "valid_target path query" and p: "p = target_text path query @ '' '' @ q"
      and r': "r' = store_target path query r" by blast
  show ?l
  proof (cases query)
    case None
    then have "ConsumeUntilStopChar '' ?'' 0 [] p = Inr (path, '' '' @ q, length path)"
      using v p by (subst ConsumeUntilStopChar_Inr) auto
    moreover have "path \<noteq> []" "deref p = CHR ''/''" using v p None by (cases path; simp)+
    ultimately show ?l using r' None by (simp add: ConsumeUri_def)
  next
    case (Some qs)
    then have "ConsumeUntilStopChar '' ?'' 0 [] p = Inr (path, ''?'' @ qs @ '' '' @ q, length path)"
      using v p by (subst ConsumeUntilStopChar_Inr) auto
    moreover have "ConsumeUntilStopChar '' '' (length path + 1) [] (qs @ '' '' @ q) =
        Inr (qs, '' '' @ q, length path + 1 + length qs)"
      using v Some by (subst ConsumeUntilStopChar_Inr) auto
    moreover have "BumpOrThrow (length path + 1) = Inr ()" using v Some by (simp add: BumpOrThrow_eq)
    moreover have "path \<noteq> []" "deref p = CHR ''/''" using v p Some by (cases path; simp)+
    ultimately show ?l using r' Some by (simp add: ConsumeUri_def ConsumeQuery_def)
  qed
qed

lemma scan_version_Inr:
  "scan_version acc p = Inr (v, q) \<longleftrightarrow>
     (\<exists>u. p = u @ q \<and> v = acc @ u \<and> (\<forall>c\<in>set u. IsVisibleAscii c) \<and> (deref q = NUL \<or> deref q = CR))"
proof (induction p arbitrary: acc)
  case (Cons c p)
  show ?case
    using Cons.IH [of "acc @ [c]"] unfolding ex_Cons_append by auto
qed auto

definition known_version :: "string \<Rightarrow> bool" where
  "known_version v \<longleftrightarrow> v = ''HTTP/1.1'' \<or> v = ''HTTP/1.0''"

lemma known_version_visible: "known_version v \<Longrightarrow> \<forall>c\<in>set v. IsVisibleAscii c"
  by (auto simp: known_version_def IsVisibleAscii_def)

lemma ConsumeVersion_Inr:
  "ConsumeVersion r p = Inr (r', q) \<longleftrightarrow>
     (\<exists>v. known_version v \<and> p = v @ CRLF @ q \<and> r' = r\<lparr>rq_version := v\<rparr>)"
  (is "?l \<longleftrightarrow> ?r")
proof
  assume ?l
  then show ?r
    by (auto simp: ConsumeVersion_def and_then_Inr_iff scan_version_Inr known_version_def deref_eq
        split: if_splits)
next
  assume ?r
  then obtain v where v: "known_version v" "p = v @ CRLF @ q" "r' = r\<lparr>rq_version := v\<rparr>" by blast
  then have "scan_version [] p = Inr (v, CRLF @ q)"
    using known_version_visible by (subst scan_version_Inr) auto
  with v show ?l by (auto simp: ConsumeVersion_def known_version_def)
qed

definition header_line :: "string \<times> string \<Rightarrow> string" where
  "header_line kv = fst kv @ '': '' @ snd kv"

definition header_block :: "(string \<times> string) list \<Rightarrow> string" where
  "header_block kvs = lines_text (map header_line kvs)"

definition valid_header :: "string \<times> string \<Rightarrow> bool" where
  "valid_header kv \<longleftrightarrow> valid_key (fst kv) \<and> valid_value (snd kv)"

fun store_headers :: "http_request \<Rightarrow> (string \<times> string) list \<Rightarrow> exn + http_request" where
  "store_headers r [] = Inr r"
| "store_headers r (kv # kvs) =
     and_then (StoreHeader r (fst kv) (snd kv)) (\<lambda>r1. store_headers r1 kvs)"

lemma header_block_simps [simp]:
  "header_block [] = []" "header_block (kv # kvs) = header_line kv @ CRLF @ header_block kvs"
  by (simp_all add: header_block_def)

lemma header_line_start:
  "valid_header kv \<Longrightarrow> deref (header_line kv @ q) \<noteq> NUL \<and> deref (header_line kv @ q) \<noteq> CR"
  by (cases "fst kv") (auto simp: header_line_def valid_header_def)

lemma header_line_no_break:
  "valid_header kv \<Longrightarrow> header_line kv \<noteq> [] \<and> CR \<notin> set (header_line kv) \<and> LF \<notin> set (header_line kv)"
  by (auto simp: header_line_def valid_header_def dest: valid_no_break)

lemma kMaxHeaderSize_small: "kMaxHeaderSize < 2 ^ 64"
  by (simp add: kMaxHeaderSize_def)

lemma kMaxHeaderSize_numeral [simp]: "kMaxHeaderSize < 18446744073709551616"
  by (simp add: kMaxHeaderSize_def)

lemma header_lines_Inr:
  assumes "t0 \<le> kMaxHeaderSize"
  shows "header_lines r t0 p = Inr (r', t, q) \<longleftrightarrow>
     (\<exists>kvs. p = header_block kvs @ q \<and> (\<forall>kv\<in>set kvs. valid_header kv) \<and>
        store_headers r kvs = Inr r' \<and> t = t0 + length (header_block kvs) \<and>
        t \<le> kMaxHeaderSize \<and> (deref q = NUL \<or> IsCRLF q))"
  (is "_ \<longleftrightarrow> (\<exists>kvs. ?spec kvs r t0 p)")
  using assms
proof (induction r t0 p rule: header_lines.induct)
  case (1 r t0 p)
  show ?case
  proof (cases "deref p \<noteq> NUL \<and> \<not> IsCRLF p")
    case False
    then have "header_lines r t0 p = Inr (r, t0, p)" by (subst header_lines.simps) auto
    moreover have "\<not> ?spec (kv # kvs) r t0 p" for kv kvs
      using False header_line_start [of kv "CRLF @ header_block kvs @ q"]
      by (auto simp: IsCRLF_def)
    then have "(\<exists>kvs. ?spec kvs r t0 p) \<longleftrightarrow> ?spec [] r t0 p"
      by (metis neq_Nil_conv)
    ultimately show ?thesis using "1.prems" False by auto
  next
    case True
    have unfold: "header_lines r t0 p = Inr (r', t, q) \<longleftrightarrow>
        (\<exists>k v t1 rest r1. ReadHeaderLine True kMaxHeaderSize t0 p = Inr (k, v, t1, rest) \<and>
           StoreHeader r k v = Inr r1 \<and> header_lines r1 t1 rest = Inr (r', t, q))"
      using True
      by (subst header_lines.simps) (auto simp: HttpRequest_IsStrictCrlf_def and_then_Inr_iff)
    note line = ReadHeaderLine_Inr [OF "1.prems" kMaxHeaderSize_small, of True p]
    show ?thesis
    proof
      assume "header_lines r t0 p = Inr (r', t, q)"
      then obtain k v t1 rest r1 where l: "ReadHeaderLine True kMaxHeaderSize t0 p = Inr (k, v, t1, rest)"
          and s: "StoreHeader r k v = Inr r1" and h: "header_lines r1 t1 rest = Inr (r', t, q)"
        unfolding unfold by blast
      from l have p: "p = header_line (k, v) @ CRLF @ rest" "valid_header (k, v)"
          "t1 = t0 + length (header_line (k, v)) + 2" "t1 \<le> kMaxHeaderSize"
        by (auto simp: line line_end_def header_line_def valid_header_def)
      from "1.IH" [OF True, of "(k, v, t1, rest)" k "(v, t1, rest)" v "(t1, rest)" t1 rest r1] l s h p(4)
      obtain kvs where "?spec kvs r1 t1 rest"
        by (auto simp: HttpRequest_IsStrictCrlf_def)
      then show "\<exists>kvs. ?spec kvs r t0 p"
        using p s by (intro exI [of _ "(k, v) # kvs"]) simp
    next
      assume "\<exists>kvs. ?spec kvs r t0 p"
      then obtain kvs where kvs: "?spec kvs r t0 p" by blast
      with True have "kvs \<noteq> []" by auto
      then obtain k v kvs' where c: "kvs = (k, v) # kvs'" by (cases kvs) auto
      let ?t1 = "t0 + length (header_line (k, v)) + 2" and ?rest = "header_block kvs' @ q"
      from kvs c obtain r1 where s: "StoreHeader r k v = Inr r1" "store_headers r1 kvs' = Inr r'"
        by (auto simp: and_then_Inr_iff)
      have l: "ReadHeaderLine True kMaxHeaderSize t0 p = Inr (k, v, ?t1, ?rest)"
        unfolding line using kvs c by (auto simp: line_end_def header_line_def valid_header_def)
      moreover have "header_lines r1 ?t1 ?rest = Inr (r', t, q)"
        using "1.IH" [OF True, of "(k, v, ?t1, ?rest)" k "(v, ?t1, ?rest)" v "(?t1, ?rest)" ?t1 ?rest r1]
          l s kvs c by (auto simp: HttpRequest_IsStrictCrlf_def)
      ultimately show "header_lines r t0 p = Inr (r', t, q)"
        unfolding unfold using s by blast
    qed
  qed
qed

subsection \<open>The header dictionary\<close>

definition put_headers ::
  "(string \<times> string) list \<Rightarrow> (string, string) std_map \<Rightarrow> (string, string) std_map" where
  "put_headers kvs m = fold (\<lambda>(k, v). map_put k v) (map (\<lambda>(k, v). (ToLowerAscii k, v)) kvs) m"

lemma put_headers_simps [simp]:
  "put_headers [] m = m"
  "put_headers (kv # kvs) m = put_headers kvs (map_put (ToLowerAscii (fst kv)) (snd kv) m)"
  by (simp_all add: put_headers_def case_prod_beta)

lemma map_has_put_headers:
  "map_has (put_headers kvs m) k \<longleftrightarrow> map_has m k \<or> k \<in> (\<lambda>kv. ToLowerAscii (fst kv)) ` set kvs"
  by (induction kvs arbitrary: m) auto

text \<open>Storing succeeds exactly when no two names are equal up to case.\<close>

lemma store_headers_Inr:
  "store_headers r kvs = Inr r' \<longleftrightarrow>
     distinct (map (\<lambda>kv. ToLowerAscii (fst kv)) kvs) \<and>
     (\<forall>kv\<in>set kvs. \<not> map_has (rq_headers r) (ToLowerAscii (fst kv))) \<and>
     r' = r\<lparr>rq_headers := put_headers kvs (rq_headers r)\<rparr>"
proof (induction kvs arbitrary: r)
  case (Cons kv kvs)
  let ?k = "ToLowerAscii (fst kv)"
  show ?case
  proof (cases "map_has (rq_headers r) ?k")
    case False
    then have "store_headers r (kv # kvs) = Inr r' \<longleftrightarrow>
        store_headers (r\<lparr>rq_headers := map_put ?k (snd kv) (rq_headers r)\<rparr>) kvs = Inr r'"
      by (simp add: StoreHeader_def Let_def)
    also have "\<dots> \<longleftrightarrow> distinct (map (\<lambda>kv. ToLowerAscii (fst kv)) kvs) \<and>
        (\<forall>kv'\<in>set kvs. ToLowerAscii (fst kv') \<noteq> ?k \<and>
           \<not> map_has (rq_headers r) (ToLowerAscii (fst kv'))) \<and>
        r' = r\<lparr>rq_headers := put_headers (kv # kvs) (rq_headers r)\<rparr>"
      by (subst Cons.IH) simp
    finally show ?thesis using False by (auto simp: image_iff)
  qed (simp add: StoreHeader_def Let_def)
qed auto

lemma put_headers_wf: "map_wf m \<Longrightarrow> map_wf (put_headers kvs m)"
  by (induction kvs arbitrary: m) auto

lemma put_headers_get:
  "map_get (put_headers kvs m) k =
     (case map_of (rev (map (\<lambda>(k, v). (ToLowerAscii k, v)) kvs)) k of
        None \<Rightarrow> map_get m k | Some v \<Rightarrow> Some v)"
  unfolding put_headers_def by (rule std_map.get_fold_put)

lemma put_headers_get_distinct:
  assumes "distinct (map (\<lambda>kv. ToLowerAscii (fst kv)) kvs)"
  shows "map_get (put_headers kvs []) k = map_of (map (\<lambda>(k, v). (ToLowerAscii k, v)) kvs) k"
proof -
  let ?kvs = "map (\<lambda>(k, v). (ToLowerAscii k, v)) kvs"
  have d: "distinct (map fst ?kvs)" using assms by (simp add: o_def case_prod_beta)
  then have "distinct (map fst (rev ?kvs))" by (simp add: rev_map [symmetric])
  with d have "map_of (rev ?kvs) = map_of ?kvs" by (intro map_of_inject_set [THEN iffD2]) simp_all
  then show ?thesis by (simp add: put_headers_get split: option.split)
qed

subsection \<open>The checks after the last header line\<close>

definition finish_headers :: "http_request \<Rightarrow> exn + http_request" where
  "finish_headers r1 =
     and_then (ValidateAndExtractHost r1) (\<lambda>r2.
       and_then (ValidateBodyHeaders r2) ParseConnectionDirective)"

lemmas header_checks = ValidateAndExtractHost_def ValidateBodyHeaders_def ParseContentLength_def
  ParseTransferEncoding_def ParseConnectionDirective_def

lemma ConsumeHeader_Inr:
  "ConsumeHeader r p = Inr (r', q) \<longleftrightarrow>
     (\<exists>kvs r1. p = header_block kvs @ CRLF @ q \<and> (\<forall>kv\<in>set kvs. valid_header kv) \<and>
        store_headers r kvs = Inr r1 \<and> length (header_block kvs) + 2 \<le> kMaxHeaderSize \<and>
        finish_headers r1 = Inr r')"
  (is "?l \<longleftrightarrow> ?r")
proof
  have lines: "header_lines r 0 p = Inr (r1, t, q') \<longleftrightarrow>
     (\<exists>kvs. p = header_block kvs @ q' \<and> (\<forall>kv\<in>set kvs. valid_header kv) \<and>
        store_headers r kvs = Inr r1 \<and> t = length (header_block kvs) \<and>
        t \<le> kMaxHeaderSize \<and> (deref q' = NUL \<or> IsCRLF q'))" for r1 t q'
    by (subst header_lines_Inr) simp_all
  show ?r if ?l
  proof -
    from that obtain r1 t q' where h: "header_lines r 0 p = Inr (r1, t, q')"
        and q': "IsCRLF q'" "q = drop 2 q'" and b: "\<exists>t'. BumpLenOrThrow t 2 kMaxHeaderSize = Inr t'"
        and f: "finish_headers r1 = Inr r'"
      by (auto simp: ConsumeHeader_def and_then_Inr_iff finish_headers_def split: if_splits)
    from h obtain kvs where "p = header_block kvs @ q'" "\<forall>kv\<in>set kvs. valid_header kv"
        "store_headers r kvs = Inr r1" "t = length (header_block kvs)" "t \<le> kMaxHeaderSize"
      unfolding lines by blast
    moreover from this b have "t + 2 \<le> kMaxHeaderSize"
      using BumpLenOrThrow_eq [of t kMaxHeaderSize 2] by (auto split: if_splits)
    ultimately show ?r
      using q' f by (intro exI [of _ kvs] exI [of _ r1]) (auto simp: IsCRLF_iff)
  qed
  show ?l if ?r
  proof -
    from that obtain kvs r1 where k: "p = header_block kvs @ CRLF @ q" "\<forall>kv\<in>set kvs. valid_header kv"
        "store_headers r kvs = Inr r1" "length (header_block kvs) + 2 \<le> kMaxHeaderSize"
        and f: "finish_headers r1 = Inr r'" by blast
    then have "header_lines r 0 p = Inr (r1, length (header_block kvs), CRLF @ q)"
      unfolding lines by (auto simp: IsCRLF_def)
    with k f show ?l
      by (auto simp: ConsumeHeader_def IsCRLF_def BumpLenOrThrow_eq finish_headers_def and_then_Inr_iff)
  qed
qed

text \<open>What the checks write, and that they look at the header fields only.\<close>

lemma ValidateAndExtractHost_frame:
  "ValidateAndExtractHost r = Inr r' \<Longrightarrow>
     r' = r\<lparr>rq_host_name := rq_host_name r', rq_host_port := rq_host_port r'\<rparr>"
  by (auto simp: ValidateAndExtractHost_def and_then_Inr_iff Let_def split: option.splits if_splits)

lemma ValidateBodyHeaders_frame:
  "ValidateBodyHeaders r = Inr r' \<Longrightarrow> r' = r\<lparr>rq_content_length := rq_content_length r'\<rparr>"
  by (auto simp: ValidateBodyHeaders_def ParseContentLength_def ParseTransferEncoding_def
      and_then_Inr_iff Let_def split: option.splits if_splits)

lemma ParseConnectionDirective_frame:
  "ParseConnectionDirective r = Inr r' \<Longrightarrow> r' = r\<lparr>rq_keep_alive := rq_keep_alive r'\<rparr>"
  by (auto simp: ParseConnectionDirective_def split: option.splits if_splits)

lemma finish_headers_frame:
  assumes "finish_headers r = Inr r'"
  shows "\<exists>h p c k. r' = r\<lparr>rq_host_name := h, rq_host_port := p, rq_content_length := c, rq_keep_alive := k\<rparr>"
proof -
  obtain r2 r3 where "ValidateAndExtractHost r = Inr r2" "ValidateBodyHeaders r2 = Inr r3"
      "ParseConnectionDirective r3 = Inr r'"
    using assms by (auto simp: finish_headers_def and_then_Inr_iff)
  then have "r2 = r\<lparr>rq_host_name := rq_host_name r2, rq_host_port := rq_host_port r2\<rparr>"
      "r3 = r2\<lparr>rq_content_length := rq_content_length r3\<rparr>" "r' = r3\<lparr>rq_keep_alive := rq_keep_alive r'\<rparr>"
    by (blast dest: ValidateAndExtractHost_frame ValidateBodyHeaders_frame ParseConnectionDirective_frame)+
  then show ?thesis by metis
qed

text \<open>None of them reads the buffer.\<close>

lemma ValidateAndExtractHost_buffer:
  "ValidateAndExtractHost (append_data d r) = map_sum id (append_data d) (ValidateAndExtractHost r)"
  by (cases "StrToUnsignedShort (drop (length (takeWhile (\<lambda>c. c \<noteq> CHR '':'')
        (the (map_get (rq_headers r) ''host''))) + 1) (the (map_get (rq_headers r) ''host'')))";
      cases "map_get (rq_headers r) ''host''")
     (simp_all add: ValidateAndExtractHost_def append_data_def Let_def)

lemma ValidateBodyHeaders_buffer:
  "ValidateBodyHeaders (append_data d r) = map_sum id (append_data d) (ValidateBodyHeaders r)"
  by (simp add: ValidateBodyHeaders_def ParseContentLength_def ParseTransferEncoding_def
      append_data_def Let_def split: option.split)

lemma ParseConnectionDirective_buffer:
  "ParseConnectionDirective (append_data d r) = map_sum id (append_data d) (ParseConnectionDirective r)"
  by (simp add: ParseConnectionDirective_def append_data_def split: option.split)

lemma and_then_map_sum: "and_then (map_sum id g m) f = and_then m (\<lambda>x. f (g x))"
  by (cases m) simp_all

lemma finish_headers_buffer:
  "finish_headers (append_data d r) = map_sum id (append_data d) (finish_headers r)"
  by (cases "ValidateAndExtractHost r")
     (auto simp: finish_headers_def ValidateAndExtractHost_buffer ValidateBodyHeaders_buffer
      ParseConnectionDirective_buffer and_then_map_sum and_then_def split: sum.split)

subsection \<open>The head of a request\<close>

definition request_line :: "http_method \<Rightarrow> string \<Rightarrow> string option \<Rightarrow> string \<Rightarrow> string" where
  "request_line m path query v = method_text m @ target_text path query @ '' '' @ v"

definition head_text ::
  "http_method \<Rightarrow> string \<Rightarrow> string option \<Rightarrow> string \<Rightarrow> (string \<times> string) list \<Rightarrow> string" where
  "head_text m path query v kvs = request_line m path query v @ CRLF @ header_block kvs @ CRLF"

definition valid_head ::
  "http_method \<Rightarrow> string \<Rightarrow> string option \<Rightarrow> string \<Rightarrow> (string \<times> string) list \<Rightarrow> bool" where
  "valid_head m path query v kvs \<longleftrightarrow>
     known_method m \<and> valid_target path query \<and> known_version v \<and>
     (\<forall>kv\<in>set kvs. valid_header kv) \<and> length (header_block kvs) + 2 \<le> kMaxHeaderSize"

definition store_line ::
  "http_method \<Rightarrow> string \<Rightarrow> string option \<Rightarrow> string \<Rightarrow> http_request \<Rightarrow> http_request" where
  "store_line m path query v r = (store_target path query (r\<lparr>rq_method := m\<rparr>))\<lparr>rq_version := v\<rparr>"

text \<open>The heads the parser accepts, and the request it makes of one.\<close>

lemma ConsumeHead_Inr:
  "ConsumeHead r p = Inr (r', q) \<longleftrightarrow>
     (\<exists>m path query v kvs. valid_head m path query v kvs \<and> p = head_text m path query v kvs @ q \<and>
        (\<exists>r1. store_headers (store_line m path query v r) kvs = Inr r1 \<and> finish_headers r1 = Inr r'))"
  (is "?l \<longleftrightarrow> ?r")
proof
  assume ?l
  then obtain r1 p1 r2 p2 r3 p3 where "ConsumeMethod r p = Inr (r1, p1)"
      "ConsumeUri r1 p1 = Inr (r2, p2)" "ConsumeVersion r2 p2 = Inr (r3, p3)"
      "ConsumeHeader r3 p3 = Inr (r', q)"
    by (auto simp: ConsumeHead_def and_then_Inr_iff)
  then obtain m path query v kvs r4 where
      "known_method m" "p = method_text m @ p1" "r1 = r\<lparr>rq_method := m\<rparr>"
      "valid_target path query" "p1 = target_text path query @ '' '' @ p2" "r2 = store_target path query r1"
      "known_version v" "p2 = v @ CRLF @ p3" "r3 = r2\<lparr>rq_version := v\<rparr>"
      "p3 = header_block kvs @ CRLF @ q" "\<forall>kv\<in>set kvs. valid_header kv"
      "length (header_block kvs) + 2 \<le> kMaxHeaderSize"
      "store_headers r3 kvs = Inr r4" "finish_headers r4 = Inr r'"
    unfolding ConsumeMethod_Inr ConsumeUri_Inr ConsumeVersion_Inr ConsumeHeader_Inr by blast
  then show ?r
    by (intro exI [of _ m] exI [of _ path] exI [of _ query] exI [of _ v] exI [of _ kvs])
       (simp add: valid_head_def head_text_def request_line_def store_line_def)
next
  assume ?r
  then obtain m path query v kvs r1 where h: "valid_head m path query v kvs"
      and p: "p = head_text m path query v kvs @ q"
      and s: "store_headers (store_line m path query v r) kvs = Inr r1" "finish_headers r1 = Inr r'"
    by blast
  let ?p3 = "header_block kvs @ CRLF @ q"
  let ?p2 = "v @ CRLF @ ?p3"
  let ?p1 = "target_text path query @ '' '' @ ?p2"
  have "ConsumeMethod r p = Inr (r\<lparr>rq_method := m\<rparr>, ?p1)"
    unfolding ConsumeMethod_Inr using h p
    by (auto simp: valid_head_def head_text_def request_line_def)
  moreover have "ConsumeUri (r\<lparr>rq_method := m\<rparr>) ?p1 = Inr (store_target path query (r\<lparr>rq_method := m\<rparr>), ?p2)"
    unfolding ConsumeUri_Inr using h valid_head_def by blast
  moreover have "ConsumeVersion (store_target path query (r\<lparr>rq_method := m\<rparr>)) ?p2 =
      Inr (store_line m path query v r, ?p3)"
    unfolding ConsumeVersion_Inr store_line_def using h valid_head_def by blast
  moreover have "ConsumeHeader (store_line m path query v r) ?p3 = Inr (r', q)"
    unfolding ConsumeHeader_Inr using h s valid_head_def by blast
  ultimately show ?l by (simp add: ConsumeHead_def)
qed

lemma request_line_no_break:
  assumes "known_method m" and "valid_target path query" and "known_version v"
  shows "request_line m path query v \<noteq> [] \<and> CR \<notin> set (request_line m path query v)"
proof -
  have "CR \<notin> set (method_text m)" using assms(1) by (auto simp: known_method_def method_text_def)
  moreover have "CR \<notin> set (target_text path query)"
    using assms(2) by (cases query) (auto dest: uri_bytes_no_break)
  moreover have "CR \<notin> set v" using assms(3) by (auto simp: known_version_def)
  ultimately show ?thesis by (simp add: request_line_def)
qed

text \<open>The end of the header that \<open>FindEndOfHeader\<close> finds is where the consumers stop.\<close>

lemma FindEndOfHeader_head:
  assumes "valid_head m path query v kvs"
  shows "FindEndOfHeader True (head_text m path query v kvs @ q) = Some (length (head_text m path query v kvs))"
proof -
  let ?ls = "request_line m path query v # map header_line kvs"
  have "\<forall>l\<in>set ?ls. l \<noteq> [] \<and> CR \<notin> set l"
    using assms request_line_no_break header_line_no_break by (auto simp: valid_head_def)
  from FindEndOfHeader_lines [OF _ this, of True q] show ?thesis
    by (simp add: head_text_def header_block_def)
qed

lemma store_headers_frame: "store_headers r kvs = Inr r1 \<Longrightarrow> \<exists>m. r1 = r\<lparr>rq_headers := m\<rparr>"
  by (auto simp: store_headers_Inr)

lemma store_line_sel [simp]:
  "sp_buffer (store_line m path query v r) = sp_buffer r"
  "sp_state (store_line m path query v r) = sp_state r"
  "sp_read_pos (store_line m path query v r) = sp_read_pos r"
  "rq_headers (store_line m path query v r) = rq_headers r"
  "rq_body (store_line m path query v r) = rq_body r"
  "rq_next_chunk_size (store_line m path query v r) = rq_next_chunk_size r"
  "rq_max_body_size_limit (store_line m path query v r) = rq_max_body_size_limit r"
  by (cases query; simp add: store_line_def)+

text \<open>Reading a head leaves the parser's own fields and the body alone.\<close>

lemma head_frame:
  assumes "store_headers (store_line m path query v r) kvs = Inr r1" and "finish_headers r1 = Inr r'"
  shows "sp_buffer r' = sp_buffer r" "sp_state r' = sp_state r" "sp_read_pos r' = sp_read_pos r"
    "rq_body r' = rq_body r" "rq_next_chunk_size r' = rq_next_chunk_size r"
    "rq_max_body_size_limit r' = rq_max_body_size_limit r"
    "rq_headers r' = put_headers kvs (rq_headers r)"
  using finish_headers_frame [OF assms(2)] assms(1) by (auto simp: store_headers_Inr)

lemma AdvanceHeader_True:
  "AdvanceHeader r = Inr (True, r') \<longleftrightarrow>
     (\<exists>m path query v kvs q r1 r2. valid_head m path query v kvs \<and>
        sp_buffer r = head_text m path query v kvs @ q \<and>
        store_headers (store_line m path query v r) kvs = Inr r1 \<and> finish_headers r1 = Inr r2 \<and>
        r' = r2\<lparr>sp_buffer := q, sp_state := kBody\<rparr>)"
  (is "?l \<longleftrightarrow> ?r")
proof
  assume ?l
  then obtain e r2 q where e: "FindEndOfHeader True (sp_buffer r) = Some e"
      and h: "ConsumeHead r (sp_buffer r) = Inr (r2, q)"
      and r': "r' = r2\<lparr>sp_buffer := drop e (sp_buffer r2), sp_state := kBody\<rparr>"
    by (auto simp: AdvanceHeader_def HttpRequest_IsStrictCrlf_def and_then_Inr_iff split: option.splits)
  from h obtain m path query v kvs r1 where v: "valid_head m path query v kvs"
      and b: "sp_buffer r = head_text m path query v kvs @ q"
      and s: "store_headers (store_line m path query v r) kvs = Inr r1" "finish_headers r1 = Inr r2"
    unfolding ConsumeHead_Inr by blast
  have "drop e (sp_buffer r2) = q"
    using e b FindEndOfHeader_head [OF v, of q] head_frame(1) [OF s] by simp
  with v b s r' show ?r by blast
next
  assume ?r
  then obtain m path query v kvs q r1 r2 where v: "valid_head m path query v kvs"
      and b: "sp_buffer r = head_text m path query v kvs @ q"
      and s: "store_headers (store_line m path query v r) kvs = Inr r1" "finish_headers r1 = Inr r2"
      and r': "r' = r2\<lparr>sp_buffer := q, sp_state := kBody\<rparr>" by blast
  have "ConsumeHead r (sp_buffer r) = Inr (r2, q)" unfolding ConsumeHead_Inr using v b s by blast
  moreover have "FindEndOfHeader True (sp_buffer r) = Some (length (head_text m path query v kvs))"
    using FindEndOfHeader_head [OF v] b by simp
  ultimately show ?l
    using head_frame(1) [OF s] b r' by (simp add: AdvanceHeader_def HttpRequest_IsStrictCrlf_def)
qed

subsection \<open>More data does not change a header that has been read\<close>

lemma store_headers_buffer:
  "store_headers (append_data d r) kvs = map_sum id (append_data d) (store_headers r kvs)"
proof (induction kvs arbitrary: r)
  case (Cons kv kvs)
  have "StoreHeader (append_data d r) k v = map_sum id (append_data d) (StoreHeader r k v)" for k v
    by (simp add: StoreHeader_def append_data_def Let_def)
  with Cons show ?case by (cases "StoreHeader r (fst kv) (snd kv)") (simp_all add: and_then_def)
qed simp

lemma store_line_buffer:
  "store_line m path query v (append_data d r) = append_data d (store_line m path query v r)"
  by (cases query) (simp_all add: store_line_def append_data_def)

lemma AdvanceHeader_append:
  assumes "AdvanceHeader r = Inr (True, r')"
  shows "AdvanceHeader (append_data d r) = Inr (True, append_data d r')"
proof -
  from assms obtain m path query v kvs q r1 r2 where v: "valid_head m path query v kvs"
      and b: "sp_buffer r = head_text m path query v kvs @ q"
      and s: "store_headers (store_line m path query v r) kvs = Inr r1" "finish_headers r1 = Inr r2"
      and r': "r' = r2\<lparr>sp_buffer := q, sp_state := kBody\<rparr>"
    unfolding AdvanceHeader_True by blast
  have "sp_buffer (append_data d r) = head_text m path query v kvs @ (q @ d)" using b by simp
  moreover have "store_headers (store_line m path query v (append_data d r)) kvs = Inr (append_data d r1)"
    using s by (simp add: store_line_buffer store_headers_buffer)
  moreover have "finish_headers (append_data d r1) = Inr (append_data d r2)"
    using s by (simp add: finish_headers_buffer)
  moreover have "append_data d r' = (append_data d r2)\<lparr>sp_buffer := q @ d, sp_state := kBody\<rparr>"
    using r' by (simp add: append_data_def)
  ultimately show ?thesis unfolding AdvanceHeader_True using v by blast
qed

lemma AdvanceHeader_False: "AdvanceHeader r = Inr (False, r') \<Longrightarrow> r' = r"
  by (auto simp: AdvanceHeader_def and_then_Inr_iff split: option.splits)

subsection \<open>The errors of the header\<close>

definition head_statuses :: "status set" where
  "head_statuses = {kBadRequest, kPayloadTooLarge, kUriTooLong, kRequestHeaderFieldsTooLarge,
     kNotImplemented}"

definition head_error :: "exn \<Rightarrow> bool" where
  "head_error e \<longleftrightarrow> (\<exists>s\<in>head_statuses. e = ResponseStatusException s)"

lemma head_error_intros [simp]:
  "head_error (ResponseStatusException kBadRequest)"
  "head_error (ResponseStatusException kPayloadTooLarge)"
  "head_error (ResponseStatusException kUriTooLong)"
  "head_error (ResponseStatusException kRequestHeaderFieldsTooLarge)"
  "head_error (ResponseStatusException kNotImplemented)"
  by (simp_all add: head_error_def head_statuses_def)

lemma BumpLenOrThrow_error: "BumpLenOrThrow t n m = Inl e \<Longrightarrow> head_error e"
  by (auto simp: BumpLenOrThrow_def split: if_splits)

lemma BumpOrThrow_error: "BumpOrThrow n = Inl e \<Longrightarrow> head_error e"
  by (auto simp: BumpOrThrow_def)

lemma ConsumeUntilStopChar_error: "ConsumeUntilStopChar stop len acc p = Inl e \<Longrightarrow> head_error e"
  by (induction stop len acc p rule: ConsumeUntilStopChar.induct)
     (auto simp: and_then_Inl_iff BumpOrThrow_eq dest: BumpOrThrow_error split: if_splits)

lemma ConsumeUri_error: "ConsumeUri r p = Inl e \<Longrightarrow> head_error e"
  by (auto simp: ConsumeUri_def ConsumeQuery_def and_then_Inl_iff Let_def
      dest: ConsumeUntilStopChar_error BumpOrThrow_error split: if_splits)

lemma scan_version_error: "scan_version acc p = Inl e \<Longrightarrow> head_error e"
  by (induction acc p rule: scan_version.induct) (auto split: if_splits)

lemma ConsumeVersion_error: "ConsumeVersion r p = Inl e \<Longrightarrow> head_error e"
  by (auto simp: ConsumeVersion_def and_then_Inl_iff dest: scan_version_error split: if_splits)

lemma read_key_error: "read_key m t key p = Inl e \<Longrightarrow> head_error e"
  by (induction m t key p rule: read_key.induct)
     (auto simp: and_then_Inl_iff dest: BumpLenOrThrow_error split: if_splits)

lemma read_value_error: "read_value m t v0 p = Inl e \<Longrightarrow> head_error e"
  by (induction m t v0 p rule: read_value.induct)
     (auto simp: and_then_Inl_iff dest: BumpLenOrThrow_error split: if_splits)

lemma ReadHeaderLine_error: "ReadHeaderLine strict m t p = Inl e \<Longrightarrow> head_error e"
  by (auto simp: ReadHeaderLine_def and_then_Inl_iff
      dest: read_key_error read_value_error BumpLenOrThrow_error split: if_splits)

lemma header_lines_error: "header_lines r t p = Inl e \<Longrightarrow> head_error e"
proof (induction r t p rule: header_lines.induct)
  case (1 r t p)
  then show ?case
    by (subst (asm) (2) header_lines.simps)
       (auto simp: and_then_Inl_iff StoreHeader_def Let_def dest: ReadHeaderLine_error split: if_splits)
qed

lemma finish_headers_error:
  "finish_headers r = Inl e \<Longrightarrow> head_error e \<or> e = BadOptionalAccess"
proof -
  have "ValidateAndExtractHost r = Inl e \<Longrightarrow> head_error e \<or> e = BadOptionalAccess" for r
    by (auto simp: ValidateAndExtractHost_def Let_def and_then_Inl_iff Optional_Value_def
        split: option.splits if_splits)
  moreover have "ValidateBodyHeaders r = Inl e \<Longrightarrow> head_error e" for r
    by (auto simp: ValidateBodyHeaders_def ParseContentLength_def ParseTransferEncoding_def Let_def
        and_then_Inl_iff split: option.splits if_splits)
  moreover have "ParseConnectionDirective r = Inl e \<Longrightarrow> head_error e" for r
    by (auto simp: ParseConnectionDirective_def split: option.splits if_splits)
  ultimately show "finish_headers r = Inl e \<Longrightarrow> head_error e \<or> e = BadOptionalAccess"
    by (auto simp: finish_headers_def and_then_Inl_iff)
qed

lemma ConsumeHeader_error:
  "ConsumeHeader r p = Inl e \<Longrightarrow> head_error e \<or> e = BadOptionalAccess"
proof -
  assume "ConsumeHeader r p = Inl e"
  then consider "header_lines r 0 p = Inl e" | "e = ResponseStatusException kBadRequest"
    | t where "BumpLenOrThrow t 2 kMaxHeaderSize = Inl e" | r1 where "finish_headers r1 = Inl e"
    by (auto simp: ConsumeHeader_def finish_headers_def and_then_Inl_iff split: if_splits)
  then show ?thesis
    by cases (auto dest: header_lines_error BumpLenOrThrow_error finish_headers_error)
qed

lemma ConsumeHead_error: "ConsumeHead r p = Inl e \<Longrightarrow> head_error e \<or> e = BadOptionalAccess"
  by (auto simp: ConsumeHead_def and_then_Inl_iff dest!: ConsumeMethod_Inl ConsumeUri_error
      ConsumeVersion_error ConsumeHeader_error)

lemma AdvanceHeader_error:
  assumes "AdvanceHeader r = Inl e"
  shows "head_error e \<or> e = ResponseStatusException kInternalServerError"
proof -
  have "rethrow_as_500 (ConsumeHead r (sp_buffer r)) = Inl e"
    using assms by (auto simp: AdvanceHeader_def and_then_Inl_iff split: option.splits)
  then show ?thesis
    using ConsumeHead_error [of r "sp_buffer r"]
    by (cases "ConsumeHead r (sp_buffer r)" rule: rethrow_as_500.cases) auto
qed

end
