(* ===== verification/Memory_Os.thy ===== *)
theory Memory_Os
  imports File_Utils
begin

text \<open>
  A small concrete operating system: files in a function, no network, every other call succeeds in the
  plainest way. It stands for the parameter in the witnesses, and shows that the documented
  behaviour which the properties assume can be had.
\<close>

type_synonym files = "string \<Rightarrow> node option"

definition mem_stat :: "string \<Rightarrow> files \<Rightarrow> (int + file_kind) \<times> files" where
  "mem_stat p w =
     (case w p of
        None \<Rightarrow> (Inl 2, w) | Some Other_node \<Rightarrow> (Inr Directory, w) | Some (File c) \<Rightarrow> (Inr RegularFile, w))"

definition mem_read_file :: "string \<Rightarrow> files \<Rightarrow> (int + string) \<times> files" where
  "mem_read_file p w =
     (case w p of None \<Rightarrow> (Inl 2, w) | Some Other_node \<Rightarrow> (Inl 21, w) | Some (File c) \<Rightarrow> (Inr c, w))"

definition mem_write_file :: "string \<Rightarrow> string \<Rightarrow> files \<Rightarrow> bool \<times> files" where
  "mem_write_file p d w =
     (case w p of Some (File c) \<Rightarrow> (True, w(p \<mapsto> File (c @ d))) | _ \<Rightarrow> (False, w))"

definition memory_os :: "files os" where
  "memory_os =
     \<lparr>os_stat = mem_stat,
      os_access = (\<lambda>p mode w. (if w p \<noteq> None then None else Some 2, w)),
      os_read_file = mem_read_file,
      os_open_write = (\<lambda>p w. if w p = Some Other_node then (False, w) else (True, w(p \<mapsto> File []))),
      os_write_file = mem_write_file,
      os_remove = (\<lambda>p w. if w p \<noteq> None then (None, w(p := None)) else (Some 2, w)),
      os_time = (\<lambda>w. (0, w)), os_http_date = (\<lambda>w. (None, w)),
      os_socketpair = (\<lambda>w. (Some (4, 5), w)), os_fork = (\<lambda>child w. (100, w)),
      os_fcntl_getfl = (\<lambda>fd w. (Inr 0, w)), os_fcntl_setfl = (\<lambda>fd fl w. (None, w)),
      os_write = (\<lambda>fd d w. (int (length d), w)), os_read = (\<lambda>fd n w. (Some [], w)),
      os_recv = (\<lambda>fd n w. (Some [], w)), os_send = (\<lambda>fd d w. (int (length d), w)),
      os_accept = (\<lambda>fd w. (None, w)), os_close = (\<lambda>fd w. ((), w)),
      os_epoll_ctl = (\<lambda>epfd op fd ev p w. (None, w)), os_waitpid = (\<lambda>pid w. (Some 0, w)),
      os_kill = (\<lambda>pid w. ((), w)), os_socket = (\<lambda>w. (3, w)), os_setsockopt = (\<lambda>fd w. (True, w)),
      os_bind = (\<lambda>fd port w. (True, w)), os_listen = (\<lambda>fd w. (True, w)), os_epoll_create = (\<lambda>w. (6, w))\<rparr>"

lemma memory_os_files: "file_system memory_os (\<lambda>w. w)"
  by (auto simp: file_system_def memory_os_def mem_stat_def mem_read_file_def mem_write_file_def ENOENT_def
       split: option.splits node.splits if_splits)

end
