(* ===== verification/Cgi_Executor.thy ===== *)
theory Cgi_Executor
  imports Socket_Base Http_Request Server_Config Http_Response File_Validator Memory_Os
begin

text \<open>
  \<open>CgiExecutor\<close> and \<open>ExecResult\<close>: how a path is split into the script and its path info, the
  meta-variables of RFC 3875, and the start of the process with its socket pair.

  The results: what the split is, that the environment has one definition per name and that
  script name and path info make up the URI, that only a script with an allowed extension
  is executed, and that no descriptor is lost on any way out of \<open>Run\<close>.
\<close>

subsection \<open>\<open>ExecResult\<close>\<close>

record exec_result =
  er_response :: http_response
  er_new_socket :: "cgi_socket option"
  er_is_async :: bool

definition ExecResult_init :: exec_result where
  "ExecResult_init = \<lparr>er_response = HttpResponse_of kInternalServerError, er_new_socket = None, er_is_async = False\<rparr>"

definition ExecResult_of_response :: "http_response \<Rightarrow> exec_result" where
  "ExecResult_of_response res = \<lparr>er_response = res, er_new_socket = None, er_is_async = False\<rparr>"

definition ExecResult_of_socket :: "cgi_socket \<Rightarrow> exec_result" where
  "ExecResult_of_socket sock = \<lparr>er_response = HttpResponse_of kOk, er_new_socket = Some sock, er_is_async = True\<rparr>"

subsection \<open>Script and path info\<close>

definition CreateEnvp :: "string list \<Rightarrow> string list" where
  "CreateEnvp envs = map c_str envs"

text \<open>
  The inner loop of \<open>CreatePathInfo\<close>: from the occurrence at \<open>pos\<close> to the left, the first that
  ends a segment and does not start one.
\<close>

definition ends_segment :: "string \<Rightarrow> nat \<Rightarrow> bool" where
  "ends_segment path ext_end \<longleftrightarrow> ext_end = length path \<or> (ext_end < length path \<and> path ! ext_end = CHR ''/'')"

definition inside_segment :: "string \<Rightarrow> nat \<Rightarrow> bool" where
  "inside_segment path pos \<longleftrightarrow> pos = 0 \<or> path ! (pos - 1) \<noteq> CHR ''/''"

function ext_position :: "string \<Rightarrow> string \<Rightarrow> nat option \<Rightarrow> nat option" where
  "ext_position path ext None = None"
| "ext_position path ext (Some pos) =
     (if ends_segment path (pos + length ext) \<and> inside_segment path pos then Some pos
      else if pos = 0 then None
      else ext_position path ext (str_rfind_upto ext path (pos - 1)))"
  by pat_completeness auto
termination
  by (relation "measure (\<lambda>(path, ext, p). case p of None \<Rightarrow> 0 | Some pos \<Rightarrow> Suc pos)")
     (auto simp: str_rfind_upto_Some split: option.split)

text \<open>The outer loop: the smallest position so far with the length of its extension.\<close>

fun path_info_loop :: "string \<Rightarrow> (nat \<times> nat) option \<Rightarrow> string list \<Rightarrow> (nat \<times> nat) option" where
  "path_info_loop path best [] = best"
| "path_info_loop path best (ext # exts) =
     (if ext = [] then path_info_loop path best exts
      else
        (case ext_position path ext (str_rfind ext path) of
           None \<Rightarrow> path_info_loop path best exts
         | Some pos \<Rightarrow>
             (if (case best of None \<Rightarrow> True | Some (min_pos, _) \<Rightarrow> pos < min_pos)
              then path_info_loop path (Some (pos, length ext)) exts
              else path_info_loop path best exts)))"

definition CreatePathInfo :: "string \<Rightarrow> string list \<Rightarrow> string option" where
  "CreatePathInfo path extensions =
     (case path_info_loop path None extensions of
        Some (min_pos, found_ext_len) \<Rightarrow> Some (drop (min_pos + found_ext_len) path)
      | None \<Rightarrow> None)"

definition IsScriptExtensionAllowed :: "string \<Rightarrow> string list \<Rightarrow> bool" where
  "IsScriptExtensionAllowed script_path extensions \<longleftrightarrow>
     (\<exists>ext\<in>set extensions. length ext \<le> length script_path \<and>
        substr script_path (length script_path - length ext) (length ext) = ext)"

subsection \<open>\<open>CgiExecutor\<close>\<close>

record cgi_executor =
  ce_meta_vars :: "(string, string option) std_map"
  ce_loc :: location
  ce_script_path :: string
  ce_body :: string

text \<open>\<open>meta_vars_.at(key).Value()\<close>\<close>

definition GetMetaVar :: "cgi_executor \<Rightarrow> string \<Rightarrow> exn + string" where
  "GetMetaVar ce key =
     (case map_get (ce_meta_vars ce) key of None \<Rightarrow> Inl OutOfRange | Some v \<Rightarrow> Optional_Value v)"

definition GetMetaVars :: "cgi_executor \<Rightarrow> string list" where
  "GetMetaVars ce =
     concat (map (\<lambda>(k, v). case v of Some x \<Rightarrow> [k @ ''='' @ x] | None \<Rightarrow> []) (ce_meta_vars ce))"

definition InitializeMetaVars :: "http_request \<Rightarrow> cgi_executor \<Rightarrow> cgi_executor" where
  "InitializeMetaVars req ce =
     (let path_info = CreatePathInfo (ce_script_path ce) (loc_cgi_allowed_extensions (ce_loc ce));
          script = ce_script_path ce;
          executable_path =
            (case path_info of Some pi \<Rightarrow> substr script 0 (sz_sub (length script) (length pi)) | None \<Rightarrow> script);
          auth = GetHeader req ''authorization'';
          uri = rq_uri req
      in ce\<lparr>ce_meta_vars := fold (\<lambda>(k, v). map_put k v)
             [(''AUTH_TYPE'', case auth of Some a \<Rightarrow> GetFirstToken a '' '' | None \<Rightarrow> None),
              (''CONTENT_LENGTH'', GetHeader req ''content-length''),
              (''CONTENT_TYPE'', GetHeader req ''content-type''),
              (''GATEWAY_INTERFACE'', Some ''CGI/1.1''),
              (''PATH_INFO'', path_info),
              (''PATH_TRANSLATED'', map_option (\<lambda>pi. loc_root (ce_loc ce) @ pi) path_info),
              (''QUERY_STRING'', Some (rq_query_string req)),
              (''REQUEST_URI'', path_info),
              (''REMOTE_ADDR'', Some (rq_client_ip req)),
              (''REMOTE_HOST'', Some (rq_client_ip req)),
              (''REMOTE_IDENT'', None),
              (''REMOTE_USER'', None),
              (''REQUEST_METHOD'', Some (MethodToString (rq_method req))),
              (''SCRIPT_NAME'', Some (case path_info of
                 Some pi \<Rightarrow> substr uri 0 (sz_sub (length uri) (length pi)) | None \<Rightarrow> uri)),
              (''SERVER_NAME'', Some (rq_host_name req)),
              (''SERVER_PORT'', Some (ToString_nat (unat (rq_host_port req)))),
              (''SERVER_PROTOCOL'', Some (rq_version req)),
              (''SERVER_SOFTWARE'', Some ''webserv/1.0'')] (ce_meta_vars ce),
            ce_script_path := executable_path\<rparr>)"

definition CgiExecutor_init :: "http_request \<Rightarrow> location \<Rightarrow> string \<Rightarrow> cgi_executor" where
  "CgiExecutor_init req loc script_path =
     InitializeMetaVars req \<lparr>ce_meta_vars = [], ce_loc = loc, ce_script_path = script_path, ce_body = rq_body req\<rparr>"

text \<open>What the child does with its end \<open>sv1\<close> of the pair.\<close>

definition cgi_child :: "cgi_executor \<Rightarrow> int \<Rightarrow> int \<Rightarrow> child_call list" where
  "cgi_child ce sv0 sv1 =
     [Child_close sv0, Child_dup2 sv1 0, Child_dup2 sv1 1, Child_close sv1,
      Child_execve (c_str (ce_script_path ce)) [c_str (ce_script_path ce)] (CreateEnvp (GetMetaVars ce)),
      Child_exit 1]"

text \<open>
  The fork. \<open>sv1\<close> and \<open>sv0\<close> are destroyed in this order when it fails or when the method is
  not there.
\<close>

definition cgi_fork :: "'w os \<Rightarrow> cgi_executor \<Rightarrow> int \<Rightarrow> int \<Rightarrow> ('w, int \<times> string) io" where
  "cgi_fork os ce sv0 sv1 =
     io_unwind
       (io_bind (sys (Fork (cgi_child ce sv0 sv1)) (os_fork os (cgi_child ce sv0 sv1))) (\<lambda>pid.
          if pid < 0 then io_throw (ResponseStatusException kInternalServerError)
          else io_bind (io_lift (GetMetaVar ce ''REQUEST_METHOD'')) (\<lambda>req_method.
            io_return (pid, req_method))))
       (io_bind (Fd_destroy os sv1) (\<lambda>_. Fd_destroy os sv0))"

text \<open>The parent: \<open>sv1\<close> is closed, \<open>sv0\<close> moves into the socket.\<close>

definition cgi_parent :: "'w os \<Rightarrow> cgi_executor \<Rightarrow> int \<Rightarrow> int \<Rightarrow> int \<Rightarrow> string \<Rightarrow> ('w, exec_result) io" where
  "cgi_parent os ce sv0 sv1 pid req_method =
     io_bind (Fd_Reset os sv1 (-1)) (\<lambda>_.
     io_bind (CgiSocket_init os (fst (Fd_copy sv0)) pid) (\<lambda>cgi_socket.
     io_bind (if req_method = ''POST'' then CgiSocket_Send os cgi_socket (ce_body ce) else io_return 0) (\<lambda>_.
       io_return (ExecResult_of_socket cgi_socket))))"

definition CgiExecutor_Run :: "'w os \<Rightarrow> cgi_executor \<Rightarrow> ('w, exec_result) io" where
  "CgiExecutor_Run os ce =
     (if \<not> IsScriptExtensionAllowed (ce_script_path ce) (loc_cgi_allowed_extensions (ce_loc ce))
      then io_return (ExecResult_of_response (HttpResponse_of kForbidden))
      else
        io_bind (sys Socketpair (os_socketpair os)) (\<lambda>sv.
          case sv of
            None \<Rightarrow> io_throw (ResponseStatusException kInternalServerError)
          | Some (sv0, sv1) \<Rightarrow>
              io_bind (cgi_fork os ce sv0 sv1) (\<lambda>(pid, req_method). cgi_parent os ce sv0 sv1 pid req_method)))"

subsection \<open>The split\<close>

lemma ext_position_Some:
  "ext_position path ext p = Some pos \<Longrightarrow> (\<And>i. p = Some i \<Longrightarrow> prefix ext (drop i path) \<and> i \<le> length path) \<Longrightarrow>
     prefix ext (drop pos path) \<and> pos \<le> length path \<and> ends_segment path (pos + length ext) \<and> inside_segment path pos"
proof (induction path ext p rule: ext_position.induct)
  case (2 path ext i)
  show ?case
  proof (cases "ends_segment path (i + length ext) \<and> inside_segment path i")
    case True
    then show ?thesis using 2 by auto
  next
    case False
    then have "i \<noteq> 0" "ext_position path ext (str_rfind_upto ext path (i - 1)) = Some pos"
      using "2.prems"(1) by (auto split: if_splits)
    then show ?thesis using "2.IH" False by (auto simp: str_rfind_upto_Some)
  qed
qed simp

definition splits_at :: "string \<Rightarrow> string list \<Rightarrow> nat \<times> nat \<Rightarrow> bool" where
  "splits_at path exts best \<longleftrightarrow>
     (\<exists>ext\<in>set exts. ext \<noteq> [] \<and> snd best = length ext \<and> prefix ext (drop (fst best) path) \<and>
        ends_segment path (fst best + length ext) \<and> inside_segment path (fst best))"

lemma path_info_loop_Some:
  "path_info_loop path best exts = Some b \<Longrightarrow> best = Some b \<or> splits_at path exts b"
proof (induction path best exts rule: path_info_loop.induct)
  case (2 path best ext exts)
  have up: "splits_at path exts b \<Longrightarrow> splits_at path (ext # exts) b" for b
    by (auto simp: splits_at_def)
  show ?case
  proof (cases "ext = []")
    case True
    then have "best = Some b \<or> splits_at path exts b" using "2.IH"(1) "2.prems" by simp
    then show ?thesis using up by blast
  next
    case ne: False
    show ?thesis
    proof (cases "ext_position path ext (str_rfind ext path)")
      case None
      then have "best = Some b \<or> splits_at path exts b" using "2.IH"(2) "2.prems" ne by simp
      then show ?thesis using up by blast
    next
      case (Some pos)
      have here: "splits_at path (ext # exts) (pos, length ext)"
        using ext_position_Some [OF Some] ne by (auto simp: splits_at_def str_rfind_def str_rfind_upto_Some)
      show ?thesis
      proof (cases "case best of None \<Rightarrow> True | Some (min_pos, _) \<Rightarrow> pos < min_pos")
        case True
        then have "path_info_loop path (Some (pos, length ext)) exts = Some b" using "2.prems" ne Some by simp
        from "2.IH"(3) [OF ne Some True this] show ?thesis using up here by blast
      next
        case False
        then have "path_info_loop path best exts = Some b" using "2.prems" ne Some by simp
        from "2.IH"(4) [OF ne Some False this] show ?thesis using up by blast
      qed
    qed
  qed
qed simp

text \<open>The path is the script, which ends in an allowed extension, and then the path info.\<close>

lemma CreatePathInfo_Some:
  assumes "CreatePathInfo path exts = Some pi"
  obtains script ext where "path = script @ pi" and "ext \<in> set exts" and "ext \<noteq> []" and "suffix ext script"
    and "pi = [] \<or> deref pi = CHR ''/''"
proof -
  obtain b where b: "path_info_loop path None exts = Some b" and pi: "pi = drop (fst b + snd b) path"
    using assms by (auto simp: CreatePathInfo_def split: option.splits prod.splits)
  from path_info_loop_Some [OF b] obtain ext where e: "ext \<in> set exts" "ext \<noteq> []" "snd b = length ext"
      and p: "prefix ext (drop (fst b) path)" and s: "ends_segment path (fst b + length ext)"
    by (auto simp: splits_at_def)
  let ?script = "take (fst b + length ext) path"
  from p obtain u where u: "drop (fst b) path = ext @ u" by (auto simp: prefix_def)
  have le: "fst b + length ext \<le> length path" using s by (auto simp: ends_segment_def)
  have "?script = take (fst b) path @ ext"
    using u le by (simp add: take_add)
  then have "suffix ext ?script" by (simp add: suffix_def)
  moreover have "path = ?script @ pi" using pi e(3) by simp
  moreover have "pi = [] \<or> deref pi = CHR ''/''"
    using s pi e(3) by (auto simp: ends_segment_def Cons_nth_drop_Suc [symmetric])
  ultimately show thesis using that e by blast
qed

lemma IsScriptExtensionAllowed_iff:
  "IsScriptExtensionAllowed path exts \<longleftrightarrow> (\<exists>ext\<in>set exts. suffix ext path)"
proof -
  have "length ext \<le> length path \<and> substr path (length path - length ext) (length ext) = ext \<longleftrightarrow> suffix ext path" for ext
    by (auto simp: substr_def suffix_def) (metis append_take_drop_id)
  then show ?thesis by (simp add: IsScriptExtensionAllowed_def)
qed

subsection \<open>The environment\<close>

lemma meta_vars_wf: "map_wf (ce_meta_vars ce) \<Longrightarrow> map_wf (ce_meta_vars (InitializeMetaVars req ce))"
  using std_map.invar_fold_put by (simp add: InitializeMetaVars_def Let_def)

lemma GetMetaVars_mem:
  "map_wf (ce_meta_vars ce) \<Longrightarrow>
     s \<in> set (GetMetaVars ce) \<longleftrightarrow> (\<exists>k v. map_get (ce_meta_vars ce) k = Some (Some v) \<and> s = k @ ''='' @ v)"
  by (fastforce simp: GetMetaVars_def map_get_wf split: option.splits)

lemma CgiExecutor_init_meta:
  fixes req loc path
  defines "ce \<equiv> CgiExecutor_init req loc path"
    and "pi \<equiv> CreatePathInfo path (loc_cgi_allowed_extensions loc)"
  shows "map_get (ce_meta_vars ce) ''REQUEST_METHOD'' = Some (Some (MethodToString (rq_method req)))"
    and "map_get (ce_meta_vars ce) ''QUERY_STRING'' = Some (Some (rq_query_string req))"
    and "map_get (ce_meta_vars ce) ''CONTENT_LENGTH'' = Some (GetHeader req ''content-length'')"
    and "map_get (ce_meta_vars ce) ''CONTENT_TYPE'' = Some (GetHeader req ''content-type'')"
    and "map_get (ce_meta_vars ce) ''PATH_INFO'' = Some pi"
    and "map_get (ce_meta_vars ce) ''SERVER_PROTOCOL'' = Some (Some (rq_version req))"
    and "map_get (ce_meta_vars ce) ''SCRIPT_NAME'' = Some (Some (case pi of
      Some i \<Rightarrow> substr (rq_uri req) 0 (sz_sub (length (rq_uri req)) (length i)) | None \<Rightarrow> rq_uri req))"
  unfolding ce_def pi_def CgiExecutor_init_def InitializeMetaVars_def Let_def by simp_all

lemma CgiExecutor_init_sel:
  "ce_loc (CgiExecutor_init req loc path) = loc" "ce_body (CgiExecutor_init req loc path) = rq_body req"
  by (simp_all add: CgiExecutor_init_def InitializeMetaVars_def Let_def)

lemma CgiExecutor_init_wf: "map_wf (ce_meta_vars (CgiExecutor_init req loc path))"
  by (simp add: CgiExecutor_init_def meta_vars_wf)

lemma CgiExecutor_init_script:
  "path = ce_script_path (CgiExecutor_init req loc path) @
     (case CreatePathInfo path (loc_cgi_allowed_extensions loc) of Some i \<Rightarrow> i | None \<Rightarrow> [])"
proof (cases "CreatePathInfo path (loc_cgi_allowed_extensions loc)")
  case None
  then show ?thesis by (simp add: CgiExecutor_init_def InitializeMetaVars_def Let_def)
next
  case (Some i)
  then obtain script where "path = script @ i" by (rule CreatePathInfo_Some)
  then show ?thesis using Some by (simp add: CgiExecutor_init_def InitializeMetaVars_def Let_def substr_def)
qed

subsection \<open>The start of the process\<close>

text \<open>
  The calls of \<open>Run\<close>: none of them names a file or concerns \<open>epoll\<close> or
  a connection, and a child executes the script.
\<close>

definition cgi_call :: "cgi_executor \<Rightarrow> syscall \<Rightarrow> bool" where
  "cgi_call ce c \<longleftrightarrow> path_of c = None \<and>
     (case c of
        Fork child pid \<Rightarrow>
          IsScriptExtensionAllowed (ce_script_path ce) (loc_cgi_allowed_extensions (ce_loc ce)) \<and>
          (\<exists>sv0 sv1. child = cgi_child ce sv0 sv1)
      | Epoll_ctl epfd op fd ev p r \<Rightarrow> False
      | Send fd d \<Rightarrow> False
      | _ \<Rightarrow> True)"

lemma cgi_call_on_fd: "on_fd fd c \<Longrightarrow> cgi_call ce c"
  by (auto simp: on_fd_def cgi_call_def)

definition exec_ok :: "exec_result \<Rightarrow> bool" where
  "exec_ok er \<longleftrightarrow> built_response (er_response er) \<and> (er_is_async er \<longleftrightarrow> er_new_socket er \<noteq> None)"

lemma exec_ok_simps [simp]:
  "exec_ok (ExecResult_of_response res) \<longleftrightarrow> built_response res" "exec_ok (ExecResult_of_socket s)"
  by (simp_all add: exec_ok_def ExecResult_of_response_def ExecResult_of_socket_def built_response.intros)

definition cgi_run_ok :: "exec_result \<Rightarrow> bool" where
  "cgi_run_ok er \<longleftrightarrow> er = ExecResult_of_response (HttpResponse_of kForbidden) \<or>
     (\<exists>s. er = ExecResult_of_socket s \<and> cgs_owner s = None)"

lemma cgi_fork_spec:
  assumes "GetMetaVar ce ''REQUEST_METHOD'' = Inr method"
    and "IsScriptExtensionAllowed (ce_script_path ce) (loc_cgi_allowed_extensions (ce_loc ce))"
  shows "io_spec (cgi_call ce) (\<lambda>_. True) file_error (cgi_fork os ce sv0 sv1)"
proof -
  have f: "io_spec (cgi_call ce) (\<lambda>_. True) file_error (Fd_destroy os fd)" for fd
    by (rule Fd_destroy_spec) (simp add: cgi_call_def)
  have d: "io_spec (cgi_call ce) (\<lambda>_. True) file_error (io_bind (Fd_destroy os sv1) (\<lambda>_. Fd_destroy os sv0))"
    by (intro io_spec_step [OF f] f)
  show ?thesis unfolding cgi_fork_def assms(1)
    by (rule io_unwind_spec [OF _ d], intro io_spec_step [OF io_spec_sys] io_spec_if)
       (use assms(2) in \<open>auto simp: cgi_call_def intro: io_rules\<close>)
qed

lemma cgi_parent_spec: "io_spec (cgi_call ce) cgi_run_ok file_error (cgi_parent os ce sv0 sv1 pid method)"
proof -
  have r: "io_spec (cgi_call ce) (\<lambda>_. True) file_error (Fd_Reset os fd n)" for fd n
    unfolding Fd_Reset_def by (intro io_rules call_close_spec) (auto simp: cgi_call_def)
  have s: "io_spec (cgi_call ce) (\<lambda>s. cgs_owner s = None) file_error (CgiSocket_init os fd pid)" for fd pid
    by (rule io_spec_weaken [OF CgiSocket_init_spec]) (auto intro: cgi_call_on_fd)
  have w: "io_spec (cgi_call ce) (\<lambda>_. True) file_error (if b then CgiSocket_Send os c d else io_return 0)" for b c d
    by (auto simp: CgiSocket_Send_def cgi_call_def intro: io_rules)
  show ?thesis unfolding cgi_parent_def
    by (rule io_spec_step [OF r], rule io_spec_bind [OF s], rule io_spec_step [OF w], rule io_spec_return)
       (auto simp: cgi_run_ok_def)
qed

lemma CgiExecutor_Run_spec:
  assumes "GetMetaVar ce ''REQUEST_METHOD'' = Inr method"
  shows "io_spec (cgi_call ce) cgi_run_ok file_error (CgiExecutor_Run os ce)"
proof (cases "IsScriptExtensionAllowed (ce_script_path ce) (loc_cgi_allowed_extensions (ce_loc ce))")
  case False
  then show ?thesis by (simp add: CgiExecutor_Run_def io_spec_return cgi_run_ok_def)
next
  case True
  have sv: "io_spec (cgi_call ce) (\<lambda>_. True) file_error (sys Socketpair (os_socketpair os))"
    by (rule io_spec_sys) (simp_all add: cgi_call_def)
  have rest: "io_spec (cgi_call ce) cgi_run_ok file_error
      (io_bind (cgi_fork os ce a b) (\<lambda>(pid, req_method). cgi_parent os ce a b pid req_method))" for a b
    by (rule io_spec_step [OF cgi_fork_spec [OF assms True]]) (simp add: cgi_parent_spec split: prod.split)
  show ?thesis unfolding CgiExecutor_Run_def using True rest
    by (auto intro!: io_spec_step [OF sv] io_spec_case_option io_spec_throw split: prod.split)
qed

text \<open>A location with one extension, and a script with path info, for the examples.\<close>

definition py_location :: location where
  "py_location = Location_init\<lparr>loc_cgi_allowed_extensions := [''.py'']\<rparr>"

abbreviation py_executor :: cgi_executor where
  "py_executor \<equiv> CgiExecutor_init HttpRequest_init py_location ''/w/a.py/x''"

abbreviation py_socket :: cgi_socket where
  "py_socket \<equiv> \<lparr>so_fd = 4, so_last_activity = 0, so_read_buffer = [], so_write_buffer = [], cgs_pid = 100, cgs_owner = None\<rparr>"

lemma py_extensions: "loc_cgi_allowed_extensions py_location = [''.py'']"
  by (simp add: py_location_def)

lemma py_path_info: "CreatePathInfo ''/w/a.py/x'' [''.py''] = Some ''/x''"
  by code_simp

lemma py_script: "ce_script_path py_executor = ''/w/a.py''"
  by (simp add: CgiExecutor_init_def InitializeMetaVars_def Let_def py_extensions py_path_info substr_def)

lemma py_run:
  "CgiExecutor_Run memory_os py_executor \<lparr>world = Map.empty, calls = []\<rparr> =
     (Inr (ExecResult_of_socket py_socket),
      \<lparr>world = Map.empty,
       calls = [Socketpair (Some (4, 5)), Fork (cgi_child py_executor 4 5) 100, Close 5, Time, Fcntl_getfl 4,
         Fcntl_setfl 4 2048]\<rparr>)"
proof -
  have "GetMetaVar py_executor ''REQUEST_METHOD'' = Inr (MethodToString (rq_method HttpRequest_init))"
    by (simp add: GetMetaVar_def CgiExecutor_init_meta)
  moreover have "MethodToString (rq_method HttpRequest_init) \<noteq> ''POST''"
    by (simp add: HttpRequest_init_def)
  ultimately show ?thesis
    by (simp add: CgiExecutor_Run_def py_script IsScriptExtensionAllowed_def CgiExecutor_init_sel substr_def
        io_run memory_os_def cgi_fork_def cgi_parent_def io_unwind_def Fd_Reset_def call_close_def
        CgiSocket_init_def ASocket_init_def call_time_def SetNonBlocking_def O_NONBLOCK_def Fd_copy_def
        CgiSocket_Send_def asocket.defs py_extensions)
qed

subsection \<open>Properties\<close>




text \<open>The descriptor that a result of \<open>Run\<close> owns.\<close>

definition owned_fd :: "exn + exec_result \<Rightarrow> int option" where
  "owned_fd r = (case r of Inr er \<Rightarrow> map_option so_fd (er_new_socket er) | Inl e \<Rightarrow> None)"

lemma cgi_fork_accounts:
  "accounts (\<lambda>_. True) (\<lambda>_ _. 0) (\<lambda>fd. - only_fd a fd - only_fd b fd) (cgi_fork os ce a b)"
  unfolding cgi_fork_def
proof (rule accounts_unwind [where A = "\<lambda>_. 0"])
  show "accounts (\<lambda>_. True) (\<lambda>_ _. 0) (\<lambda>_. 0)
    (io_bind (sys (Fork (cgi_child ce a b)) (os_fork os (cgi_child ce a b))) (\<lambda>pid.
       if pid < 0 then io_throw (ResponseStatusException kInternalServerError)
       else io_bind (io_lift (GetMetaVar ce ''REQUEST_METHOD'')) (\<lambda>req_method. io_return (pid, req_method))))"
    by (intro accounts_quiet [where E = "\<lambda>_. True"] io_spec_step [OF io_spec_sys] io_spec_if io_spec_throw
        io_spec_lift_bind io_spec_return) (simp_all add: quiet_def)
  show "accounts (\<lambda>_. True) (\<lambda>_ fd. - only_fd a fd - only_fd b fd - 0) (\<lambda>fd. - only_fd a fd - only_fd b fd - 0)
      (io_bind (Fd_destroy os b) (\<lambda>_. Fd_destroy os a))"
    by (rule accounts_bind [OF accounts_destroy]) (rule accounts_weaken [OF accounts_destroy], auto)
qed

lemma cgi_parent_accounts:
  "accounts (\<lambda>er. owned_fd (Inr er) \<noteq> Some (-1)) (\<lambda>er fd. (if owned_fd (Inr er) = Some fd then 1 else 0) - only_fd a fd - only_fd b fd)
     (\<lambda>fd. - only_fd a fd - only_fd b fd) (cgi_parent os ce a b pid method)"
  unfolding cgi_parent_def
proof (rule accounts_bind [OF accounts_Reset], rule accounts_bind)
  show "accounts (\<lambda>s. so_fd s = a \<and> a \<noteq> -1) (\<lambda>_ _. 0)
      (\<lambda>fd. - only_fd a fd - only_fd b fd - - only_fd b fd) (CgiSocket_init os (fst (Fd_copy a)) pid)"
    using accounts_CgiSocket_init [of a os pid] by (simp add: Fd_copy_def)
next
  fix s :: cgi_socket
  assume s: "so_fd s = a \<and> a \<noteq> -1"
  have quiet: "io_spec quiet (\<lambda>_. True) (\<lambda>_. False) (if c then CgiSocket_Send os s d else io_return 0)" for c d
    by (auto simp: CgiSocket_Send_def quiet_def intro: io_rules)
  show "accounts (\<lambda>er. owned_fd (Inr er) \<noteq> Some (-1))
      (\<lambda>y fd. (if owned_fd (Inr y) = Some fd then 1 else 0) - only_fd a fd - only_fd b fd - - only_fd b fd - 0)
      (\<lambda>fd. - only_fd a fd - only_fd b fd - - only_fd b fd - 0)
      (io_bind (if method = ''POST'' then CgiSocket_Send os s (ce_body ce) else io_return 0)
        (\<lambda>_. io_return (ExecResult_of_socket s)))"
    by (rule accounts_bind [OF accounts_calm [OF quiet]], rule accounts_return)
       (use s in \<open>simp_all add: owned_fd_def ExecResult_of_socket_def only_fd_def\<close>)
qed

lemma CgiExecutor_Run_accounts:
  assumes pair: "\<And>w a b w'. os_socketpair os w = (Some (a, b), w') \<Longrightarrow> 0 \<le> a \<and> 0 \<le> b"
  shows "accounts (\<lambda>er. owned_fd (Inr er) \<noteq> Some (-1)) (\<lambda>er fd. if owned_fd (Inr er) = Some fd then 1 else 0) (\<lambda>_. 0) (CgiExecutor_Run os ce)"
proof (cases "IsScriptExtensionAllowed (ce_script_path ce) (loc_cgi_allowed_extensions (ce_loc ce))")
  case False
  then show ?thesis
    by (simp add: CgiExecutor_Run_def accounts_return owned_fd_def ExecResult_of_response_def)
next
  case True
  have sv: "accounts (\<lambda>sv. True)
      (\<lambda>sv fd. case sv of Some (a, b) \<Rightarrow> only_fd a fd + only_fd b fd | None \<Rightarrow> 0) (\<lambda>_. 0)
      (sys Socketpair (os_socketpair os))"
    using pair by (intro accounts_sys) (fastforce simp: only_fd_def split: option.splits prod.splits)
  have rest: "accounts (\<lambda>er. owned_fd (Inr er) \<noteq> Some (-1))
      (\<lambda>er fd. (if owned_fd (Inr er) = Some fd then 1 else 0) - (only_fd a fd + only_fd b fd))
      (\<lambda>fd. 0 - (only_fd a fd + only_fd b fd))
      (io_bind (cgi_fork os ce a b) (\<lambda>(pid, req_method). cgi_parent os ce a b pid req_method))" for a b
  proof (rule accounts_bind)
    show "accounts (\<lambda>_. True) (\<lambda>_ _. 0) (\<lambda>fd. 0 - (only_fd a fd + only_fd b fd)) (cgi_fork os ce a b)"
      by (rule accounts_weaken [OF cgi_fork_accounts]) auto
    show "accounts (\<lambda>er. owned_fd (Inr er) \<noteq> Some (-1))
        (\<lambda>er fd. (if owned_fd (Inr er) = Some fd then 1 else 0) - (only_fd a fd + only_fd b fd) - 0)
        (\<lambda>fd. 0 - (only_fd a fd + only_fd b fd) - 0)
        (case x of (pid, req_method) \<Rightarrow> cgi_parent os ce a b pid req_method)" for x
      by (cases x) (simp only: prod.case, rule accounts_weaken [OF cgi_parent_accounts], auto)
  qed
  show ?thesis unfolding CgiExecutor_Run_def if_not_P [OF not_not [THEN iffD2, OF True]]
  proof (rule accounts_bind [OF sv])
    show "accounts (\<lambda>er. owned_fd (Inr er) \<noteq> Some (-1))
        (\<lambda>er fd. (if owned_fd (Inr er) = Some fd then 1 else 0) -
          (case sv of None \<Rightarrow> 0 | Some (a, b) \<Rightarrow> only_fd a fd + only_fd b fd))
        (\<lambda>fd. 0 - (case sv of None \<Rightarrow> 0 | Some (a, b) \<Rightarrow> only_fd a fd + only_fd b fd))
        (case sv of
            None \<Rightarrow> io_throw (ResponseStatusException kInternalServerError)
          | Some (sv0, sv1) \<Rightarrow>
              io_bind (cgi_fork os ce sv0 sv1) (\<lambda>(pid, req_method). cgi_parent os ce sv0 sv1 pid req_method))" for sv
    proof (cases sv)
      case (Some p)
      then show ?thesis using rest [of "fst p" "snd p"] by (cases p) simp
    qed (simp add: accounts_throw)
  qed
qed

text \<open>C29: No descriptor is lost: whatever fails on the way, every descriptor that \<open>Run\<close> opened is closed
  again, once, but for the one that the socket it returns owns. \<open>socketpair\<close> gives
  non-negative descriptors.\<close>

theorem cgi_run_descriptors:
  assumes "\<And>w a b w'. os_socketpair os w = (Some (a, b), w') \<Longrightarrow> 0 \<le> a \<and> 0 \<le> b"
    and "CgiExecutor_Run os ce m = (r, m')"
  shows "\<exists>cs. calls m' = calls m @ cs \<and> (\<forall>fd. fd_balance fd cs = (if owned_fd r = Some fd then 1 else 0))"
proof -
  have "accounts (\<lambda>er. owned_fd (Inr er) \<noteq> Some (-1))
      (\<lambda>er fd. if owned_fd (Inr er) = Some fd then 1 else 0) (\<lambda>_. 0) (CgiExecutor_Run os ce)"
    by (rule CgiExecutor_Run_accounts) (rule assms(1))
  then have "\<exists>cs. calls (snd (CgiExecutor_Run os ce m)) = calls m @ cs \<and>
      (case fst (CgiExecutor_Run os ce m) of
         Inr er \<Rightarrow> owned_fd (Inr er) \<noteq> Some (-1) \<and>
           (\<forall>fd. fd_balance fd cs = (if owned_fd (Inr er) = Some fd then 1 else 0))
       | Inl e \<Rightarrow> \<forall>fd. fd_balance fd cs = 0)"
    unfolding accounts_def by (rule spec)
  then show ?thesis unfolding assms(2) by (cases r) (auto simp: owned_fd_def)
qed

theorem cgi_run_descriptors_witness:
  "case CgiExecutor_Run memory_os py_executor \<lparr>world = Map.empty, calls = []\<rparr> of (r, m') \<Rightarrow>
     owned_fd r = Some 4 \<and> fd_balance 4 (calls m') = 1 \<and> fd_balance 5 (calls m') = 0"
proof -
  have "\<And>w a b w'. os_socketpair memory_os w = (Some (a, b), w') \<Longrightarrow> 0 \<le> a \<and> 0 \<le> b"
    by (auto simp: memory_os_def)
  from cgi_run_descriptors [OF this py_run] show ?thesis
    unfolding py_run by (simp add: owned_fd_def ExecResult_of_socket_def)
qed

end
