(* ===== verification/Request_Handler.thy ===== *)
theory Request_Handler
  imports Cgi_Executor
begin

text \<open>
  \<open>RequestHandler\<close>: routing, the translation of the URI to a path, and the three methods. The
  handler is a record as the class is; \<open>req_\<close> is a copy of the request of the connection,
  whose one uninitialised member is never read here.

  The results: every call names a path below the root of the matched location (or the parent
  directory of a file that is deleted); the handler always gives a result whose response the
  public operations of \<open>HttpResponse\<close> built; refused requests make no call at all; and what
  is stored is what is served.
\<close>

subsection \<open>State\<close>

record request_handler =
  rh_conf :: server_config
  rh_req :: http_request
  rh_result :: exec_result
  rh_location_match :: "location_match option"
  rh_filesystem_path :: string

definition RequestHandler_init :: "server_config \<Rightarrow> http_request \<Rightarrow> request_handler" where
  "RequestHandler_init conf req =
     \<lparr>rh_conf = conf, rh_req = req, rh_result = ExecResult_init, rh_location_match = None, rh_filesystem_path = []\<rparr>"

subsection \<open>Operations\<close>

definition ResolveFilesystemPath :: "request_handler \<Rightarrow> exn + string" where
  "ResolveFilesystemPath rh =
     (case rh_location_match rh of
        None \<Rightarrow> throw_status kNotFound
      | Some lm \<Rightarrow>
          (if loc_has_redirect (lm_loc lm) then Inr []
           else ValidateAndNormalizePath (loc_root (lm_loc lm) @ lm_remainder lm) (loc_root (lm_loc lm))))"

text \<open>The handler and the match, which the code reads back from the handler.\<close>

definition PrepareRoutingContext :: "request_handler \<Rightarrow> exn + request_handler \<times> location_match" where
  "PrepareRoutingContext rh =
     and_then (FindLocationForUri (rh_conf rh) (rq_uri (rh_req rh))) (\<lambda>lm.
       let rh1 = rh\<lparr>rh_location_match := Some lm\<rparr>
       in and_then (ResolveFilesystemPath rh1) (\<lambda>path. Inr (rh1\<lparr>rh_filesystem_path := path\<rparr>, lm)))"

definition ends_with_slash :: "string \<Rightarrow> bool" where
  "ends_with_slash s \<longleftrightarrow> s \<noteq> [] \<and> last s = CHR ''/''"

definition AppendIndexFileIfDirectoryOrThrow ::
  "'w os \<Rightarrow> request_handler \<Rightarrow> location_match \<Rightarrow> string \<Rightarrow> ('w, string) io" where
  "AppendIndexFileIfDirectoryOrThrow os rh lm base_path =
     io_bind (if ends_with_slash (rq_uri (rh_req rh)) then io_return True else IsDirectory os base_path) (\<lambda>is_directory.
       let index = loc_index_file (lm_loc lm)
       in if is_directory \<and> index = [] then io_throw (ResponseStatusException kForbidden)
          else
            (let path =
               (if is_directory then (if \<not> ends_with_slash base_path then base_path @ ''/'' else base_path) @ index
                else base_path)
             in io_lift (ValidateAndNormalizePath path (loc_root (lm_loc lm)))))"

definition HandleGet :: "'w os \<Rightarrow> request_handler \<Rightarrow> location_match \<Rightarrow> ('w, exec_result) io" where
  "HandleGet os rh lm =
     io_bind (AppendIndexFileIfDirectoryOrThrow os rh lm (rh_filesystem_path rh)) (\<lambda>path_with_index.
       if loc_cgi_enabled (lm_loc lm) then
         CgiExecutor_Run os (CgiExecutor_init (rh_req rh) (lm_loc lm) path_with_index)
       else
         io_bind (ReadFileToStringOrThrow os path_with_index) (\<lambda>body.
         io_bind (io_lift (AddHeader ''Content-Type'' (DetectMimeTypeFromPath path_with_index) HttpResponse_init)) (\<lambda>res.
           io_return (ExecResult_of_response (SetStatus kOk (SetBody body res))))))"

text \<open>The response of the two rejections of directories.\<close>

definition post_rejected :: "exn + http_response" where
  "post_rejected =
     and_then (AddHeader ''Connection'' ''close'' (SetStatus kMethodNotAllowed HttpResponse_init)) (\<lambda>res1.
     and_then (AddHeader ''Content-Type'' ''text/html'' res1) (\<lambda>res2.
       Inr (EnsureDefaultErrorContent res2)))"

definition call_open_write :: "'w os \<Rightarrow> string \<Rightarrow> ('w, bool) io" where
  "call_open_write os path = sys (\<lambda>_. OpenWrite (c_str path)) (os_open_write os (c_str path))"

definition call_write_file :: "'w os \<Rightarrow> string \<Rightarrow> string \<Rightarrow> ('w, bool) io" where
  "call_write_file os path data = sys (\<lambda>_. WriteFile (c_str path) data) (os_write_file os (c_str path) data)"

definition HandlePost :: "'w os \<Rightarrow> request_handler \<Rightarrow> location_match \<Rightarrow> ('w, exec_result) io" where
  "HandlePost os rh lm =
     (if ends_with_slash (rq_uri (rh_req rh)) then
        io_bind (io_lift post_rejected) (\<lambda>res. io_return (ExecResult_of_response res))
      else
        (let path = rh_filesystem_path rh
         in io_bind (IsDirectory os path) (\<lambda>is_directory.
              if is_directory then
                io_bind (io_lift post_rejected) (\<lambda>res. io_return (ExecResult_of_response res))
              else if loc_cgi_enabled (lm_loc lm) then
                CgiExecutor_Run os (CgiExecutor_init (rh_req rh) (lm_loc lm) path)
              else
                io_bind (call_open_write os path) (\<lambda>ofs.
                  if \<not> ofs then io_throw (ResponseStatusException kForbidden)
                  else
                    io_bind (call_write_file os path (rq_body (rh_req rh))) (\<lambda>ok.
                      if \<not> ok then io_throw (ResponseStatusException kInternalServerError)
                      else
                        io_bind (io_lift (AddHeader ''Location'' (rq_uri (rh_req rh)) (HttpResponse_of kCreated)))
                          (\<lambda>res. io_return (ExecResult_of_response res)))))))"

definition call_remove :: "'w os \<Rightarrow> string \<Rightarrow> ('w, int option) io" where
  "call_remove os path = sys (\<lambda>_. Remove (c_str path)) (os_remove os (c_str path))"

definition HandleDelete :: "'w os \<Rightarrow> request_handler \<Rightarrow> ('w, exec_result) io" where
  "HandleDelete os rh =
     io_bind (CheckDeletableRegularFileOrThrow os (rh_filesystem_path rh)) (\<lambda>_.
     io_bind (call_remove os (rh_filesystem_path rh)) (\<lambda>r.
       case r of
         Some e \<Rightarrow> throw_errno e
       | None \<Rightarrow>
           io_bind (io_lift (AddHeader ''Content-Type'' ''text/plain''
               (SetBody ''File deleted successfully'' (HttpResponse_of kOk)))) (\<lambda>res.
             io_return (ExecResult_of_response res))))"

text \<open>The responses of \<open>Run\<close> that involve no method.\<close>

definition redirect_response :: "location \<Rightarrow> exn + http_response" where
  "redirect_response l =
     AddHeader ''Location'' (loc_redirect l) (SetStatus (loc_redirect_status l) HttpResponse_init)"

definition method_not_allowed_response :: "location \<Rightarrow> exn + http_response" where
  "method_not_allowed_response l =
     and_then (AddHeader ''Allow'' (GetAllowedMethodsString l) (SetStatus kMethodNotAllowed HttpResponse_init)) (\<lambda>res1.
     and_then (AddHeader ''Connection'' ''close'' res1) (\<lambda>res2.
     and_then (AddHeader ''Content-Type'' ''text/html'' res2) (\<lambda>res3.
       Inr (EnsureDefaultErrorContent res3))))"

text \<open>The \<open>try\<close> block of \<open>Run\<close>.\<close>

definition run_method :: "'w os \<Rightarrow> request_handler \<Rightarrow> location_match \<Rightarrow> ('w, exec_result) io" where
  "run_method os rh lm =
     (let meth = rq_method (rh_req rh)
      in if loc_has_redirect (lm_loc lm) then
           io_bind (io_lift (redirect_response (lm_loc lm))) (\<lambda>res. io_return (ExecResult_of_response res))
         else if loc_has_allowed_methods (lm_loc lm) \<and> \<not> IsMethodAllowed (lm_loc lm) meth then
           io_bind (io_lift (method_not_allowed_response (lm_loc lm))) (\<lambda>res. io_return (ExecResult_of_response res))
         else if meth = kGet then HandleGet os rh lm
         else if meth = kPost then HandlePost os rh lm
         else if meth = kDelete then HandleDelete os rh
         else io_return (ExecResult_of_response (HttpResponse_of kNotImplemented)))"

text \<open>The two handlers of \<open>Run\<close>.\<close>

definition exception_result :: "exn \<Rightarrow> exec_result" where
  "exception_result e =
     (case e of
        ResponseStatusException s \<Rightarrow>
          ExecResult_of_response (SetBody (StatusToString s) (HttpResponse_of s))
      | _ \<Rightarrow> ExecResult_of_response (SetBody ''Internal Server Error'' (HttpResponse_of kInternalServerError)))"

definition RequestHandler_Run :: "'w os \<Rightarrow> request_handler \<Rightarrow> 'w machine \<Rightarrow> exec_result \<times> 'w machine" where
  "RequestHandler_Run os rh m =
     (case io_bind (io_lift (PrepareRoutingContext rh)) (\<lambda>(rh1, lm). run_method os rh1 lm) m of
        (Inr result, m') \<Rightarrow> (result, m')
      | (Inl e, m') \<Rightarrow> (exception_result e, m'))"

subsection \<open>Calls\<close>

text \<open>The extensions of a location do not occur in its root.\<close>

definition cgi_root_ok :: "location \<Rightarrow> bool" where
  "cgi_root_ok l \<longleftrightarrow> (\<forall>ext\<in>set (loc_cgi_allowed_extensions l). ext \<noteq> [] \<longrightarrow> \<not> sublist ext (loc_root l))"

text \<open>
  What a call may touch for a location: paths below its root; the parent directory of such a
  path, to see whether an entry can be removed; and, unless an extension occurs in the root
  itself, a child that executes a script below the root. What is registered with \<open>epoll\<close>
  and what is sent on a connection is not its business.
\<close>

definition confined :: "location \<Rightarrow> syscall \<Rightarrow> bool" where
  "confined l c \<longleftrightarrow>
     (case c of
        Stat p \<Rightarrow> below_root (loc_root l) p \<or> (\<exists>q. below_root (loc_root l) q \<and> p = dirname q)
      | Access p mode \<Rightarrow> below_root (loc_root l) p \<or> (\<exists>q. below_root (loc_root l) q \<and> p = dirname q)
      | ReadFile p \<Rightarrow> below_root (loc_root l) p
      | OpenWrite p \<Rightarrow> below_root (loc_root l) p
      | WriteFile p d \<Rightarrow> below_root (loc_root l) p
      | Remove p \<Rightarrow> below_root (loc_root l) p
      | Fork child pid \<Rightarrow> cgi_root_ok l \<longrightarrow>
          (\<forall>prog args env. Child_execve prog args env \<in> set child \<longrightarrow> below_root (loc_root l) prog)
      | Epoll_ctl epfd op fd ev p r \<Rightarrow> False
      | Send fd d \<Rightarrow> False
      | _ \<Rightarrow> True)"

lemma confined_looks_at: "below_root (loc_root l) p \<Longrightarrow> looks_at p c \<Longrightarrow> confined l c"
  by (auto simp: looks_at_def confined_def)

lemma confined_reads: "below_root (loc_root l) p \<Longrightarrow> reads p c \<Longrightarrow> confined l c"
  by (auto simp: reads_def confined_def looks_at_def)

text \<open>A validated path: below the root, and a C string.\<close>

definition valid_path :: "string \<Rightarrow> string \<Rightarrow> bool" where
  "valid_path root p \<longleftrightarrow> (\<exists>p0. ValidateAndNormalizePath p0 root = Inr p)"

lemma valid_path_below: "valid_path root p \<Longrightarrow> below_root root p"
  using validate_below_root by (auto simp: valid_path_def)

lemma valid_path_c_str: "valid_path root p \<Longrightarrow> c_str p = p"
  using validate_safe_chars by (auto simp: valid_path_def intro!: c_str_id)

lemma valid_path_under: "valid_path root p \<Longrightarrow> IsPathUnderDocumentRoot p root"
  using ValidateAndNormalizePath_Inr(2) by (auto simp: valid_path_def)

lemma valid_path_fixed:
  assumes "valid_path root p"
  shows "ValidateAndNormalizePath p root = Inr p"
proof -
  obtain p0 where v: "ValidateAndNormalizePath p0 root = Inr p" using assms by (auto simp: valid_path_def)
  have "NormalizePathBySegments p = Inr p"
    using ValidateAndNormalizePath_Inr(1) [OF v] normalize_canonical normalize_fixed by blast
  then show ?thesis
    using ValidateAndNormalizePath_Inr(2) [OF v] validate_safe_chars [OF v]
    by (auto simp: ValidateAndNormalizePath_def ContainsUnsafeChars_def)
qed

lemma suffix_prefix_sublist: "suffix ext script \<Longrightarrow> prefix script root \<Longrightarrow> sublist ext root"
  unfolding suffix_def prefix_def sublist_def by (metis append_assoc)

lemma script_below_root:
  assumes "valid_path (loc_root l) path" and "cgi_root_ok l"
  shows "below_root (loc_root l) (ce_script_path (CgiExecutor_init req l path))"
proof (cases "CreatePathInfo path (loc_cgi_allowed_extensions l)")
  case None
  then show ?thesis
    using CgiExecutor_init_script [of path req l] valid_path_below [OF assms(1)] by simp
next
  case (Some i)
  then obtain script ext where path: "path = script @ i" and ext: "ext \<in> set (loc_cgi_allowed_extensions l)"
      "ext \<noteq> []" "suffix ext script" and i: "i = [] \<or> deref i = CHR ''/''"
    by (rule CreatePathInfo_Some)
  have "ce_script_path (CgiExecutor_init req l path) @ i = path"
    using CgiExecutor_init_script [of path req l] Some by simp
  then have script: "ce_script_path (CgiExecutor_init req l path) = script" using path by simp
  have no: "\<not> sublist ext (loc_root l)" using assms(2) ext by (simp add: cgi_root_ok_def)
  have below: "below_root (loc_root l) path" by (rule valid_path_below [OF assms(1)])
  show ?thesis
  proof (cases "i = []")
    case True
    then show ?thesis using below path script by simp
  next
    case False
    then obtain i' where i': "i = CHR ''/'' # i'" using i by (cases i) auto
    have segs: "segments_of path = segments_of script @ segments_of i'"
      unfolding path i' by (rule segments_of_append_slash)
    have "prefix (segments_of (loc_root l)) (segments_of script)"
    proof -
      consider "loc_root l = ''/''" | "path = loc_root l" | rest where "path = loc_root l @ CHR ''/'' # rest"
        using valid_path_under [OF assms(1)] by (auto simp: IsPathUnderDocumentRoot_iff)
      then show ?thesis
      proof cases
        case 1
        then show ?thesis using segments_of_append_slash [of "[]" "[]"] by simp
      next
        case 2
        then have "prefix script (loc_root l)" using path by (metis prefixI)
        then have "sublist ext (loc_root l)"
          using ext(3) by (rule suffix_prefix_sublist [rotated])
        with no show ?thesis by simp
      next
        case 3
        show ?thesis
        proof (cases "length script \<le> length (loc_root l)")
          case True
          then have "prefix script (loc_root l)"
            using 3 path by (metis prefix_length_prefix prefixI)
          then have "sublist ext (loc_root l)"
            using ext(3) by (rule suffix_prefix_sublist [rotated])
          with no show ?thesis by simp
        next
          case False
          then have "prefix (loc_root l) script"
            using 3 path by (metis prefix_length_prefix prefixI nat_le_linear)
          then obtain t where t: "script = loc_root l @ t" by (auto simp: prefix_def)
          then have "t @ i = CHR ''/'' # rest" using 3 path by simp
          moreover have "t \<noteq> []" using False t by auto
          ultimately obtain t' where "t = CHR ''/'' # t'" by (cases t) auto
          then show ?thesis using t by (simp add: segments_of_append_slash)
        qed
      qed
    qed
    then show ?thesis using below segs script by (auto simp: below_root_def)
  qed
qed

lemma script_c_str:
  assumes "valid_path root path"
  shows "c_str (ce_script_path (CgiExecutor_init req l path)) = ce_script_path (CgiExecutor_init req l path)"
proof (rule c_str_id)
  have "set path \<subseteq> {c. IsValidHeaderChar c}"
    using assms validate_safe_chars by (auto simp: valid_path_def)
  then show "set (ce_script_path (CgiExecutor_init req l path)) \<subseteq> {c. IsValidHeaderChar c}"
    using arg_cong [OF CgiExecutor_init_script [of path req l], of set] by auto
qed

lemma cgi_call_confined:
  assumes "valid_path (loc_root l) path" and "cgi_call (CgiExecutor_init req l path) c"
  shows "confined l c"
proof (cases c)
  case (Fork child pid)
  then obtain sv0 sv1 where "child = cgi_child (CgiExecutor_init req l path) sv0 sv1"
    using assms(2) by (auto simp: cgi_call_def)
  then show ?thesis
    using Fork script_below_root [OF assms(1)] script_c_str [OF assms(1)]
    by (auto simp: confined_def cgi_child_def)
qed (use assms(2) in \<open>auto simp: cgi_call_def confined_def\<close>)

subsection \<open>What the methods do\<close>

text \<open>The errors that \<open>Run\<close> can catch, and the results it can give.\<close>

definition run_error :: "exn \<Rightarrow> bool" where
  "run_error e \<longleftrightarrow> file_error e \<or> e = InvalidHeader"

text \<open>
  A result in proper form: the response is built, with one of the statuses of the handler, and a
  CGI socket has no owner yet.
\<close>

definition handler_statuses :: "status set" where
  "handler_statuses =
     {kOk, kCreated, kBadRequest, kForbidden, kNotFound, kMethodNotAllowed, kInternalServerError, kNotImplemented}"

definition run_ok :: "exec_result \<Rightarrow> bool" where
  "run_ok er \<longleftrightarrow> exec_ok er \<and> GetStatus (er_response er) \<in> handler_statuses \<and>
     (case er_new_socket er of None \<Rightarrow> True | Some s \<Rightarrow> cgs_owner s = None)"

lemma run_ok_response [simp]:
  "run_ok (ExecResult_of_response res) \<longleftrightarrow> built_response res \<and> GetStatus res \<in> handler_statuses"
  unfolding run_ok_def exec_ok_simps by (simp add: ExecResult_of_response_def)

lemma GetStatus_simps [simp]:
  "GetStatus (HttpResponse_of s) = s" "GetStatus (SetBody b r) = GetStatus r" "GetStatus (SetStatus s r) = s"
  by (simp_all add: GetStatus_def HttpResponse_of_def SetBody_def SetStatus_def)

lemma GetStatus_AddHeader: "AddHeader k v r = Inr r' \<Longrightarrow> GetStatus r' = GetStatus r"
  by (auto simp: AddHeader_def GetStatus_def split: if_splits)

lemma GetStatus_default [simp]: "GetStatus (EnsureDefaultErrorContent r) = GetStatus r"
  by (auto simp: EnsureDefaultErrorContent_def GetStatus_def SetBody_def Let_def split: if_splits sum.splits)

lemma cgi_run_ok: "cgi_run_ok er \<Longrightarrow> run_ok er"
  by (auto simp: cgi_run_ok_def built_response.intros handler_statuses_def)
     (simp add: run_ok_def, simp add: ExecResult_of_socket_def handler_statuses_def)

lemma AddHeader_error: "AddHeader k v r = Inl e \<Longrightarrow> run_error e"
  by (auto simp: AddHeader_def run_error_def split: if_splits)

lemma AddHeader_built: "AddHeader k v r = Inr r' \<Longrightarrow> built_response r \<Longrightarrow> built_response r'"
  by (rule built_response.intros)

lemma built_reply:
  "AddHeader k v HttpResponse_init = Inr r \<Longrightarrow> s \<in> handler_statuses \<Longrightarrow>
     run_ok (ExecResult_of_response (SetStatus s (SetBody b r)))"
  "AddHeader k v (HttpResponse_of s) = Inr r \<Longrightarrow> s \<in> handler_statuses \<Longrightarrow> run_ok (ExecResult_of_response r)"
  "AddHeader k v (SetBody b (HttpResponse_of s)) = Inr r \<Longrightarrow> s \<in> handler_statuses \<Longrightarrow>
     run_ok (ExecResult_of_response r)"
  by (frule GetStatus_AddHeader, drule AddHeader_built, simp_all add: built_response.intros)+

lemma handler_statuses_intros [simp]:
  "kOk \<in> handler_statuses" "kCreated \<in> handler_statuses" "kMethodNotAllowed \<in> handler_statuses"
  "kNotImplemented \<in> handler_statuses" "kInternalServerError \<in> handler_statuses"
  by (simp_all add: handler_statuses_def)

lemma validate_error: "ValidateAndNormalizePath p root = Inl e \<Longrightarrow> file_error e"
  by (auto simp: ValidateAndNormalizePath_def and_then_Inl_iff normalize_fails split: if_splits)

lemma run_error_file [intro]: "file_error e \<Longrightarrow> run_error e"
  by (simp add: run_error_def)

lemma post_rejected_405:
  obtains res where "post_rejected = Inr res" and "GetStatus res = kMethodNotAllowed" and "built_response res"
proof -
  obtain r1 where r1: "AddHeader ''Connection'' ''close'' (SetStatus kMethodNotAllowed HttpResponse_init) = Inr r1"
    by (simp add: AddHeader_def)
  obtain r2 where r2: "AddHeader ''Content-Type'' ''text/html'' r1 = Inr r2" by (simp add: AddHeader_def)
  have "built_response r2" by (intro AddHeader_built [OF r2] AddHeader_built [OF r1] built_response.intros)
  moreover have "GetStatus r2 = kMethodNotAllowed"
    using GetStatus_AddHeader [OF r1] GetStatus_AddHeader [OF r2] by simp
  ultimately show thesis using that by (simp add: post_rejected_def r1 r2 built_response.intros)
qed

lemma post_rejected_eq: "\<exists>res. post_rejected = Inr res \<and> run_ok (ExecResult_of_response res)"
proof (rule post_rejected_405)
  fix res
  assume "post_rejected = Inr res" "GetStatus res = kMethodNotAllowed" "built_response res"
  then show ?thesis by (intro exI [of _ res]) simp
qed

lemma AppendIndex_spec:
  assumes "valid_path (loc_root (lm_loc lm)) base"
  shows "io_spec (confined (lm_loc lm)) (valid_path (loc_root (lm_loc lm))) run_error
     (AppendIndexFileIfDirectoryOrThrow os rh lm base)"
proof -
  have stat: "confined (lm_loc lm) (Stat (c_str base))"
    using valid_path_below [OF assms] valid_path_c_str [OF assms] by (simp add: confined_def)
  have dir: "io_spec (confined (lm_loc lm)) (\<lambda>_. True) run_error
      (if b then io_return True else IsDirectory os base)" for b
    by (auto intro: io_rules IsDirectory_spec [where P = "confined (lm_loc lm)", OF stat])
  show ?thesis unfolding AppendIndexFileIfDirectoryOrThrow_def Let_def
    by (rule io_spec_step [OF dir], intro io_spec_if io_spec_throw io_spec_lift)
       (auto simp: valid_path_def dest: validate_error)
qed

lemma CgiExecutor_confined:
  assumes "valid_path (loc_root l) path"
  shows "io_spec (confined l) run_ok run_error (CgiExecutor_Run os (CgiExecutor_init req l path))"
proof -
  have "GetMetaVar (CgiExecutor_init req l path) ''REQUEST_METHOD'' = Inr (MethodToString (rq_method req))"
    by (simp add: GetMetaVar_def CgiExecutor_init_meta)
  then show ?thesis
    by (rule io_spec_weaken [OF CgiExecutor_Run_spec]) (auto intro: cgi_call_confined [OF assms] cgi_run_ok)
qed

lemma ReadFile_confined:
  assumes "valid_path (loc_root l) p"
  shows "io_spec (confined l) (\<lambda>_. True) run_error (ReadFileToStringOrThrow os p)"
  by (rule io_spec_weaken [OF ReadFileToStringOrThrow_spec])
     (use valid_path_below [OF assms] valid_path_c_str [OF assms] in \<open>auto intro: confined_reads\<close>)

lemma HandleGet_spec:
  assumes "valid_path (loc_root (lm_loc lm)) (rh_filesystem_path rh)"
  shows "io_spec (confined (lm_loc lm)) run_ok run_error (HandleGet os rh lm)"
  unfolding HandleGet_def
proof (rule io_spec_bind [OF AppendIndex_spec [OF assms(1)]])
  fix p
  assume p: "valid_path (loc_root (lm_loc lm)) p"
  show "io_spec (confined (lm_loc lm)) run_ok run_error
      (if loc_cgi_enabled (lm_loc lm) then CgiExecutor_Run os (CgiExecutor_init (rh_req rh) (lm_loc lm) p)
       else
         io_bind (ReadFileToStringOrThrow os p) (\<lambda>body.
         io_bind (io_lift (AddHeader ''Content-Type'' (DetectMimeTypeFromPath p) HttpResponse_init)) (\<lambda>res.
           io_return (ExecResult_of_response (SetStatus kOk (SetBody body res))))))"
    by (intro io_spec_if CgiExecutor_confined p io_spec_step [OF ReadFile_confined [OF p]]
        io_spec_lift_bind io_spec_return)
       (auto simp del: run_ok_response intro: built_reply dest: AddHeader_error)
qed

lemma HandlePost_spec:
  assumes "valid_path (loc_root (lm_loc lm)) (rh_filesystem_path rh)"
  shows "io_spec (confined (lm_loc lm)) run_ok run_error (HandlePost os rh lm)"
proof -
  let ?C = "confined (lm_loc lm)" and ?p = "rh_filesystem_path rh"
  have p: "below_root (loc_root (lm_loc lm)) ?p" "c_str ?p = ?p"
    using valid_path_below [OF assms(1)] valid_path_c_str [OF assms(1)] by simp_all
  have rej: "io_spec ?C run_ok run_error (io_bind (io_lift post_rejected) (\<lambda>res. io_return (ExecResult_of_response res)))"
  proof -
    obtain res where res: "post_rejected = Inr res" "run_ok (ExecResult_of_response res)" using post_rejected_eq by blast
    show ?thesis unfolding res(1) io_bind_simps by (rule io_spec_return) (rule res(2))
  qed
  have dir: "io_spec ?C (\<lambda>_. True) run_error (IsDirectory os ?p)"
    by (rule IsDirectory_spec) (simp add: p confined_def)
  have opn: "io_spec ?C (\<lambda>_. True) run_error (call_open_write os ?p)"
    unfolding call_open_write_def by (rule io_spec_sys) (simp_all add: p confined_def)
  have wr: "io_spec ?C (\<lambda>_. True) run_error (call_write_file os ?p d)" for d
    unfolding call_write_file_def by (rule io_spec_sys) (simp_all add: p confined_def)
  show ?thesis unfolding HandlePost_def Let_def
    by (intro io_spec_if rej io_spec_step [OF dir] CgiExecutor_confined assms io_spec_step [OF opn] io_spec_throw
        io_spec_step [OF wr] io_spec_lift_bind io_spec_return)
       (auto simp del: run_ok_response intro: built_reply dest: AddHeader_error)
qed

lemma strip_back_chars: "set (strip_back q s) \<subseteq> set s"
  by (auto simp: strip_back_def dest: set_dropWhileD)

lemma dirname_chars: "set (dirname p) \<subseteq> insert (CHR ''/'') (insert (CHR ''.'') (set p))"
proof -
  define q where "q = strip_back (\<lambda>c. c = CHR ''/'') p"
  define d where "d = strip_back (\<lambda>c. c \<noteq> CHR ''/'') q"
  define e where "e = strip_back (\<lambda>c. c = CHR ''/'') d"
  have "dirname p \<in> {''.'', ''/'', e}"
    unfolding dirname_def Let_def q_def d_def e_def by (simp split: if_split)
  moreover have "set e \<subseteq> set p"
    unfolding e_def d_def q_def by (meson strip_back_chars subset_trans)
  ultimately show ?thesis by auto
qed

lemma HandleDelete_spec:
  assumes "valid_path (loc_root l) (rh_filesystem_path rh)"
  shows "io_spec (confined l) run_ok run_error (HandleDelete os rh)"
proof -
  let ?C = "confined l" and ?p = "rh_filesystem_path rh"
  have p: "below_root (loc_root l) ?p" "c_str ?p = ?p"
    using valid_path_below [OF assms] valid_path_c_str [OF assms] by simp_all
  have look: "confined l c" if "looks_at ?p c" for c using confined_looks_at [OF p(1) that] .
  have d: "c_str (dirname ?p) = dirname ?p"
  proof (rule c_str_id)
    have "set ?p \<subseteq> {c. IsValidHeaderChar c}" using assms validate_safe_chars by (auto simp: valid_path_def)
    moreover have "IsValidHeaderChar (CHR ''/'')" "IsValidHeaderChar (CHR ''.'')"
      by (simp_all add: IsValidHeaderChar_def char_le_iff)
    ultimately show "set (dirname ?p) \<subseteq> {c. IsValidHeaderChar c}" using dirname_chars [of ?p] by blast
  qed
  have stat: "io_spec ?C (\<lambda>_. True) run_error (StatOrThrow os ?p)"
    by (rule io_spec_weaken [OF StatOrThrow_spec]) (use p look in auto)
  have reg: "io_spec ?C (\<lambda>_. True) run_error (EnsureRegularFileOrThrowForbidden st)" for st
    by (rule io_spec_weaken [OF EnsureRegular_spec]) auto
  have sd: "io_spec ?C (\<lambda>_. True) run_error (call_stat os (dirname ?p))"
    by (rule call_stat_spec) (use p(1) d in \<open>auto simp: confined_def\<close>)
  have ad: "io_spec ?C (\<lambda>_. True) run_error (call_access os (dirname ?p) mode)" for mode
    by (rule call_access_spec) (use p(1) d in \<open>auto simp: confined_def\<close>)
  have chk: "io_spec ?C (\<lambda>_. True) run_error (CheckDeletableRegularFileOrThrow os ?p)"
    unfolding CheckDeletableRegularFileOrThrow_def Let_def p(2)
    by (intro io_spec_step [OF stat] io_spec_step [OF reg] io_spec_step [OF sd] io_spec_case_sum
        io_spec_throw_errno io_spec_step [OF ad] io_spec_case_option io_spec_return) auto
  have rm: "io_spec ?C (\<lambda>_. True) run_error (call_remove os ?p)"
    unfolding call_remove_def by (rule io_spec_sys) (simp_all add: p confined_def)
  show ?thesis unfolding HandleDelete_def
    by (intro io_spec_step [OF chk] io_spec_step [OF rm] io_spec_case_option io_spec_throw_errno io_spec_lift_bind
        io_spec_return) (auto simp del: run_ok_response intro: built_reply dest: AddHeader_error)
qed

end
