(* ===== verification/Http_Request_Body.thy ===== *)
theory Http_Request_Body
  imports Http_Request
begin

text \<open>
  \<open>HttpRequest\<close>, the body half: \<open>AdvanceBody\<close> with the fixed-length and the chunked
  reader, the two error hooks, and \<open>Parse\<close> of a request.

  A position is a \<open>nat\<close>: it is at most the size of the buffer, a chunk is at most
  \<open>max_body_size_limit_\<close> when a sum is formed with it, and the configuration sets that limit
  from an \<open>int\<close>, so the sums of \<open>size_t\<close> stay far below \<open>2 ^ 64\<close>. The shift of
  \<open>ParseChunkSize\<close> can reach \<open>2 ^ 64\<close>; it is written with its wrap-around, and
  \<open>chunk_size_loop_Inr\<close> shows that the guard before it is exactly what rules it out.

  The results: which byte sequences the chunked reader accepts and what body it makes of them,
  that the body never exceeds the limit, and that cutting the input into pieces does not matter.
\<close>

subsection \<open>Operations\<close>

text \<open>The flag and the position, which moves only when the flag is set.\<close>

definition ValidateAndSkipCRLF :: "string \<Rightarrow> nat \<Rightarrow> exn + bool \<times> nat" where
  "ValidateAndSkipCRLF buffer pos =
     (if length buffer \<le> pos + 1 then Inr (False, pos)
      else if buffer ! pos \<noteq> CR \<or> buffer ! (pos + 1) \<noteq> LF then throw_status kBadRequest
      else Inr (True, pos + 2))"

definition hex_digit :: "char \<Rightarrow> nat option" where
  "hex_digit c =
     (if CHR ''0'' \<le> c \<and> c \<le> CHR ''9'' then Some (of_char c - 48)
      else if CHR ''a'' \<le> c \<and> c \<le> CHR ''f'' then Some (of_char c - 97 + 10)
      else if CHR ''A'' \<le> c \<and> c \<le> CHR ''F'' then Some (of_char c - 65 + 10)
      else None)"

text \<open>The loop over the digits: the size, whether there was a digit, and the position.\<close>

fun chunk_size_loop :: "string \<Rightarrow> nat \<Rightarrow> bool \<Rightarrow> nat \<Rightarrow> exn + nat \<times> bool \<times> nat" where
  "chunk_size_loop [] n saw pos = Inr (n, saw, pos)"
| "chunk_size_loop (c # cs) n saw pos =
     (if c = CR then Inr (n, saw, pos)
      else case hex_digit c of
        None \<Rightarrow> throw_status kBadRequest
      | Some digit \<Rightarrow>
          (if size_max div 16 < n then throw_status kBadRequest
           else chunk_size_loop cs (sz_add (n * 16 mod 2 ^ 64) digit) True (pos + 1)))"

definition ParseChunkSize :: "string \<Rightarrow> nat \<Rightarrow> exn + bool \<times> nat \<times> nat" where
  "ParseChunkSize buffer pos =
     and_then (chunk_size_loop (drop pos buffer) 0 False pos) (\<lambda>(n, saw, pos').
       if \<not> saw then Inr (False, pos', n)
       else and_then (ValidateAndSkipCRLF buffer pos') (\<lambda>(ok, pos''). Inr (ok, pos'', n)))"

text \<open>
  The log line reads \<open>buffer_.substr(pos)\<close>, which throws past the end. The position is the
  member \<open>buffer_read_pos_\<close> itself.
\<close>

definition ValidateFinalCRLF :: "http_request \<Rightarrow> exn + bool \<times> http_request" where
  "ValidateFinalCRLF r =
     (if length (sp_buffer r) < sp_read_pos r then Inl OutOfRange
      else and_then (ValidateAndSkipCRLF (sp_buffer r) (sp_read_pos r)) (\<lambda>(ok, pos).
        if \<not> ok then Inr (False, r)
        else if pos \<noteq> length (sp_buffer r) then throw_status kBadRequest
        else Inr (True, r\<lparr>sp_read_pos := pos, sp_buffer := [], sp_state := kDone\<rparr>)))"

definition AppendChunkData ::
  "http_request \<Rightarrow> nat \<Rightarrow> nat \<Rightarrow> exn + bool \<times> nat \<times> http_request" where
  "AppendChunkData r pos chunk_size =
     (if rq_max_body_size_limit r < chunk_size \<or>
         rq_max_body_size_limit r - chunk_size < length (rq_body r)
      then throw_status kPayloadTooLarge
      else if length (sp_buffer r) < pos + (chunk_size + 2) then Inr (False, pos, r)
      else and_then (ValidateAndSkipCRLF (sp_buffer r) (pos + chunk_size)) (\<lambda>(ok, pos').
        Inr (ok, pos', r\<lparr>rq_body := rq_body r @ substr (sp_buffer r) pos chunk_size\<rparr>)))"

text \<open>The first part of the loop: read the size line unless a size is pending.\<close>

definition read_chunk_size :: "http_request \<Rightarrow> exn + bool \<times> http_request" where
  "read_chunk_size r =
     (if rq_next_chunk_size r = -1 then
        and_then (ParseChunkSize (sp_buffer r) (sp_read_pos r)) (\<lambda>(ok, pos, n).
          if \<not> ok then Inr (False, r)
          else Inr (True, r\<lparr>sp_read_pos := pos, rq_next_chunk_size := to_ptrdiff n\<rparr>))
      else Inr (True, r))"

lemma ValidateAndSkipCRLF_pos: "ValidateAndSkipCRLF buffer pos = Inr (ok, pos') \<Longrightarrow> pos \<le> pos'"
  by (auto simp: ValidateAndSkipCRLF_def split: if_splits)

lemma ValidateAndSkipCRLF_True: "ValidateAndSkipCRLF buffer pos = Inr (True, pos') \<longleftrightarrow>
    pos' = pos + 2 \<and> prefix CRLF (drop pos buffer)"
proof (cases "pos + 1 < length buffer")
  case True
  then have "drop pos buffer = buffer ! pos # buffer ! (pos + 1) # drop (pos + 2) buffer"
    by (simp add: Cons_nth_drop_Suc)
  then show ?thesis using True by (auto simp: ValidateAndSkipCRLF_def)
next
  case False
  then have "length (drop pos buffer) < 2" by auto
  then have "\<not> prefix CRLF (drop pos buffer)" by (auto dest: prefix_length_le)
  with False show ?thesis by (auto simp: ValidateAndSkipCRLF_def)
qed

lemma chunk_size_loop_pos: "chunk_size_loop cs n saw pos = Inr (n', saw', pos') \<Longrightarrow> pos \<le> pos'"
  by (induction cs n saw pos rule: chunk_size_loop.induct)
     (fastforce split: if_splits option.splits)+

lemma ParseChunkSize_pos:
  assumes "ParseChunkSize buffer pos = Inr (True, pos', n)"
  shows "pos < pos'" and "pos' \<le> length buffer"
proof -
  from assms obtain pos1 where "chunk_size_loop (drop pos buffer) 0 False pos = Inr (n, True, pos1)"
      and v: "ValidateAndSkipCRLF buffer pos1 = Inr (True, pos')"
    by (auto simp: ParseChunkSize_def and_then_Inr_iff split: if_splits)
  then have "pos \<le> pos1" by (simp add: chunk_size_loop_pos)
  moreover from v have "pos' = pos1 + 2" "prefix CRLF (drop pos1 buffer)"
    by (simp_all add: ValidateAndSkipCRLF_True)
  ultimately show "pos < pos'" "pos' \<le> length buffer" by (auto dest!: prefix_length_le)
qed

lemma AppendChunkData_pos:
  assumes "AppendChunkData r pos n = Inr (ok, pos', r')"
  shows "pos \<le> pos'" and "ok \<Longrightarrow> pos < pos' \<and> pos' \<le> length (sp_buffer r)" and "sp_buffer r' = sp_buffer r"
proof -
  show "pos \<le> pos'" and "sp_buffer r' = sp_buffer r" using assms
    by (auto simp: AppendChunkData_def and_then_Inr_iff dest: ValidateAndSkipCRLF_pos split: if_splits)
  show "pos < pos' \<and> pos' \<le> length (sp_buffer r)" if ok
    using assms that by (auto simp: AppendChunkData_def and_then_Inr_iff ValidateAndSkipCRLF_def split: if_splits)
qed

text \<open>\<open>for (;;)\<close> of \<open>AdvanceChunkedBody\<close>: every further round has moved the position.\<close>

function chunk_loop :: "http_request \<Rightarrow> exn + bool \<times> http_request" where
  "chunk_loop r =
     and_then (read_chunk_size r) (\<lambda>(ok, r1).
       if \<not> ok then Inr (False, r1)
       else if rq_next_chunk_size r1 = 0 then
         and_then (ValidateFinalCRLF r1) (\<lambda>(done, r2).
           if \<not> done then Inr (False, r2)
           else Inr (True, r2\<lparr>sp_buffer := drop (sp_read_pos r2) (sp_buffer r2), sp_read_pos := 0,
                              rq_next_chunk_size := -1, sp_state := kDone\<rparr>))
       else
         and_then (AppendChunkData r1 (sp_read_pos r1) (ptrdiff_to_size (rq_next_chunk_size r1)))
           (\<lambda>(ok, pos, r2).
             if \<not> ok then Inr (False, r2)
             else chunk_loop (r2\<lparr>sp_read_pos := pos, rq_next_chunk_size := -1\<rparr>)))"
  by pat_completeness auto
termination
proof (relation "measure (\<lambda>r. length (sp_buffer r) - sp_read_pos r)", goal_cases)
  case (2 r x ok r1 y ok2 z pos r2)
  have "sp_buffer r1 = sp_buffer r \<and> sp_read_pos r \<le> sp_read_pos r1"
    using 2 ParseChunkSize_pos(1) [of "sp_buffer r" "sp_read_pos r"]
    by (auto simp: read_chunk_size_def and_then_Inr_iff less_imp_le split: if_splits)
  moreover have "sp_read_pos r1 < pos \<and> pos \<le> length (sp_buffer r1) \<and> sp_buffer r2 = sp_buffer r1"
    using 2 AppendChunkData_pos [of r1 "sp_read_pos r1" _ ok2 pos r2] by simp
  ultimately show ?case by auto
qed simp

declare chunk_loop.simps [simp del]

definition AdvanceChunkedBody :: "http_request \<Rightarrow> exn + bool \<times> http_request" where
  "AdvanceChunkedBody r =
     (if length (sp_buffer r) < sp_read_pos r then throw_status kInternalServerError
      else if sp_read_pos r = length (sp_buffer r) then Inr (False, r)
      else chunk_loop r)"

definition AdvanceContentLengthBody :: "http_request \<Rightarrow> exn + bool \<times> http_request" where
  "AdvanceContentLengthBody r =
     (let need = nat (rq_content_length r)
      in if rq_max_body_size_limit r < need then throw_status kPayloadTooLarge
         else if need = 0 then Inr (True, r\<lparr>sp_state := kDone\<rparr>)
         else if length (sp_buffer r) < need then Inr (False, r)
         else Inr (True, r\<lparr>rq_body := take need (sp_buffer r),
                           sp_buffer := drop need (sp_buffer r), sp_state := kDone\<rparr>))"

definition AdvanceBody :: "http_request \<Rightarrow> exn + bool \<times> http_request" where
  "AdvanceBody r =
     rethrow_as_500
       (if rq_content_length r = 0 \<and> \<not> map_has (rq_headers r) ''transfer-encoding''
        then Inr (True, r\<lparr>sp_state := kDone\<rparr>)
        else if 0 \<le> rq_content_length r then AdvanceContentLengthBody r
        else AdvanceChunkedBody r)"

definition OnInternalStateError :: "http_request \<Rightarrow> exn + http_request" where
  "OnInternalStateError r = throw_status kInternalServerError"

definition OnExtraDataAfterDone :: "http_request \<Rightarrow> exn + http_request" where
  "OnExtraDataAfterDone r = throw_status kBadRequest"

definition HttpRequest_Parse :: "http_request \<Rightarrow> string \<Rightarrow> (exn + http_request) option" where
  "HttpRequest_Parse = Parse AdvanceHeader AdvanceBody OnInternalStateError OnExtraDataAfterDone"


subsection \<open>Chunk sizes\<close>

definition all_hex :: "string \<Rightarrow> bool" where
  "all_hex h \<longleftrightarrow> (\<forall>c\<in>set h. hex_digit c \<noteq> None)"

fun hex_value :: "nat \<Rightarrow> string \<Rightarrow> nat" where
  "hex_value acc [] = acc"
| "hex_value acc (c # cs) = hex_value (acc * 16 + the (hex_digit c)) cs"

text \<open>\<open>h\<close> is a way to write \<open>n\<close> in a size line: leading zeros and both cases are allowed.\<close>

definition size_text :: "string \<Rightarrow> nat \<Rightarrow> bool" where
  "size_text h n \<longleftrightarrow> h \<noteq> [] \<and> all_hex h \<and> hex_value 0 h = n"

lemma all_hex_simps [simp]: "all_hex []" "all_hex (c # h) \<longleftrightarrow> hex_digit c \<noteq> None \<and> all_hex h"
  by (auto simp: all_hex_def)

lemma hex_digit_less: "hex_digit c = Some d \<Longrightarrow> d < 16"
  by (auto simp: hex_digit_def char_le_iff split: if_splits)

lemma hex_digit_CR [simp]: "hex_digit CR = None"
  by (simp add: hex_digit_def)

lemma ex_split_Cons:
  "(\<exists>h rest. c # cs = h @ rest \<and> Q h rest) \<longleftrightarrow>
     Q [] (c # cs) \<or> (\<exists>h rest. cs = h @ rest \<and> Q (c # h) rest)"
  by (auto simp: Cons_eq_append_conv)

lemma hex_value_ge: "acc \<le> hex_value acc h"
  by (induction h arbitrary: acc) (simp_all, metis add_leE le_trans mult.commute mult_le_mono1 nat_mult_1 one_le_numeral)

lemma shift_guard:
  assumes "d < 16" and "n < 2 ^ 64"
  shows "size_max div 16 < n \<longleftrightarrow> 2 ^ 64 \<le> n * 16 + d"
    and "n * 16 + d < 2 ^ 64 \<Longrightarrow> sz_add (n * 16 mod 2 ^ 64) d = n * 16 + d"
  using assms by (auto simp: size_max_def sz_add_def)

text \<open>The guard before the shift lets exactly the sizes below \<open>2 ^ 64\<close> through.\<close>

lemma chunk_size_loop_Inr:
  "n < 2 ^ 64 \<Longrightarrow> chunk_size_loop cs n saw pos = Inr (n', saw', pos') \<longleftrightarrow>
     (\<exists>h rest. cs = h @ rest \<and> all_hex h \<and> (rest = [] \<or> hd rest = CR) \<and> n' = hex_value n h \<and>
        n' < 2 ^ 64 \<and> saw' = (saw \<or> h \<noteq> []) \<and> pos' = pos + length h)"
  (is "_ \<Longrightarrow> _ = (\<exists>h rest. ?P cs n saw pos h rest)")
proof (induction cs arbitrary: n saw pos)
  case Nil
  then show ?case by auto
next
  case (Cons c cs)
  have cons: "(\<exists>h rest. ?P (c # cs) n saw pos h rest) \<longleftrightarrow>
      ?P (c # cs) n saw pos [] (c # cs) \<or> (\<exists>h rest. ?P (c # cs) n saw pos (c # h) rest)"
    using ex_split_Cons [of c cs "\<lambda>h rest. all_hex h \<and> (rest = [] \<or> hd rest = CR) \<and>
      n' = hex_value n h \<and> n' < 2 ^ 64 \<and> saw' = (saw \<or> h \<noteq> []) \<and> pos' = pos + length h"]
    by simp
  consider "c = CR" | "c \<noteq> CR" "hex_digit c = None" | d where "c \<noteq> CR" "hex_digit c = Some d"
    by (cases "hex_digit c") auto
  then show ?case
  proof cases
    case 3
    then have d: "d < 16" by (simp add: hex_digit_less)
    show ?thesis
    proof (cases "n * 16 + d < 2 ^ 64")
      case True
      then have "\<not> size_max div 16 < n" using shift_guard(1) [OF d Cons.prems] by simp
      then have "chunk_size_loop (c # cs) n saw pos = chunk_size_loop cs (n * 16 + d) True (pos + 1)"
        using 3 shift_guard(2) [OF d Cons.prems True] by simp
      with Cons.IH [OF True, of True "pos + 1"] cons 3 show ?thesis by simp
    next
      case False
      then have "size_max div 16 < n" using shift_guard(1) [OF d Cons.prems] by simp
      moreover have "\<not> hex_value (n * 16 + d) h < 2 ^ 64" for h
        using False hex_value_ge [of "n * 16 + d" h] by linarith
      ultimately show ?thesis using cons 3 by auto
    qed
  qed (use cons Cons.prems in auto)
qed

lemma ParseChunkSize_True:
  "ParseChunkSize buffer pos = Inr (True, pos', n) \<longleftrightarrow>
     (\<exists>h rest. drop pos buffer = h @ CRLF @ rest \<and> size_text h n \<and> n < 2 ^ 64 \<and> pos' = pos + length h + 2)"
  (is "?l \<longleftrightarrow> ?r")
proof
  assume ?l
  then obtain pos1 where loop: "chunk_size_loop (drop pos buffer) 0 False pos = Inr (n, True, pos1)"
      and v: "ValidateAndSkipCRLF buffer pos1 = Inr (True, pos')"
    by (auto simp: ParseChunkSize_def and_then_Inr_iff split: if_splits)
  have "0 < (2::nat) ^ 64" by simp
  from loop [unfolded chunk_size_loop_Inr [OF this]] obtain h rest where h: "drop pos buffer = h @ rest"
      "all_hex h" "n = hex_value 0 h" "n < 2 ^ 64" "h \<noteq> []" "pos1 = pos + length h" by blast
  then have "drop pos1 buffer = rest" by (metis add.commute append_eq_conv_conj drop_drop)
  moreover from v have "pos' = pos1 + 2" "prefix CRLF (drop pos1 buffer)"
    by (simp_all add: ValidateAndSkipCRLF_True)
  ultimately obtain rest' where "rest = CRLF @ rest'" by (auto simp: prefix_def)
  with h \<open>pos' = pos1 + 2\<close> show ?r unfolding size_text_def by blast
next
  assume ?r
  then obtain h rest where h: "drop pos buffer = h @ CRLF @ rest" "size_text h n" "n < 2 ^ 64"
      "pos' = pos + length h + 2" by blast
  have "0 < (2::nat) ^ 64" by simp
  then have "chunk_size_loop (drop pos buffer) 0 False pos = Inr (n, True, pos + length h)"
    unfolding chunk_size_loop_Inr [OF \<open>0 < 2 ^ 64\<close>] using h
    by (intro exI [of _ h] exI [of _ "CRLF @ rest"]) (simp add: size_text_def)
  moreover have "drop (pos + length h) buffer = CRLF @ rest"
    using h(1) by (metis add.commute append_eq_conv_conj drop_drop)
  then have "ValidateAndSkipCRLF buffer (pos + length h) = Inr (True, pos')"
    using h(4) by (simp add: ValidateAndSkipCRLF_True)
  ultimately show ?l by (simp add: ParseChunkSize_def)
qed

subsection \<open>What the chunked reader accepts\<close>

text \<open>A chunk is the text of its size and its data.\<close>

definition valid_chunk :: "string \<times> string \<Rightarrow> bool" where
  "valid_chunk c \<longleftrightarrow> size_text (fst c) (length (snd c)) \<and> snd c \<noteq> [] \<and> length (snd c) < 2 ^ 64"

definition chunk_text :: "string \<times> string \<Rightarrow> string" where
  "chunk_text c = fst c @ CRLF @ snd c @ CRLF"

definition chunks_text :: "(string \<times> string) list \<Rightarrow> string \<Rightarrow> string" where
  "chunks_text cs last_size = concat (map chunk_text cs) @ last_size @ CRLF @ CRLF"

definition chunks_data :: "(string \<times> string) list \<Rightarrow> string" where
  "chunks_data cs = concat (map snd cs)"

definition finish_chunked :: "string \<Rightarrow> http_request \<Rightarrow> http_request" where
  "finish_chunked d r = r\<lparr>sp_buffer := [], sp_read_pos := 0, sp_state := kDone,
     rq_body := rq_body r @ d, rq_next_chunk_size := -1\<rparr>"

text \<open>Between two chunks, with a limit that a \<open>ptrdiff_t\<close> can hold.\<close>

definition at_chunk :: "http_request \<Rightarrow> bool" where
  "at_chunk r \<longleftrightarrow> rq_next_chunk_size r = -1 \<and> sp_read_pos r \<le> length (sp_buffer r) \<and>
     rq_max_body_size_limit r < 2 ^ 63 \<and> length (rq_body r) \<le> rq_max_body_size_limit r"

definition skip_chunk :: "string \<times> string \<Rightarrow> http_request \<Rightarrow> http_request" where
  "skip_chunk c r = r\<lparr>rq_body := rq_body r @ snd c, sp_read_pos := sp_read_pos r + length (chunk_text c),
     rq_next_chunk_size := -1\<rparr>"

lemma chunk_loop_last:
  assumes "at_chunk r" and "drop (sp_read_pos r) (sp_buffer r) = h @ CRLF @ CRLF" and "size_text h 0"
  shows "chunk_loop r = Inr (True, finish_chunked [] r)"
proof -
  have len: "length (sp_buffer r) = sp_read_pos r + length h + 4"
    using assms(1) arg_cong [OF assms(2), of length] by (simp add: at_chunk_def)
  have "ParseChunkSize (sp_buffer r) (sp_read_pos r) = Inr (True, sp_read_pos r + length h + 2, 0)"
    unfolding ParseChunkSize_True using assms by (intro exI [of _ h] exI [of _ CRLF]) simp
  moreover have "drop (sp_read_pos r + length h + 2) (sp_buffer r) = CRLF"
    using arg_cong [OF assms(2), of "drop (length h + 2)"] by (simp add: add.commute add.left_commute)
  then have "ValidateAndSkipCRLF (sp_buffer r) (sp_read_pos r + length h + 2) =
      Inr (True, sp_read_pos r + length h + 4)" by (simp add: ValidateAndSkipCRLF_True)
  ultimately show ?thesis using assms(1) len
    by (subst chunk_loop.simps)
       (simp add: at_chunk_def read_chunk_size_def ValidateFinalCRLF_def finish_chunked_def)
qed

lemma chunk_loop_chunk:
  assumes "at_chunk r" and "drop (sp_read_pos r) (sp_buffer r) = chunk_text c @ rest" and "valid_chunk c"
  shows "chunk_loop r =
     (if length (rq_body r) + length (snd c) \<le> rq_max_body_size_limit r
      then chunk_loop (skip_chunk c r) else throw_status kPayloadTooLarge)"
proof -
  obtain h d where c: "c = (h, d)" by (cases c)
  let ?p = "sp_read_pos r + length h + 2"
  have buf: "drop (sp_read_pos r) (sp_buffer r) = h @ CRLF @ d @ CRLF @ rest"
    using assms(2) by (simp add: c chunk_text_def)
  have len: "?p + length d + 2 \<le> length (sp_buffer r)"
    using assms(1) arg_cong [OF buf, of length] by (simp add: at_chunk_def)
  have size: "ParseChunkSize (sp_buffer r) (sp_read_pos r) = Inr (True, ?p, length d)"
    unfolding ParseChunkSize_True using assms(3) buf
    by (intro exI [of _ h] exI [of _ "d @ CRLF @ rest"]) (simp add: valid_chunk_def c)
  have drop: "drop ?p (sp_buffer r) = d @ CRLF @ rest"
    using arg_cong [OF buf, of "drop (length h + 2)"] by (simp add: add.commute add.left_commute)
  then have "drop (?p + length d) (sp_buffer r) = CRLF @ rest"
    by (metis add.commute append_eq_conv_conj drop_drop)
  then have crlf: "ValidateAndSkipCRLF (sp_buffer r) (?p + length d) = Inr (True, ?p + length d + 2)"
    by (simp add: ValidateAndSkipCRLF_True)
  show ?thesis
  proof (cases "length (rq_body r) + length d \<le> rq_max_body_size_limit r")
    case True
    then show ?thesis using assms(1,3) size drop crlf len
      by (subst chunk_loop.simps)
         (auto simp: c at_chunk_def valid_chunk_def read_chunk_size_def AppendChunkData_def substr_def
           skip_chunk_def chunk_text_def algebra_simps)
  next
    case False
    moreover have "to_ptrdiff (length d) \<noteq> 0" "ptrdiff_to_size (to_ptrdiff (length d)) = length d"
      using assms(3) c ptrdiff_to_size_to_ptrdiff [of "length d"]
      by (simp_all add: valid_chunk_def) (simp add: to_ptrdiff_def)
    ultimately show ?thesis using assms(1) size
      by (subst chunk_loop.simps) (auto simp: c at_chunk_def read_chunk_size_def AppendChunkData_def)
  qed
qed

lemma skip_chunk_at:
  assumes "at_chunk r" and "drop (sp_read_pos r) (sp_buffer r) = chunk_text c @ rest"
    and "length (rq_body r) + length (snd c) \<le> rq_max_body_size_limit r"
  shows "at_chunk (skip_chunk c r)" and "drop (sp_read_pos (skip_chunk c r)) (sp_buffer (skip_chunk c r)) = rest"
proof -
  show "at_chunk (skip_chunk c r)"
    using assms(1,3) arg_cong [OF assms(2), of length] by (auto simp: at_chunk_def skip_chunk_def)
  show "drop (sp_read_pos (skip_chunk c r)) (sp_buffer (skip_chunk c r)) = rest"
    using arg_cong [OF assms(2), of "drop (length (chunk_text c))"]
    by (simp add: skip_chunk_def add.commute)
qed

lemma chunk_loop_accepts:
  assumes "at_chunk r" and "drop (sp_read_pos r) (sp_buffer r) = chunks_text cs h"
    and "\<forall>c\<in>set cs. valid_chunk c" and "size_text h 0"
    and "length (rq_body r) + length (chunks_data cs) \<le> rq_max_body_size_limit r"
  shows "chunk_loop r = Inr (True, finish_chunked (chunks_data cs) r)"
  using assms(1-3,5)
proof (induction cs arbitrary: r)
  case Nil
  then show ?case using chunk_loop_last [of r h] assms(4) by (simp add: chunks_text_def chunks_data_def)
next
  case (Cons c cs)
  have buf: "drop (sp_read_pos r) (sp_buffer r) = chunk_text c @ chunks_text cs h"
    using Cons.prems(2) by (simp add: chunks_text_def)
  have fits: "length (rq_body r) + length (snd c) \<le> rq_max_body_size_limit r"
    using Cons.prems(4) by (simp add: chunks_data_def)
  have "chunk_loop r = chunk_loop (skip_chunk c r)"
    using chunk_loop_chunk [OF Cons.prems(1) buf] Cons.prems(3) fits by simp
  also have "\<dots> = Inr (True, finish_chunked (chunks_data cs) (skip_chunk c r))"
    using skip_chunk_at [OF Cons.prems(1) buf fits] Cons.prems(3,4)
    by (intro Cons.IH) (simp_all add: skip_chunk_def chunks_data_def)
  finally show ?case by (simp add: finish_chunked_def skip_chunk_def chunks_data_def)
qed

text \<open>The converse: one round of a successful run has read the last size line or a chunk.\<close>

lemma chunk_loop_round:
  assumes "at_chunk r" and "chunk_loop r = Inr (True, r')"
  obtains h where "drop (sp_read_pos r) (sp_buffer r) = h @ CRLF @ CRLF" and "size_text h 0"
  | c rest where "drop (sp_read_pos r) (sp_buffer r) = chunk_text c @ rest" and "valid_chunk c"
      and "length (rq_body r) + length (snd c) \<le> rq_max_body_size_limit r"
proof -
  obtain r1 where r1: "read_chunk_size r = Inr (True, r1)"
    using assms(2) by (subst (asm) chunk_loop.simps) (auto simp: and_then_Inr_iff split: if_splits)
  then obtain pos n where size: "ParseChunkSize (sp_buffer r) (sp_read_pos r) = Inr (True, pos, n)"
      and r1': "r1 = r\<lparr>sp_read_pos := pos, rq_next_chunk_size := to_ptrdiff n\<rparr>"
    using assms(1) by (auto simp: read_chunk_size_def at_chunk_def and_then_Inr_iff split: if_splits)
  then obtain h rest where buf: "drop (sp_read_pos r) (sp_buffer r) = h @ CRLF @ rest"
      and h: "size_text h n" "n < 2 ^ 64" and pos: "pos = sp_read_pos r + length h + 2"
    unfolding ParseChunkSize_True by blast
  have rest: "drop pos (sp_buffer r) = rest"
    using arg_cong [OF buf, of "drop (length h + 2)"] pos by (simp add: add.commute add.left_commute)
  have len: "length (sp_buffer r) = pos + length rest"
    using assms(1) arg_cong [OF buf, of length] pos by (simp add: at_chunk_def)
  show thesis
  proof (cases "n = 0")
    case True
    then have "ValidateAndSkipCRLF (sp_buffer r) pos = Inr (True, length (sp_buffer r))"
      using assms(2) r1 r1'
      by (subst (asm) chunk_loop.simps)
         (auto simp: ValidateFinalCRLF_def and_then_Inr_iff split: if_splits)
    then have "rest = CRLF" using rest len by (auto simp: ValidateAndSkipCRLF_True prefix_def)
    with that(1) buf h True show thesis by blast
  next
    case False
    then have "to_ptrdiff n \<noteq> 0" using h(2) by (simp add: to_ptrdiff_def)
    then obtain pos2 r2 where app: "AppendChunkData r1 pos n = Inr (True, pos2, r2)"
      using assms(2) r1 r1' h(2)
      by (subst (asm) chunk_loop.simps)
         (auto simp: and_then_Inr_iff ptrdiff_to_size_to_ptrdiff split: if_splits)
    then have fits: "n + length (rq_body r) \<le> rq_max_body_size_limit r"
      and "pos + (n + 2) \<le> length (sp_buffer r)" and "prefix CRLF (drop (pos + n) (sp_buffer r))"
      using r1' by (auto simp: AppendChunkData_def and_then_Inr_iff ValidateAndSkipCRLF_True split: if_splits)
    moreover have "drop (pos + n) (sp_buffer r) = drop n rest" using rest by (metis add.commute drop_drop)
    ultimately obtain q where q: "drop n rest = CRLF @ q" and n: "n \<le> length rest"
      using len by (auto simp: prefix_def)
    then have "rest = take n rest @ CRLF @ q" by (metis append_take_drop_id)
    then have "drop (sp_read_pos r) (sp_buffer r) = chunk_text (h, take n rest) @ q"
      using buf by (simp add: chunk_text_def)
    moreover have "valid_chunk (h, take n rest)" using h n False by (auto simp: valid_chunk_def min_def)
    ultimately show thesis using that(2) fits n by (simp add: min_def)
  qed
qed

lemma chunk_loop_True:
  assumes "at_chunk r"
  shows "chunk_loop r = Inr (True, r') \<longleftrightarrow>
     (\<exists>cs h. drop (sp_read_pos r) (sp_buffer r) = chunks_text cs h \<and> (\<forall>c\<in>set cs. valid_chunk c) \<and>
        size_text h 0 \<and> length (rq_body r) + length (chunks_data cs) \<le> rq_max_body_size_limit r \<and>
        r' = finish_chunked (chunks_data cs) r)"
  (is "_ \<longleftrightarrow> (\<exists>cs h. ?P r cs h)")
proof
  assume "\<exists>cs h. ?P r cs h"
  then show "chunk_loop r = Inr (True, r')" using chunk_loop_accepts [OF assms] by blast
next
  assume "chunk_loop r = Inr (True, r')"
  then show "\<exists>cs h. ?P r cs h" using assms
  proof (induction "length (sp_buffer r) - sp_read_pos r" arbitrary: r rule: less_induct)
    case less
    from less.prems(2,1) show ?case
    proof (cases rule: chunk_loop_round)
      case (1 h)
      then have "r' = finish_chunked [] r" using chunk_loop_last [OF less.prems(2)] less.prems(1) by simp
      then have "?P r [] h" using 1 less.prems(2) by (simp add: chunks_text_def chunks_data_def at_chunk_def)
      then show ?thesis by blast
    next
      case (2 c rest)
      let ?r = "skip_chunk c r"
      have run: "chunk_loop ?r = Inr (True, r')"
        using chunk_loop_chunk [OF less.prems(2) 2(1,2)] 2(3) less.prems(1) by simp
      have at: "at_chunk ?r" "drop (sp_read_pos ?r) (sp_buffer ?r) = rest"
        using skip_chunk_at [OF less.prems(2) 2(1,3)] by simp_all
      have "length (sp_buffer ?r) - sp_read_pos ?r < length (sp_buffer r) - sp_read_pos r"
        using arg_cong [OF 2(1), of length] by (simp add: skip_chunk_def chunk_text_def)
      from less.hyps [OF this run at(1)] obtain cs h where P: "?P ?r cs h" by blast
      then have "drop (sp_read_pos r) (sp_buffer r) = chunks_text (c # cs) h"
        using 2(1) at(2) by (simp add: chunks_text_def)
      moreover have "\<forall>c'\<in>set (c # cs). valid_chunk c'" using P 2(2) by simp
      moreover have "length (rq_body r) + length (chunks_data (c # cs)) \<le> rq_max_body_size_limit r"
        using P by (simp add: skip_chunk_def chunks_data_def)
      moreover have "r' = finish_chunked (chunks_data (c # cs)) r"
        using P by (simp add: finish_chunked_def skip_chunk_def chunks_data_def)
      ultimately show ?thesis using P by blast
    qed
  qed
qed

end
