(* ===== verification/Socket_Heap.thy ===== *)
theory Socket_Heap
  imports Request_Handler Http_Request_Body Cgi_Response_Parser
begin

text \<open>
  The objects of the server in a heap. \<open>Webserv\<close> keeps pointers to sockets, a client and the
  program it waits for keep pointers to each other, and \<open>epoll\<close> hands pointers back;
  \<open>new\<close> and \<open>delete\<close> are explicit. A function of the sockets is a function of the machine and the
  heap; its result is \<open>None\<close> when it uses an object that is not there (a dangling pointer
  or an object of another class), which is what the safety of the event loop excludes. Addresses
  are not reused, so a pointer that outlives its object never becomes valid again.

  \<open>wp\<close> is total correctness for such functions, computed from the end to the start.
\<close>

subsection \<open>Objects\<close>

record client_socket = asocket +
  cl_config :: server_config
  cl_req :: http_request
  cl_res :: http_response
  cl_cgi_socket :: "nat option"

record server_socket = asocket +
  ss_config :: server_config

datatype obj = Client client_socket | Cgi cgi_socket | Server server_socket

record 'w server = "'w machine" +
  heap :: "nat \<Rightarrow> obj option"
  next_address :: nat

type_synonym ('w, 'a) act = "'w server \<Rightarrow> ((exn + 'a) \<times> 'w server) option"

subsection \<open>Functions of the heap\<close>

definition act_return :: "'a \<Rightarrow> ('w, 'a) act" where
  "act_return x = (\<lambda>s. Some (Inr x, s))"

definition act_throw :: "exn \<Rightarrow> ('w, 'a) act" where
  "act_throw e = (\<lambda>s. Some (Inl e, s))"

definition act_undefined :: "('w, 'a) act" where
  "act_undefined = (\<lambda>s. None)"

definition act_bind :: "('w, 'a) act \<Rightarrow> ('a \<Rightarrow> ('w, 'b) act) \<Rightarrow> ('w, 'b) act" where
  "act_bind f g = (\<lambda>s.
     case f s of None \<Rightarrow> None | Some (Inl e, s1) \<Rightarrow> Some (Inl e, s1) | Some (Inr x, s1) \<Rightarrow> g x s1)"

text \<open>The result of a \<open>try\<close> block as a value.\<close>

definition act_try :: "('w, 'a) act \<Rightarrow> ('w, exn + 'a) act" where
  "act_try f = (\<lambda>s. case f s of None \<Rightarrow> None | Some (r, s1) \<Rightarrow> Some (Inr r, s1))"

definition run_io :: "('w, 'a) io \<Rightarrow> ('w, 'a) act" where
  "run_io f = (\<lambda>s. case f \<lparr>world = world s, calls = calls s\<rparr> of
     (r, m) \<Rightarrow> Some (r, s\<lparr>world := world m, calls := calls m\<rparr>))"

definition load :: "nat \<Rightarrow> ('w, obj) act" where
  "load p = (\<lambda>s. case heap s p of None \<Rightarrow> None | Some obj \<Rightarrow> Some (Inr obj, s))"

definition load_client :: "nat \<Rightarrow> ('w, client_socket) act" where
  "load_client p = act_bind (load p) (\<lambda>obj. case obj of Client c \<Rightarrow> act_return c | _ \<Rightarrow> act_undefined)"

definition load_cgi :: "nat \<Rightarrow> ('w, cgi_socket) act" where
  "load_cgi p = act_bind (load p) (\<lambda>obj. case obj of Cgi g \<Rightarrow> act_return g | _ \<Rightarrow> act_undefined)"

definition store :: "nat \<Rightarrow> obj \<Rightarrow> ('w, unit) act" where
  "store p obj = (\<lambda>s. if heap s p = None then None else Some (Inr (), s\<lparr>heap := (heap s)(p \<mapsto> obj)\<rparr>))"

text \<open>\<open>new\<close>, and the end of \<open>delete\<close>, which frees the memory.\<close>

definition create :: "obj \<Rightarrow> ('w, nat) act" where
  "create obj = (\<lambda>s. Some (Inr (next_address s),
     s\<lparr>heap := (heap s)(next_address s \<mapsto> obj), next_address := Suc (next_address s)\<rparr>))"

definition release :: "nat \<Rightarrow> ('w, unit) act" where
  "release p = (\<lambda>s. if heap s p = None then None else Some (Inr (), s\<lparr>heap := (heap s)(p := None)\<rparr>))"

subsection \<open>Total correctness\<close>

text \<open>
  \<open>wp f Q E s\<close>: run in \<open>s\<close>, \<open>f\<close> has a result, which satisfies \<open>Q\<close>, or throws, and then
  \<open>E\<close> holds.
\<close>

definition wp :: "('w, 'a) act \<Rightarrow> ('a \<Rightarrow> 'w server \<Rightarrow> bool) \<Rightarrow> (exn \<Rightarrow> 'w server \<Rightarrow> bool) \<Rightarrow> 'w server \<Rightarrow> bool" where
  "wp f Q E s =
     (case f s of None \<Rightarrow> False | Some (Inr x, s1) \<Rightarrow> Q x s1 | Some (Inl e, s1) \<Rightarrow> E e s1)"

named_theorems wp_simps \<open>what the parts of a function of the heap need\<close>

lemma wp_return [wp_simps]: "wp (act_return x) Q E = Q x"
  by (simp add: fun_eq_iff wp_def act_return_def)

lemma wp_throw [wp_simps]: "wp (act_throw e) Q E = E e"
  by (simp add: fun_eq_iff wp_def act_throw_def)

lemma wp_undefined [wp_simps]: "wp act_undefined Q E s = False"
  by (simp add: wp_def act_undefined_def)

lemma wp_bind [wp_simps]: "wp (act_bind f g) Q E = wp f (\<lambda>x. wp (g x) Q E) E"
  by (auto simp: fun_eq_iff wp_def act_bind_def split: option.splits sum.splits prod.splits)

lemma wp_try [wp_simps]: "wp (act_try f) Q E = wp f (\<lambda>x. Q (Inr x)) (\<lambda>e. Q (Inl e))"
  by (auto simp: fun_eq_iff wp_def act_try_def split: option.splits sum.splits prod.splits)

lemma wp_load [wp_simps]: "wp (load p) Q E s = (case heap s p of None \<Rightarrow> False | Some obj \<Rightarrow> Q obj s)"
  by (simp add: wp_def load_def split: option.splits)

lemma wp_store [wp_simps]:
  "wp (store p obj) Q E s = (heap s p \<noteq> None \<and> Q () (s\<lparr>heap := (heap s)(p \<mapsto> obj)\<rparr>))"
  by (simp add: wp_def store_def)

lemma wp_create [wp_simps]:
  "wp (create obj) Q E s =
     Q (next_address s) (s\<lparr>heap := (heap s)(next_address s \<mapsto> obj), next_address := Suc (next_address s)\<rparr>)"
  by (simp add: wp_def create_def)

lemma wp_release [wp_simps]:
  "wp (release p) Q E s = (heap s p \<noteq> None \<and> Q () (s\<lparr>heap := (heap s)(p := None)\<rparr>))"
  by (simp add: wp_def release_def)

lemma wp_load_client [wp_simps]:
  "wp (load_client p) Q E s = (case heap s p of Some (Client c) \<Rightarrow> Q c s | _ \<Rightarrow> False)"
  by (auto simp: load_client_def wp_simps split: option.splits obj.splits)

lemma wp_load_cgi [wp_simps]:
  "wp (load_cgi p) Q E s = (case heap s p of Some (Cgi g) \<Rightarrow> Q g s | _ \<Rightarrow> False)"
  by (auto simp: load_cgi_def wp_simps split: option.splits obj.splits)

lemma wp_case [wp_simps]:
  "wp (if b then f else g) Q E s = (if b then wp f Q E s else wp g Q E s)"
  "wp (case r of Inl e \<Rightarrow> h e | Inr x \<Rightarrow> k x) Q E s =
     (case r of Inl e \<Rightarrow> wp (h e) Q E s | Inr x \<Rightarrow> wp (k x) Q E s)"
  "wp (case v of None \<Rightarrow> f | Some y \<Rightarrow> l y) Q E s = (case v of None \<Rightarrow> wp f Q E s | Some y \<Rightarrow> wp (l y) Q E s)"
  by (auto split: sum.split option.split)

lemma wp_mono:
  assumes "wp f Q E s" and "\<And>x s'. Q x s' \<Longrightarrow> Q' x s'" and "\<And>e s'. E e s' \<Longrightarrow> E' e s'"
  shows "wp f Q' E' s"
  using assms by (auto simp: wp_def split: option.splits sum.splits)

text \<open>A function of the machine changes only the world and the calls.\<close>

lemma wp_run_io:
  assumes "io_spec P R E0 f"
    and "\<And>x w cs. R x \<Longrightarrow> list_all P cs \<Longrightarrow> Q x (s\<lparr>world := w, calls := calls s @ cs\<rparr>)"
    and "\<And>e w cs. E0 e \<Longrightarrow> list_all P cs \<Longrightarrow> E e (s\<lparr>world := w, calls := calls s @ cs\<rparr>)"
  shows "wp (run_io f) Q E s"
proof -
  obtain r m where f: "f \<lparr>world = world s, calls = calls s\<rparr> = (r, m)" by (cases "f \<lparr>world = world s, calls = calls s\<rparr>")
  from io_spec_D(1) [OF assms(1) f] obtain cs where cs: "calls m = calls s @ cs" "list_all P cs" by auto
  show ?thesis
  proof (cases r)
    case (Inl e)
    then show ?thesis using assms(3) [OF io_spec_D(3) [OF assms(1) f Inl] cs(2)]
      by (simp add: wp_def run_io_def f cs(1))
  next
    case (Inr x)
    then show ?thesis using assms(2) [OF io_spec_D(2) [OF assms(1) f Inr] cs(2)]
      by (simp add: wp_def run_io_def f cs(1))
  qed
qed

lemma wp_run_io_account:
  assumes "accounts R B B' f"
    and "\<And>x w cs. R x \<Longrightarrow> \<forall>fd. fd_balance fd cs = B x fd \<Longrightarrow> Q x (s\<lparr>world := w, calls := calls s @ cs\<rparr>)"
    and "\<And>e w cs. \<forall>fd. fd_balance fd cs = B' fd \<Longrightarrow> E e (s\<lparr>world := w, calls := calls s @ cs\<rparr>)"
  shows "wp (run_io f) Q E s"
proof -
  define m0 where "m0 = \<lparr>world = world s, calls = calls s\<rparr>"
  obtain r m where f: "f m0 = (r, m)" by (cases "f m0")
  have "\<exists>cs. calls (snd (f m0)) = calls m0 @ cs \<and>
      (case fst (f m0) of Inr x \<Rightarrow> R x \<and> (\<forall>fd. fd_balance fd cs = B x fd) | Inl e \<Rightarrow> \<forall>fd. fd_balance fd cs = B' fd)"
    using assms(1) unfolding accounts_def by (rule spec)
  then obtain cs where cs: "calls m = calls s @ cs"
      and r: "case r of Inr x \<Rightarrow> R x \<and> (\<forall>fd. fd_balance fd cs = B x fd) | Inl e \<Rightarrow> \<forall>fd. fd_balance fd cs = B' fd"
    unfolding f by (auto simp: m0_def)
  then show ?thesis using assms(2,3) by (cases r) (auto simp: wp_def run_io_def f [unfolded m0_def])
qed

end
