(* ===== verification/Sockets.thy ===== *)
theory Sockets
  imports Socket_Heap
begin

text \<open>
  \<open>ClientSocket\<close>, \<open>CgiSocket\<close> and \<open>ServerSocket\<close>: construction, destruction, the handlers of
  events and of the timeout, and what the client does when its CGI program ends. A method is a
  function of the address of its object (\<open>this\<close>). What is printed for debugging is left out.

  A \<open>Parse\<close> that throws leaves the request of the connection in a state that the model of the
  parser does not tell: the parameter \<open>left\<close> gives it. Only a request that had been read to the
  end is known to be that request with the new bytes in its buffer.
\<close>

subsection \<open>Parts that the sockets share\<close>

record socket_result =
  sr_new_socket :: "nat option"
  sr_remove_socket :: bool

definition SocketResult_init :: socket_result where
  "SocketResult_init = \<lparr>sr_new_socket = None, sr_remove_socket = False\<rparr>"

definition EPOLLIN :: "32 word" where "EPOLLIN = 1"
definition EPOLLOUT :: "32 word" where "EPOLLOUT = 4"

definition kBufferSize :: nat where "kBufferSize = 1024"

definition call_epoll_ctl ::
  "'w os \<Rightarrow> int \<Rightarrow> epoll_op \<Rightarrow> int \<Rightarrow> 32 word \<Rightarrow> nat option \<Rightarrow> ('w, int option) io" where
  "call_epoll_ctl os epoll_fd op fd ev ptr =
     sys (\<lambda>r. Epoll_ctl epoll_fd op fd ev ptr r) (os_epoll_ctl os epoll_fd op fd ev ptr)"

definition call_send :: "'w os \<Rightarrow> int \<Rightarrow> string \<Rightarrow> ('w, int) io" where
  "call_send os fd data = sys (\<lambda>_. Send fd data) (os_send os fd data)"

definition call_waitpid :: "'w os \<Rightarrow> int \<Rightarrow> ('w, int option) io" where
  "call_waitpid os pid = sys (\<lambda>_. Waitpid pid) (os_waitpid os pid)"

text \<open>\<open>ToHttpString\<close> with the clock, which it reads when the response has no date.\<close>

definition call_ToHttpString :: "'w os \<Rightarrow> http_response \<Rightarrow> ('w, string) io" where
  "call_ToHttpString os res =
     (if map_has (rs_headers res) ''date'' then io_return (ToHttpString None res)
      else io_bind (sys (\<lambda>_. Date) (os_http_date os)) (\<lambda>date. io_return (ToHttpString date res)))"

text \<open>The responses that close the connection.\<close>

definition closing_response :: "status \<Rightarrow> exn + http_response" where
  "closing_response st =
     and_then (AddHeader ''Connection'' ''close'' (HttpResponse_of st)) (\<lambda>res1.
     and_then (AddHeader ''Content-Type'' ''text/html'' res1) (\<lambda>res2.
       Inr (EnsureDefaultErrorContent res2)))"

text \<open>\<open>res_ = ...; write_buffer_ = res_.ToHttpString();\<close>\<close>

definition set_response :: "'w os \<Rightarrow> nat \<Rightarrow> http_response \<Rightarrow> ('w, unit) act" where
  "set_response os this res =
     act_bind (run_io (call_ToHttpString os res)) (\<lambda>text.
     act_bind (load_client this) (\<lambda>c.
       store this (Client (c\<lparr>cl_res := res, so_write_buffer := text\<rparr>))))"

text \<open>Registration for writing.\<close>

definition watch_output :: "'w os \<Rightarrow> int \<Rightarrow> nat \<Rightarrow> ('w, int option) act" where
  "watch_output os epoll_fd this =
     act_bind (load_client this) (\<lambda>c.
       run_io (call_epoll_ctl os epoll_fd EPOLL_CTL_MOD (so_fd c) EPOLLOUT (Some this)))"

definition unwatch :: "'w os \<Rightarrow> int \<Rightarrow> int \<Rightarrow> ('w, int option) act" where
  "unwatch os epoll_fd fd = run_io (call_epoll_ctl os epoll_fd EPOLL_CTL_DEL fd 0 None)"

subsection \<open>Links between a client and its program\<close>

text \<open>\<open>OnSetOwner\<close> is virtual: only \<open>CgiSocket\<close> keeps the owner.\<close>

definition OnSetOwner :: "nat \<Rightarrow> nat option \<Rightarrow> ('w, unit) act" where
  "OnSetOwner this owner =
     act_bind (load this) (\<lambda>obj.
       case obj of Cgi g \<Rightarrow> store this (Cgi (g\<lparr>cgs_owner := owner\<rparr>)) | _ \<Rightarrow> act_return ())"

definition RemoveCgiSocket :: "nat \<Rightarrow> nat \<Rightarrow> ('w, unit) act" where
  "RemoveCgiSocket this sock =
     act_bind (load_client this) (\<lambda>c.
       if cl_cgi_socket c = Some sock then store this (Client (c\<lparr>cl_cgi_socket := None\<rparr>)) else act_return ())"

subsection \<open>Construction and destruction\<close>

definition ClientSocket_init :: "'w os \<Rightarrow> int \<Rightarrow> server_config \<Rightarrow> string \<Rightarrow> ('w, client_socket) io" where
  "ClientSocket_init os fd config client_ip =
     io_bind (ASocket_init os fd) (\<lambda>s.
       io_return (asocket.extend s
         \<lparr>cl_config = config,
          cl_req = SetMaxBodySizeLimit (nat (sc_max_body_size config mod 2 ^ 64)) (SetClientIp client_ip HttpRequest_init),
          cl_res = HttpResponse_init, cl_cgi_socket = None\<rparr>))"

definition ClientSocket_destroy :: "nat \<Rightarrow> ('w, unit) act" where
  "ClientSocket_destroy this =
     act_bind (load_client this) (\<lambda>c.
       case cl_cgi_socket c of None \<Rightarrow> act_return () | Some q \<Rightarrow> OnSetOwner q None)"

definition CgiSocket_destroy :: "'w os \<Rightarrow> nat \<Rightarrow> ('w, unit) act" where
  "CgiSocket_destroy os this =
     act_bind (load_cgi this) (\<lambda>g.
     act_bind (case cgs_owner g of None \<Rightarrow> act_return () | Some p \<Rightarrow> RemoveCgiSocket p this) (\<lambda>_.
       if 0 < cgs_pid g then
         run_io (io_bind (sys (\<lambda>_. Kill (cgs_pid g)) (os_kill os (cgs_pid g))) (\<lambda>_.
           io_bind (call_waitpid os (cgs_pid g)) (\<lambda>_. io_return ())))
       else act_return ()))"

fun obj_fd :: "obj \<Rightarrow> int" where
  "obj_fd (Client c) = so_fd c"
| "obj_fd (Cgi g) = so_fd g"
| "obj_fd (Server v) = so_fd v"

text \<open>\<open>delete\<close>: the destructor of the class, that of the descriptor, and the memory.\<close>

definition delete_socket :: "'w os \<Rightarrow> nat \<Rightarrow> ('w, unit) act" where
  "delete_socket os p =
     act_bind (load p) (\<lambda>obj.
     act_bind (case obj of
         Client c \<Rightarrow> ClientSocket_destroy p
       | Cgi g \<Rightarrow> CgiSocket_destroy os p
       | Server v \<Rightarrow> act_return ()) (\<lambda>_.
     act_bind (run_io (Fd_destroy os (obj_fd obj))) (\<lambda>_.
       release p)))"

subsection \<open>\<open>ClientSocket\<close>\<close>

definition client_UpdateLastActivity :: "'w os \<Rightarrow> nat \<Rightarrow> ('w, unit) act" where
  "client_UpdateLastActivity os this =
     act_bind (load_client this) (\<lambda>c.
     act_bind (run_io (UpdateLastActivity os c)) (\<lambda>c1. store this (Client c1)))"

definition failed_parse :: "(http_request \<Rightarrow> string \<Rightarrow> http_request) \<Rightarrow> http_request \<Rightarrow> string \<Rightarrow> http_request" where
  "failed_parse left r data = (if sp_state r = kDone then append_data data r else left r data)"

text \<open>\<open>req_.Parse(buffer, bytes_received)\<close>\<close>

definition parse_request ::
  "(http_request \<Rightarrow> string \<Rightarrow> http_request) \<Rightarrow> nat \<Rightarrow> string \<Rightarrow> ('w, http_request) act" where
  "parse_request left this data =
     act_bind (load_client this) (\<lambda>c.
       case HttpRequest_Parse (cl_req c) data of
         None \<Rightarrow> act_undefined
       | Some (Inl e) \<Rightarrow>
           act_bind (store this (Client (c\<lparr>cl_req := failed_parse left (cl_req c) data\<rparr>))) (\<lambda>_. act_throw e)
       | Some (Inr r) \<Rightarrow>
           act_bind (store this (Client (c\<lparr>cl_req := r\<rparr>))) (\<lambda>_. act_return r))"

definition call_handler :: "'w os \<Rightarrow> server_config \<Rightarrow> http_request \<Rightarrow> ('w, exec_result) io" where
  "call_handler os config req = (\<lambda>m. case RequestHandler_Run os (RequestHandler_init config req) m of (er, m') \<Rightarrow> (Inr er, m'))"

text \<open>The socket of a program is created by the executor; here it gets its address.\<close>

definition adopt_cgi_socket :: "nat \<Rightarrow> cgi_socket \<Rightarrow> ('w, nat) act" where
  "adopt_cgi_socket this g =
     act_bind (create (Cgi g)) (\<lambda>q.
     act_bind (OnSetOwner q (Some this)) (\<lambda>_.
     act_bind (load_client this) (\<lambda>c.
     act_bind (store this (Client (c\<lparr>cl_cgi_socket := Some q\<rparr>))) (\<lambda>_.
       act_return q))))"

text \<open>The answer to a request that has been read to its end.\<close>

definition answer_request :: "'w os \<Rightarrow> int \<Rightarrow> nat \<Rightarrow> ('w, socket_result) act" where
  "answer_request os epoll_fd this =
     act_bind (load_client this) (\<lambda>c.
     act_bind (run_io (call_handler os (cl_config c) (cl_req c))) (\<lambda>result.
     act_bind (set_response os this (er_response result)) (\<lambda>_.
       if er_is_async result then
         (case er_new_socket result of
            None \<Rightarrow> act_return SocketResult_init
          | Some g \<Rightarrow>
              act_bind (adopt_cgi_socket this g) (\<lambda>q.
                act_return (SocketResult_init\<lparr>sr_new_socket := Some q\<rparr>)))
       else
         act_bind (set_response os this (er_response result)) (\<lambda>_.
         act_bind (watch_output os epoll_fd this) (\<lambda>r.
           case r of
             Some e \<Rightarrow> act_throw (ResponseStatusException (MapErrnoToHttpStatus e))
           | None \<Rightarrow> act_return SocketResult_init)))))"

definition HandleEpollIn ::
  "'w os \<Rightarrow> (http_request \<Rightarrow> string \<Rightarrow> http_request) \<Rightarrow> int \<Rightarrow> nat \<Rightarrow> ('w, socket_result) act" where
  "HandleEpollIn os left epoll_fd this =
     act_bind (load_client this) (\<lambda>c.
     act_bind (run_io (sys (\<lambda>_. Recv (so_fd c) kBufferSize) (os_recv os (so_fd c) kBufferSize))) (\<lambda>r.
       case r of
         None \<Rightarrow> act_throw ConnectionClosed
       | Some data \<Rightarrow>
           (if data = [] then act_throw ConnectionClosed
            else
              act_bind (parse_request left this data) (\<lambda>req.
                if IsDone req then answer_request os epoll_fd this else act_return SocketResult_init))))"

definition HandleEpollOut :: "'w os \<Rightarrow> nat \<Rightarrow> ('w, unit) act" where
  "HandleEpollOut os this =
     act_bind (load_client this) (\<lambda>c.
       if so_write_buffer c = [] then act_return ()
       else
         act_bind (run_io (call_send os (so_fd c) (so_write_buffer c))) (\<lambda>bytes_sent.
           if bytes_sent = -1 then act_throw ConnectionClosed
           else if 0 \<le> bytes_sent \<and> nat bytes_sent < length (so_write_buffer c) then
             store this (Client (c\<lparr>so_write_buffer := substr (so_write_buffer c) (nat bytes_sent) (length (so_write_buffer c))\<rparr>))
           else
             act_bind (store this (Client (c\<lparr>so_write_buffer := []\<rparr>))) (\<lambda>_.
               act_throw ConnectionClosed)))"

text \<open>The three handlers of \<open>HandleEvent\<close>, with the result so far.\<close>

definition client_exception :: "'w os \<Rightarrow> int \<Rightarrow> nat \<Rightarrow> socket_result \<Rightarrow> exn \<Rightarrow> ('w, socket_result) act" where
  "client_exception os epoll_fd this result e =
     (case e of
        ResponseStatusException st \<Rightarrow>
          act_bind (run_io (io_lift (closing_response st))) (\<lambda>res.
          act_bind (set_response os this res) (\<lambda>_.
          act_bind (watch_output os epoll_fd this) (\<lambda>r.
            if r \<noteq> None then
              act_bind (load_client this) (\<lambda>c.
              act_bind (unwatch os epoll_fd (so_fd c)) (\<lambda>_.
                act_return (result\<lparr>sr_remove_socket := True\<rparr>)))
            else act_return result)))
      | _ \<Rightarrow>
          act_bind (load_client this) (\<lambda>c.
          act_bind (unwatch os epoll_fd (so_fd c)) (\<lambda>_.
            act_return (result\<lparr>sr_remove_socket := True\<rparr>))))"

definition client_HandleEvent ::
  "'w os \<Rightarrow> (http_request \<Rightarrow> string \<Rightarrow> http_request) \<Rightarrow> int \<Rightarrow> nat \<Rightarrow> 32 word \<Rightarrow> ('w, socket_result) act" where
  "client_HandleEvent os left epoll_fd this events =
     act_bind (client_UpdateLastActivity os this) (\<lambda>_.
     act_bind (act_try (if events AND EPOLLIN \<noteq> 0 then HandleEpollIn os left epoll_fd this
                        else act_return SocketResult_init)) (\<lambda>in_result.
       case in_result of
         Inl e \<Rightarrow> client_exception os epoll_fd this SocketResult_init e
       | Inr result \<Rightarrow>
           act_bind (act_try (if events AND EPOLLOUT \<noteq> 0 then HandleEpollOut os this else act_return ())) (\<lambda>out.
             case out of
               Inl e \<Rightarrow> client_exception os epoll_fd this result e
             | Inr _ \<Rightarrow> act_return result)))"

text \<open>The loop of \<open>HandleTimeout\<close>: what is left of the buffer.\<close>

function send_loop :: "'w os \<Rightarrow> int \<Rightarrow> string \<Rightarrow> ('w, string) io" where
  "send_loop os fd buffer m =
     (if buffer = [] then (Inr [], m)
      else
        (case call_send os fd buffer m of
           (Inl e, m1) \<Rightarrow> (Inl e, m1)
         | (Inr bytes_sent, m1) \<Rightarrow>
             (if bytes_sent \<le> 0 then (Inr buffer, m1)
              else if nat bytes_sent < length buffer
              then send_loop os fd (substr buffer (nat bytes_sent) (length buffer)) m1
              else (Inr [], m1))))"
  by pat_completeness auto
termination
  by (relation "measure (\<lambda>(os, fd, buffer, m). length buffer)") (auto simp: substr_def)

definition client_HandleTimeout :: "'w os \<Rightarrow> int \<Rightarrow> nat \<Rightarrow> ('w, unit) act" where
  "client_HandleTimeout os epoll_fd this =
     act_bind (run_io (io_lift (closing_response kRequestTimeout))) (\<lambda>res.
     act_bind (set_response os this res) (\<lambda>_.
     act_bind (load_client this) (\<lambda>c.
     act_bind (run_io (send_loop os (so_fd c) (so_write_buffer c))) (\<lambda>rest.
     act_bind (store this (Client (c\<lparr>so_write_buffer := rest\<rparr>))) (\<lambda>_.
     act_bind (unwatch os epoll_fd (so_fd c)) (\<lambda>_.
       act_return ()))))))"

definition OnCgiExecutionFinished :: "'w os \<Rightarrow> int \<Rightarrow> nat \<Rightarrow> string \<Rightarrow> ('w, unit) act" where
  "OnCgiExecutionFinished os epoll_fd this cgi_output =
     act_bind (client_UpdateLastActivity os this) (\<lambda>_.
     act_bind (case ParseCgiResponse cgi_output of
         None \<Rightarrow> act_undefined
       | Some (Inr res) \<Rightarrow> act_return res
       | Some (Inl e) \<Rightarrow>
           (case e of
              ResponseStatusException _ \<Rightarrow> run_io (io_lift (closing_response kInternalServerError))
            | _ \<Rightarrow> act_throw e)) (\<lambda>res.
     act_bind (set_response os this res) (\<lambda>_.
     act_bind (watch_output os epoll_fd this) (\<lambda>_.
       act_return ()))))"

definition OnCgiExecutionError :: "'w os \<Rightarrow> int \<Rightarrow> nat \<Rightarrow> ('w, unit) act" where
  "OnCgiExecutionError os epoll_fd this =
     act_bind (client_UpdateLastActivity os this) (\<lambda>_.
     act_bind (set_response os this (HttpResponse_of kInternalServerError)) (\<lambda>_.
     act_bind (watch_output os epoll_fd this) (\<lambda>_.
       act_return ())))"

subsection \<open>\<open>CgiSocket\<close>\<close>

text \<open>The end of the output: the program is waited for, and the owner is told.\<close>

definition cgi_finished :: "'w os \<Rightarrow> int \<Rightarrow> nat \<Rightarrow> ('w, unit) act" where
  "cgi_finished os epoll_fd this =
     act_bind (load_cgi this) (\<lambda>g.
     act_bind (run_io (call_waitpid os (cgs_pid g))) (\<lambda>status.
     act_bind (store this (Cgi (g\<lparr>cgs_pid := -1\<rparr>))) (\<lambda>_.
     act_bind (unwatch os epoll_fd (so_fd g)) (\<lambda>r.
       case r of
         Some e \<Rightarrow> act_throw (ResponseStatusException (MapErrnoToHttpStatus e))
       | None \<Rightarrow>
           (case cgs_owner g of
              None \<Rightarrow> act_return ()
            | Some p \<Rightarrow>
                (if status = Some 0 then OnCgiExecutionFinished os epoll_fd p (so_read_buffer g)
                 else OnCgiExecutionError os epoll_fd p))))))"

definition cgi_HandleEvent :: "'w os \<Rightarrow> int \<Rightarrow> nat \<Rightarrow> 32 word \<Rightarrow> ('w, socket_result) act" where
  "cgi_HandleEvent os epoll_fd this events =
     act_bind (act_try (
       if events AND EPOLLIN \<noteq> 0 then
         act_bind (load_cgi this) (\<lambda>g.
         act_bind (run_io (sys (\<lambda>_. Read (so_fd g) kBufferSize) (os_read os (so_fd g) kBufferSize))) (\<lambda>n.
           case n of
             Some (c # buf) \<Rightarrow>
               act_bind (store this (Cgi (g\<lparr>so_read_buffer := so_read_buffer g @ c # buf\<rparr>))) (\<lambda>_.
                 act_return SocketResult_init)
           | _ \<Rightarrow>
               act_bind (cgi_finished os epoll_fd this) (\<lambda>_.
                 act_return (SocketResult_init\<lparr>sr_remove_socket := True\<rparr>))))
       else act_return SocketResult_init)) (\<lambda>r.
       case r of
         Inr result \<Rightarrow> act_return result
       | Inl e \<Rightarrow>
           act_bind (load_cgi this) (\<lambda>g.
           act_bind (unwatch os epoll_fd (so_fd g)) (\<lambda>_.
             act_return (SocketResult_init\<lparr>sr_remove_socket := True\<rparr>))))"

subsection \<open>\<open>ServerSocket\<close>\<close>

text \<open>\<open>ntohl\<close> on a little-endian machine: the bytes in reverse order.\<close>

definition ntohl :: "32 word \<Rightarrow> 32 word" where
  "ntohl w =
     (push_bit 24 (w AND 255)) OR (push_bit 8 (w AND 65280)) OR (drop_bit 8 w AND 65280) OR (drop_bit 24 w AND 255)"

definition Ipv4ToString :: "32 word \<Rightarrow> string" where
  "Ipv4ToString addr =
     (let ip = ntohl addr
      in ToString_nat (unat (drop_bit 24 ip AND 255)) @ ''.'' @ ToString_nat (unat (drop_bit 16 ip AND 255)) @ ''.'' @
         ToString_nat (unat (drop_bit 8 ip AND 255)) @ ''.'' @ ToString_nat (unat (ip AND 255)))"

definition CreateServerSocketFd :: "'w os \<Rightarrow> ('w, int) io" where
  "CreateServerSocketFd os =
     io_bind (sys Socket (os_socket os)) (\<lambda>fd.
       if fd = -1 then io_throw (RuntimeError ''socket() failed. '') else io_return fd)"

text \<open>The body of the constructor, and the constructor: the base class comes first, and when a
  later step throws, its destructor closes.\<close>

definition start_listening :: "'w os \<Rightarrow> server_config \<Rightarrow> asocket \<Rightarrow> ('w, server_socket) io" where
  "start_listening os config s =
     io_bind (sys (\<lambda>_. Setsockopt (so_fd s)) (os_setsockopt os (so_fd s))) (\<lambda>ok.
     io_bind (if ok then io_return () else io_throw (RuntimeError ''setsockopt() failed. '')) (\<lambda>_.
     io_bind (sys (\<lambda>_. Bind (so_fd s) (sc_port config)) (os_bind os (so_fd s) (sc_port config))) (\<lambda>ok.
     io_bind (if ok then io_return () else io_throw (RuntimeError ''bind() failed. '')) (\<lambda>_.
     io_bind (sys (\<lambda>_. Listen (so_fd s)) (os_listen os (so_fd s))) (\<lambda>ok.
     io_bind (if ok then io_return () else io_throw (RuntimeError ''listen() failed. '')) (\<lambda>_.
       io_return (asocket.extend s \<lparr>ss_config = config\<rparr>)))))))"

definition ServerSocket_init :: "'w os \<Rightarrow> server_config \<Rightarrow> ('w, server_socket) io" where
  "ServerSocket_init os config =
     io_bind (CreateServerSocketFd os) (\<lambda>fd.
     io_bind (ASocket_init os fd) (\<lambda>s.
       io_unwind (start_listening os config s) (Fd_destroy os (so_fd s))))"

definition server_HandleEvent :: "'w os \<Rightarrow> nat \<Rightarrow> 32 word \<Rightarrow> ('w, socket_result) act" where
  "server_HandleEvent os this events =
     (if events AND EPOLLIN = 0 then act_return SocketResult_init
      else
        act_bind (load this) (\<lambda>obj.
          case obj of
            Server v \<Rightarrow>
              act_bind (run_io (sys (Accept (so_fd v)) (os_accept os (so_fd v)))) (\<lambda>r.
                case r of
                  None \<Rightarrow> act_return SocketResult_init
                | Some (client_fd, addr) \<Rightarrow>
                    act_bind (act_try (run_io (ClientSocket_init os client_fd (ss_config v) (Ipv4ToString addr)))) (\<lambda>res.
                      case res of
                        Inl e \<Rightarrow> act_return SocketResult_init
                      | Inr c \<Rightarrow>
                          act_bind (create (Client c)) (\<lambda>p.
                            act_return (SocketResult_init\<lparr>sr_new_socket := Some p\<rparr>))))
          | _ \<Rightarrow> act_undefined))"

subsection \<open>Virtual functions\<close>

definition HandleEvent ::
  "'w os \<Rightarrow> (http_request \<Rightarrow> string \<Rightarrow> http_request) \<Rightarrow> int \<Rightarrow> nat \<Rightarrow> 32 word \<Rightarrow> ('w, socket_result) act" where
  "HandleEvent os left epoll_fd p events =
     act_bind (load p) (\<lambda>obj.
       case obj of
         Client c \<Rightarrow> client_HandleEvent os left epoll_fd p events
       | Cgi g \<Rightarrow> cgi_HandleEvent os epoll_fd p events
       | Server v \<Rightarrow> server_HandleEvent os p events)"

definition HandleTimeout :: "'w os \<Rightarrow> int \<Rightarrow> nat \<Rightarrow> ('w, unit) act" where
  "HandleTimeout os epoll_fd p =
     act_bind (load p) (\<lambda>obj.
       case obj of Client c \<Rightarrow> client_HandleTimeout os epoll_fd p | _ \<Rightarrow> act_return ())"

fun obj_IsTimeout :: "obj \<Rightarrow> int \<Rightarrow> bool" where
  "obj_IsTimeout (Client c) threshold_time = IsTimeout c threshold_time"
| "obj_IsTimeout (Cgi g) threshold_time = IsTimeout g threshold_time"
| "obj_IsTimeout (Server v) threshold_time = False"

end
