(* ===== verification/Event_Loop.thy ===== *)
theory Event_Loop
  imports Sockets Config_Parser
begin

text \<open>
  \<open>Webserv\<close>: the servers by port, the sockets by descriptor, and the loop. \<open>epoll_wait\<close> is the
  environment: one turn of the loop is a function of what it reported, and \<open>reachable\<close> allows
  any report that the kernel may give: registered pointers, each at most once.
\<close>

subsection \<open>State\<close>

record webserv =
  ws_port_to_server_configs :: "(16 word, server_config) std_map"
  ws_epoll_fd :: int
  ws_sockets :: "(int, nat) std_map"

definition Webserv_empty :: webserv where
  "Webserv_empty = \<lparr>ws_port_to_server_configs = [], ws_epoll_fd = -1, ws_sockets = []\<rparr>"

subsection \<open>Construction and destruction\<close>

fun init_loop :: "(16 word, server_config) std_map \<Rightarrow> server_config list \<Rightarrow> (16 word, server_config) std_map" where
  "init_loop m [] = m"
| "init_loop m (server # configs) =
     (if map_has m (sc_port server) then init_loop m configs
      else init_loop (map_put (sc_port server) server m) configs)"

definition InitServersFromConfigs :: "server_config list \<Rightarrow> webserv \<Rightarrow> webserv" where
  "InitServersFromConfigs configs ws = ws\<lparr>ws_port_to_server_configs := init_loop [] configs\<rparr>"

definition FindServerConfigByPort :: "webserv \<Rightarrow> 16 word \<Rightarrow> server_config option" where
  "FindServerConfigByPort ws port = map_get (ws_port_to_server_configs ws) port"

text \<open>The sockets in the order of their descriptors.\<close>

fun delete_sockets :: "'w os \<Rightarrow> (int \<times> nat) list \<Rightarrow> ('w, unit) act" where
  "delete_sockets os [] = act_return ()"
| "delete_sockets os ((fd, p) # rest) =
     act_bind (load p) (\<lambda>_.
     act_bind (delete_socket os p) (\<lambda>_. delete_sockets os rest))"

definition ClearResources :: "'w os \<Rightarrow> webserv \<Rightarrow> ('w, webserv) act" where
  "ClearResources os ws =
     act_bind (delete_sockets os (ws_sockets ws)) (\<lambda>_. act_return (ws\<lparr>ws_sockets := []\<rparr>))"

text \<open>\<open>~Webserv\<close> and then that of the member \<open>epoll_fd_\<close>.\<close>

definition Webserv_destroy :: "'w os \<Rightarrow> webserv \<Rightarrow> ('w, unit) act" where
  "Webserv_destroy os ws =
     act_bind (ClearResources os ws) (\<lambda>ws1. run_io (Fd_destroy os (ws_epoll_fd ws1)))"

text \<open>The loop of the constructor: the sockets so far, and the exception that ended it.\<close>

fun listen_loop :: "'w os \<Rightarrow> webserv \<Rightarrow> server_config list \<Rightarrow> ('w, webserv \<times> exn option) act" where
  "listen_loop os ws [] = act_return (ws, None)"
| "listen_loop os ws (config # configs) =
     act_bind (act_try (run_io (ServerSocket_init os config))) (\<lambda>r.
       case r of
         Inl e \<Rightarrow> act_return (ws, Some e)
       | Inr v \<Rightarrow>
           act_bind (create (Server v)) (\<lambda>p.
             let ws1 = ws\<lparr>ws_sockets := map_put (so_fd v) p (ws_sockets ws)\<rparr>
             in act_bind (run_io (call_epoll_ctl os (ws_epoll_fd ws1) EPOLL_CTL_ADD (so_fd v) EPOLLIN (Some p))) (\<lambda>r.
                  if r \<noteq> None then act_return (ws1, Some (RuntimeError ''epoll_ctl() failed. ''))
                  else listen_loop os ws1 configs)))"

definition Webserv_init :: "'w os \<Rightarrow> string option \<Rightarrow> string \<Rightarrow> ('w, webserv) act" where
  "Webserv_init os getcwd config_file =
     act_bind (run_io (LoadFileOrThrowRuntime os config_file)) (\<lambda>content.
     act_bind (run_io (io_lift (ConfigParser_Parse getcwd content))) (\<lambda>configs.
       let ws = InitServersFromConfigs configs Webserv_empty
       in act_bind (run_io (sys Epoll_create (os_epoll_create os))) (\<lambda>epoll_fd.
            if epoll_fd = -1 then act_throw (RuntimeError ''epoll_create() failed. '')
            else
              act_bind (listen_loop os (ws\<lparr>ws_epoll_fd := epoll_fd\<rparr>) (map snd (ws_port_to_server_configs ws)))
                (\<lambda>(ws1, r).
                  case r of
                    None \<Rightarrow> act_return ws1
                  | Some e \<Rightarrow>
                      act_bind (ClearResources os ws1) (\<lambda>ws2.
                      act_bind (run_io (Fd_destroy os (ws_epoll_fd ws2))) (\<lambda>_.
                        act_throw e))))))"

subsection \<open>The loop\<close>

definition kRequestTimeoutSeconds :: int where "kRequestTimeoutSeconds = 10"
definition kMaxEvents :: nat where "kMaxEvents = 10"

fun timeout_loop :: "'w os \<Rightarrow> int \<Rightarrow> webserv \<Rightarrow> (int \<times> nat) list \<Rightarrow> ('w, webserv) act" where
  "timeout_loop os threshold ws [] = act_return ws"
| "timeout_loop os threshold ws ((fd, p) # rest) =
     act_bind (load p) (\<lambda>obj.
       if obj_IsTimeout obj threshold then
         act_bind (HandleTimeout os (ws_epoll_fd ws) p) (\<lambda>_.
         act_bind (delete_socket os p) (\<lambda>_.
           timeout_loop os threshold (ws\<lparr>ws_sockets := map_del fd (ws_sockets ws)\<rparr>) rest))
       else timeout_loop os threshold ws rest)"

definition CheckTimeout :: "'w os \<Rightarrow> webserv \<Rightarrow> ('w, webserv) act" where
  "CheckTimeout os ws =
     act_bind (run_io (call_time os)) (\<lambda>now.
       timeout_loop os (now - kRequestTimeoutSeconds) ws (ws_sockets ws))"

text \<open>The two halves of the body of the loop over the events.\<close>

definition add_socket :: "'w os \<Rightarrow> webserv \<Rightarrow> nat \<Rightarrow> ('w, webserv) act" where
  "add_socket os ws p =
     act_bind (load p) (\<lambda>obj.
       let ws1 = ws\<lparr>ws_sockets := map_put (obj_fd obj) p (ws_sockets ws)\<rparr>
       in act_bind (run_io (call_epoll_ctl os (ws_epoll_fd ws1) EPOLL_CTL_ADD (obj_fd obj) EPOLLIN (Some p))) (\<lambda>r.
            if r \<noteq> None then
              act_bind (delete_socket os p) (\<lambda>_.
                act_return (ws1\<lparr>ws_sockets := map_del (obj_fd obj) (ws_sockets ws1)\<rparr>))
            else act_return ws1))"

definition remove_socket :: "'w os \<Rightarrow> webserv \<Rightarrow> nat \<Rightarrow> ('w, webserv) act" where
  "remove_socket os ws p =
     act_bind (load p) (\<lambda>obj.
     act_bind (delete_socket os p) (\<lambda>_.
       act_return (ws\<lparr>ws_sockets := map_del (obj_fd obj) (ws_sockets ws)\<rparr>)))"

fun event_loop ::
  "'w os \<Rightarrow> (http_request \<Rightarrow> string \<Rightarrow> http_request) \<Rightarrow> webserv \<Rightarrow> (nat \<times> 32 word) list \<Rightarrow> ('w, webserv) act" where
  "event_loop os left ws [] = act_return ws"
| "event_loop os left ws ((p, events) # rest) =
     act_bind (HandleEvent os left (ws_epoll_fd ws) p events) (\<lambda>result.
     act_bind (case sr_new_socket result of None \<Rightarrow> act_return ws | Some q \<Rightarrow> add_socket os ws q) (\<lambda>ws1.
     act_bind (if sr_remove_socket result then remove_socket os ws1 p else act_return ws1) (\<lambda>ws2.
       event_loop os left ws2 rest)))"

text \<open>
  One turn of \<open>Run\<close>. \<open>reported\<close> is what \<open>epoll_wait\<close> returns after the timeouts, \<open>None\<close> when it
  fails.
\<close>

definition Run_turn ::
  "'w os \<Rightarrow> (http_request \<Rightarrow> string \<Rightarrow> http_request) \<Rightarrow> webserv \<Rightarrow> (nat \<times> 32 word) list option \<Rightarrow> ('w, webserv) act" where
  "Run_turn os left ws1 reported =
     (case reported of None \<Rightarrow> act_return ws1 | Some events \<Rightarrow> event_loop os left ws1 events)"

text \<open>What is registered, according to the calls; closing a descriptor ends its registration.\<close>

fun register :: "syscall \<Rightarrow> (int, nat) std_map \<Rightarrow> (int, nat) std_map" where
  "register (Epoll_ctl epfd EPOLL_CTL_ADD fd ev (Some p) None) r = map_put fd p r"
| "register (Epoll_ctl epfd EPOLL_CTL_MOD fd ev (Some p) None) r = map_put fd p r"
| "register (Epoll_ctl epfd EPOLL_CTL_DEL fd ev ptr None) r = map_del fd r"
| "register (Close fd) r = map_del fd r"
| "register _ r = r"

definition registered :: "syscall list \<Rightarrow> (int, nat) std_map" where
  "registered cs = fold register cs []"

text \<open>The documented behaviour of \<open>epoll_wait\<close>.\<close>

definition may_report :: "syscall list \<Rightarrow> (nat \<times> 32 word) list option \<Rightarrow> bool" where
  "may_report cs reported \<longleftrightarrow>
     (case reported of
        None \<Rightarrow> True
      | Some events \<Rightarrow>
          length events \<le> kMaxEvents \<and> distinct (map fst events) \<and>
          list_all (\<lambda>(p, ev). p \<in> snd ` set (registered cs)) events)"

text \<open>The states of the server: after its construction, and then turn by turn.\<close>

definition initial_server :: "'w \<Rightarrow> 'w server" where
  "initial_server w = \<lparr>world = w, calls = [], heap = Map.empty, next_address = 0\<rparr>"

inductive reachable ::
  "'w os \<Rightarrow> (http_request \<Rightarrow> string \<Rightarrow> http_request) \<Rightarrow> string option \<Rightarrow> string \<Rightarrow> 'w \<Rightarrow> webserv \<Rightarrow> 'w server \<Rightarrow> bool"
  for os left getcwd config_file w where
  start: "Webserv_init os getcwd config_file (initial_server w) = Some (Inr ws, s) \<Longrightarrow>
      reachable os left getcwd config_file w ws s"
| turn: "reachable os left getcwd config_file w ws s \<Longrightarrow> CheckTimeout os ws s = Some (Inr ws1, s1) \<Longrightarrow>
      may_report (calls s1) reported \<Longrightarrow> Run_turn os left ws1 reported s1 = Some (Inr ws2, s2) \<Longrightarrow>
      reachable os left getcwd config_file w ws2 s2"

end
