(* ===== verification/Handler_Safety.thy ===== *)
theory Handler_Safety
  imports Request_Handler
begin

text \<open>
  The properties of \<open>RequestHandler::Run\<close>: every call stays below the document root of the
  matched location, every request gets a result in proper form, refused requests do
  not touch the machine, and the methods are consistent with each other: what is stored is
  what is served, and what is deleted is gone. Here the file system behaves as documented.
\<close>

subsection \<open>\<open>Run\<close> as a whole\<close>

lemma header_keys:
  "ToLowerAscii ''Location'' = ''location''" "ToLowerAscii ''Allow'' = ''allow''"
  "ToLowerAscii ''Connection'' = ''connection''" "ToLowerAscii ''Content-Type'' = ''content-type''"
  by code_simp+

lemma PrepareRoutingContext_Inr:
  assumes "PrepareRoutingContext rh = Inr (rh1, lm)"
  shows "FindLocationForUri (rh_conf rh) (rq_uri (rh_req rh)) = Inr lm" and "rh_req rh1 = rh_req rh"
    and "loc_has_redirect (lm_loc lm) \<or> valid_path (loc_root (lm_loc lm)) (rh_filesystem_path rh1)"
    and "\<not> loc_has_redirect (lm_loc lm) \<Longrightarrow>
      ValidateAndNormalizePath (loc_root (lm_loc lm) @ lm_remainder lm) (loc_root (lm_loc lm)) = Inr (rh_filesystem_path rh1)"
  using assms
  by (auto simp: PrepareRoutingContext_def and_then_Inr_iff Let_def ResolveFilesystemPath_def valid_path_def
      split: if_splits)

lemma FindLocationForUri_error: "FindLocationForUri c uri = Inl e \<Longrightarrow> file_error e"
  by (auto simp: FindLocationForUri_def Let_def split: option.splits if_splits)

lemma PrepareRoutingContext_Inl: "PrepareRoutingContext rh = Inl e \<Longrightarrow> run_error e"
  by (auto simp: PrepareRoutingContext_def and_then_Inl_iff Let_def ResolveFilesystemPath_def
      intro: validate_error dest: FindLocationForUri_error split: if_splits)

text \<open>The two refusals: a response, or the error of a header that the configuration spoils.\<close>

definition refusal_ok :: "location \<Rightarrow> exec_result \<Rightarrow> bool" where
  "refusal_ok l er \<longleftrightarrow> er_is_async er = False \<and> er_new_socket er = None \<and> built_response (er_response er) \<and>
     GetStatus (er_response er) = loc_redirect_status l \<and>
     map_get (rs_headers (er_response er)) ''location'' = Some (loc_redirect l)"

definition result_ok :: "location \<Rightarrow> exec_result \<Rightarrow> bool" where
  "result_ok l er \<longleftrightarrow> run_ok er \<or> (loc_has_redirect l \<and> refusal_ok l er)"

lemma redirect_response_ok:
  "redirect_response l = Inr res \<Longrightarrow> refusal_ok l (ExecResult_of_response res)"
  unfolding redirect_response_def refusal_ok_def ExecResult_of_response_def exec_result.select_convs
  by (auto intro: AddHeader_built built_response.intros dest: GetStatus_AddHeader)
     (auto simp: AddHeader_Inr header_keys)

lemma method_not_allowed_ok:
  assumes "method_not_allowed_response l = Inr res"
  shows "run_ok (ExecResult_of_response res)" and "GetStatus res = kMethodNotAllowed"
    and "map_get (rs_headers res) ''allow'' = Some (GetAllowedMethodsString l)"
proof -
  obtain r1 r2 r3 where r1: "AddHeader ''Allow'' (GetAllowedMethodsString l) (SetStatus kMethodNotAllowed HttpResponse_init) = Inr r1"
      and r2: "AddHeader ''Connection'' ''close'' r1 = Inr r2"
      and r3: "AddHeader ''Content-Type'' ''text/html'' r2 = Inr r3" and res: "res = EnsureDefaultErrorContent r3"
    using assms by (auto simp: method_not_allowed_response_def and_then_Inr_iff)
  show st: "GetStatus res = kMethodNotAllowed"
    unfolding res using GetStatus_AddHeader [OF r1] GetStatus_AddHeader [OF r2] GetStatus_AddHeader [OF r3] by simp
  have "built_response res" unfolding res
    by (intro built_response.intros(6) AddHeader_built [OF r3] AddHeader_built [OF r2] AddHeader_built [OF r1]
        built_response.intros(1-5))
  then show "run_ok (ExecResult_of_response res)" using st by simp
  show "map_get (rs_headers res) ''allow'' = Some (GetAllowedMethodsString l)"
    using r1 r2 r3
    by (auto simp: res AddHeader_Inr header_keys EnsureDefaultErrorContent_def)
qed

lemma MethodToString_no_break: "no_break (MethodToString meth)"
  by (cases meth) simp_all

lemma methods_string_no_break: "no_break (methods_string ms)"
  by (induction ms rule: methods_string.induct) (auto simp: MethodToString_no_break)

lemma method_not_allowed_Inr:
  obtains res where "method_not_allowed_response l = Inr res"
  using methods_string_no_break
  by (auto simp: method_not_allowed_response_def and_then_Inr_iff AddHeader_Inr GetAllowedMethodsString_def)

lemma redirect_response_error: "redirect_response l = Inl e \<Longrightarrow> run_error e"
  by (auto simp: redirect_response_def dest: AddHeader_error)

lemma method_not_allowed_error: "method_not_allowed_response l = Inl e \<Longrightarrow> run_error e"
  by (auto simp: method_not_allowed_response_def and_then_Inl_iff dest: AddHeader_error)

lemma not_implemented_ok: "run_ok (ExecResult_of_response (HttpResponse_of kNotImplemented))"
  by (simp add: built_response.intros)

lemma run_method_spec:
  assumes "loc_has_redirect (lm_loc lm) \<or> valid_path (loc_root (lm_loc lm)) (rh_filesystem_path rh)"
  shows "io_spec (confined (lm_loc lm)) (result_ok (lm_loc lm)) run_error (run_method os rh lm)"
proof -
  have ok: "io_spec (confined (lm_loc lm)) (result_ok (lm_loc lm)) run_error f"
    if "io_spec (confined (lm_loc lm)) run_ok run_error f" for f :: "('a, exec_result) io"
    by (rule io_spec_weaken [OF that]) (simp_all add: result_ok_def)
  show ?thesis
  proof (cases "loc_has_redirect (lm_loc lm)")
    case True
    then show ?thesis unfolding run_method_def Let_def
      by (simp, intro io_rules)
         (auto intro: redirect_response_error simp: result_ok_def redirect_response_ok)
  next
    case False
    then have v: "valid_path (loc_root (lm_loc lm)) (rh_filesystem_path rh)" using assms by simp
    have "io_spec (confined (lm_loc lm)) run_ok run_error (run_method os rh lm)"
      unfolding run_method_def Let_def if_not_P [OF False]
      by (intro io_spec_if HandleGet_spec [OF v] HandlePost_spec [OF v] HandleDelete_spec [OF v]
          io_spec_lift_bind io_spec_return)
         (auto simp del: run_ok_response intro: method_not_allowed_error method_not_allowed_ok(1) not_implemented_ok)
    then show ?thesis by (rule ok)
  qed
qed

lemma exception_result_ok: "run_error e \<Longrightarrow> run_ok (exception_result e)"
  by (auto simp: run_error_def file_error_def exception_result_def handler_statuses_def built_response.intros)

definition routed :: "server_config \<Rightarrow> http_request \<Rightarrow> location option" where
  "routed conf req = (case FindLocationForUri conf (rq_uri req) of Inr lm \<Rightarrow> Some (lm_loc lm) | Inl _ \<Rightarrow> None)"

lemma RequestHandler_Run_cases:
  assumes "RequestHandler_Run os (RequestHandler_init conf req) m = (er, m')"
  shows "case routed conf req of
     Some l \<Rightarrow> result_ok l er \<and> (\<exists>cs. calls m' = calls m @ cs \<and> list_all (confined l) cs)
   | None \<Rightarrow> run_ok er \<and> m' = m"
proof (cases "PrepareRoutingContext (RequestHandler_init conf req)")
  case (Inl e)
  then have "er = exception_result e" "m' = m"
    using assms by (simp_all add: RequestHandler_Run_def io_run)
  moreover have "run_ok (exception_result e)"
    by (rule exception_result_ok) (rule PrepareRoutingContext_Inl [OF Inl])
  ultimately show ?thesis by (auto simp: result_ok_def split: option.split)
next
  case (Inr p)
  obtain rh lm where p: "p = (rh, lm)" by (cases p)
  note prep = PrepareRoutingContext_Inr [OF Inr [unfolded p]]
  have r: "routed conf req = Some (lm_loc lm)" using prep(1) by (simp add: routed_def RequestHandler_init_def)
  obtain x m1 where run: "run_method os rh lm m = (x, m1)" by (cases "run_method os rh lm m")
  note spec = io_spec_D [OF run_method_spec [OF prep(3)] run]
  have er: "m' = m1" "er = (case x of Inr y \<Rightarrow> y | Inl e \<Rightarrow> exception_result e)"
    using assms run by (auto simp: RequestHandler_Run_def io_run Inr p split: sum.splits)
  have "result_ok (lm_loc lm) er"
  proof (cases x)
    case (Inl e)
    then show ?thesis using er(2) exception_result_ok [OF spec(3)] by (simp add: result_ok_def)
  next
    case (Inr y)
    then show ?thesis using er(2) spec(2) by simp
  qed
  then show ?thesis using r spec(1) er(1) by simp
qed

subsection \<open>The methods on the file system\<close>

text \<open>The handler when it reaches a method: the path is the one of the matched location.\<close>

definition target :: "server_config \<Rightarrow> http_request \<Rightarrow> location \<Rightarrow> string \<Rightarrow> bool" where
  "target conf req l p \<longleftrightarrow>
     (case FindLocationForUri conf (rq_uri req) of
        Inl e \<Rightarrow> False
      | Inr lm \<Rightarrow> lm_loc lm = l \<and> \<not> loc_has_redirect l \<and>
          ValidateAndNormalizePath (loc_root l @ lm_remainder lm) (loc_root l) = Inr p)"

definition method_allowed :: "location \<Rightarrow> http_method \<Rightarrow> bool" where
  "method_allowed l meth \<longleftrightarrow> \<not> loc_has_allowed_methods l \<or> IsMethodAllowed l meth"

lemma target_valid: "target conf req l p \<Longrightarrow> valid_path (loc_root l) p"
  by (auto simp: target_def valid_path_def split: sum.splits)

lemma target_cong: "rq_uri req' = rq_uri req \<Longrightarrow> target conf req' l p = target conf req l p"
  by (simp add: target_def)

lemma target_run:
  assumes "target conf req l p"
  obtains rh lm where "PrepareRoutingContext (RequestHandler_init conf req) = Inr (rh, lm)"
    and "lm_loc lm = l" and "rh_req rh = req" and "rh_filesystem_path rh = p"
  using assms that
  by (auto simp: target_def PrepareRoutingContext_def ResolveFilesystemPath_def RequestHandler_init_def Let_def
      split: sum.splits)

text \<open>The choice of the method, without the refusals.\<close>

definition dispatch :: "'w os \<Rightarrow> request_handler \<Rightarrow> location_match \<Rightarrow> ('w, exec_result) io" where
  "dispatch os rh lm =
     (if rq_method (rh_req rh) = kGet then HandleGet os rh lm
      else if rq_method (rh_req rh) = kPost then HandlePost os rh lm
      else if rq_method (rh_req rh) = kDelete then HandleDelete os rh
      else io_return (ExecResult_of_response (HttpResponse_of kNotImplemented)))"

lemma Run_method:
  assumes "target conf req l p" and "method_allowed l (rq_method req)"
  obtains rh lm where "lm_loc lm = l" and "rh_req rh = req" and "rh_filesystem_path rh = p"
    and "RequestHandler_Run os (RequestHandler_init conf req) m =
      (case dispatch os rh lm m of (Inr er, m') \<Rightarrow> (er, m') | (Inl e, m') \<Rightarrow> (exception_result e, m'))"
proof -
  obtain rh lm where p: "PrepareRoutingContext (RequestHandler_init conf req) = Inr (rh, lm)"
      and rh: "lm_loc lm = l" "rh_req rh = req" "rh_filesystem_path rh = p"
    using assms(1) by (rule target_run)
  have "\<not> loc_has_redirect l" using assms(1) by (auto simp: target_def split: sum.splits)
  then show thesis
    using rh assms(2)
    by (intro that [OF rh]) (auto simp: RequestHandler_Run_def p io_run run_method_def Let_def method_allowed_def dispatch_def)
qed

lemma DetectMimeTypeFromPath_no_break: "no_break (DetectMimeTypeFromPath p)"
  by (simp add: DetectMimeTypeFromPath_def Let_def)

lemma HandleGet_file:
  assumes "file_system os view" and "valid_path (loc_root (lm_loc lm)) (rh_filesystem_path rh)"
    and "\<not> ends_with_slash (rq_uri (rh_req rh))" and "\<not> loc_cgi_enabled (lm_loc lm)"
    and "view (world m) (rh_filesystem_path rh) = Some (File c)"
  obtains res m' where "HandleGet os rh lm m = (Inr (ExecResult_of_response (SetStatus kOk (SetBody c res))), m')"
    and "map_get (rs_headers res) ''content-type'' = Some (DetectMimeTypeFromPath (rh_filesystem_path rh))"
proof -
  let ?p = "rh_filesystem_path rh"
  note c = valid_path_c_str [OF assms(2)]
  obtain m1 where d: "IsDirectory os ?p m = (Inr (fst (os_stat os ?p (world m)) = Inr Directory), m1)"
      and v: "view (world m1) = view (world m)"
    using IsDirectory_run [OF assms(1)] c by metis
  have "fst (os_stat os ?p (world m)) = Inr RegularFile"
    by (rule file_system_file [OF assms(1)]) (rule assms(5))
  then have d: "IsDirectory os ?p m = (Inr False, m1)" using d by simp
  obtain m2 where r: "ReadFileToStringOrThrow os ?p m1 = (Inr c, m2)"
    using ReadFile_run [OF assms(1)] c v assms(5) by metis
  obtain res where res: "AddHeader ''Content-Type'' (DetectMimeTypeFromPath ?p) HttpResponse_init = Inr res"
    and hd: "map_get (rs_headers res) ''content-type'' = Some (DetectMimeTypeFromPath ?p)"
    using DetectMimeTypeFromPath_no_break by (auto simp: AddHeader_Inr header_keys)
  show thesis
    by (rule that [OF _ hd, of m2])
       (simp add: HandleGet_def AppendIndexFileIfDirectoryOrThrow_def io_run assms(3,4) d r res Let_def
          valid_path_fixed [OF assms(2)])
qed

lemma HandleGet_absent:
  assumes "file_system os view" and "valid_path (loc_root (lm_loc lm)) (rh_filesystem_path rh)"
    and "\<not> ends_with_slash (rq_uri (rh_req rh))" and "\<not> loc_cgi_enabled (lm_loc lm)"
    and "view (world m) (rh_filesystem_path rh) = None"
  obtains m' where "HandleGet os rh lm m = (Inl (ResponseStatusException kNotFound), m')"
proof -
  let ?p = "rh_filesystem_path rh"
  note c = valid_path_c_str [OF assms(2)]
  obtain m1 where d: "IsDirectory os ?p m = (Inr (fst (os_stat os ?p (world m)) = Inr Directory), m1)"
      and v: "view (world m1) = view (world m)"
    using IsDirectory_run [OF assms(1)] c by metis
  have "fst (os_stat os ?p (world m)) = Inl ENOENT"
    by (rule file_system_absent [OF assms(1)]) (rule assms(5))
  then have d: "IsDirectory os ?p m = (Inr False, m1)" using d by simp
  obtain m2 where r: "ReadFileToStringOrThrow os ?p m1 = (Inl (ResponseStatusException kNotFound), m2)"
    using ReadFile_absent [OF assms(1)] c v assms(5) by metis
  show thesis
    by (rule that [of m2])
       (simp add: HandleGet_def AppendIndexFileIfDirectoryOrThrow_def io_run assms(3,4) d r Let_def
          valid_path_fixed [OF assms(2)])
qed

lemma HandlePost_created:
  assumes "file_system os view" and "valid_path (loc_root (lm_loc lm)) (rh_filesystem_path rh)"
    and "HandlePost os rh lm m = (Inr er, m')" and "GetStatus (er_response er) = kCreated"
  shows "view (world m') (rh_filesystem_path rh) = Some (File (rq_body (rh_req rh)))"
    and "\<not> ends_with_slash (rq_uri (rh_req rh))" and "\<not> loc_cgi_enabled (lm_loc lm)"
proof -
  let ?p = "rh_filesystem_path rh"
  note c = valid_path_c_str [OF assms(2)]
  obtain rej where rej: "post_rejected = Inr rej" "GetStatus rej = kMethodNotAllowed" by (rule post_rejected_405)
  show slash: "\<not> ends_with_slash (rq_uri (rh_req rh))"
    using assms(3,4) rej(2) by (auto simp: HandlePost_def io_run ExecResult_of_response_def rej(1))
  obtain m1 where d: "IsDirectory os ?p m = (Inr False, m1)"
    using assms(3,4) slash rej(2)
    by (auto simp: HandlePost_def io_run Let_def ExecResult_of_response_def rej(1) split: prod.splits sum.splits if_splits)
  have "\<not> loc_cgi_enabled (lm_loc lm)"
  proof
    assume cgi: "loc_cgi_enabled (lm_loc lm)"
    then have run: "CgiExecutor_Run os (CgiExecutor_init (rh_req rh) (lm_loc lm) ?p) m1 = (Inr er, m')"
      using assms(3) slash d by (simp add: HandlePost_def io_run Let_def)
    have "GetMetaVar (CgiExecutor_init (rh_req rh) (lm_loc lm) ?p) ''REQUEST_METHOD'' =
        Inr (MethodToString (rq_method (rh_req rh)))"
      by (simp add: GetMetaVar_def CgiExecutor_init_meta)
    from io_spec_D(2) [OF CgiExecutor_Run_spec [OF this] run refl] show False using assms(4) by (auto simp: cgi_run_ok_def ExecResult_of_response_def ExecResult_of_socket_def)
  qed
  then show "\<not> loc_cgi_enabled (lm_loc lm)" .
  obtain w1 where o: "os_open_write os ?p (world m1) = (True, w1)"
    using assms(3) slash d \<open>\<not> loc_cgi_enabled (lm_loc lm)\<close>
    by (auto simp: HandlePost_def io_run Let_def call_open_write_def c split: prod.splits if_splits)
  then obtain w2 where w: "os_write_file os ?p (rq_body (rh_req rh)) w1 = (True, w2)" and m': "world m' = w2"
    using assms(3) slash d \<open>\<not> loc_cgi_enabled (lm_loc lm)\<close>
    by (auto simp: HandlePost_def io_run Let_def call_open_write_def call_write_file_def c
        split: prod.splits if_splits sum.splits)
  have "view w1 ?p = Some (File [])" using file_system_change(1) [OF assms(1) o] by simp
  then show "view (world m') ?p = Some (File (rq_body (rh_req rh)))"
    using file_system_change(2) [OF assms(1) _ w] m' by simp
qed

lemma HandleDelete_removed:
  assumes "file_system os view" and "valid_path root (rh_filesystem_path rh)"
    and "HandleDelete os rh m = (Inr er, m')"
  shows "view (world m') (rh_filesystem_path rh) = None"
proof -
  let ?p = "rh_filesystem_path rh"
  note c = valid_path_c_str [OF assms(2)]
  obtain m1 where chk: "CheckDeletableRegularFileOrThrow os ?p m = (Inr (), m1)"
    using assms(3) by (auto simp: HandleDelete_def io_run split: prod.splits sum.splits)
  obtain w where "os_remove os ?p (world m1) = (None, w)" and "world m' = w"
    using assms(3) chk
    by (auto simp: HandleDelete_def io_run call_remove_def c throw_errno_def split: prod.splits option.splits sum.splits)
  then show ?thesis using file_system_change(3) [OF assms(1)] by fastforce
qed

lemma exception_status:
  assumes "run_error e"
  shows "GetStatus (er_response (exception_result e)) \<noteq> kCreated"
    and "GetStatus (er_response (exception_result e)) \<noteq> kOk"
  using assms by (auto simp: run_error_def file_error_def exception_result_def ExecResult_of_response_def)

lemma run_get:
  assumes "file_system os view" and "target conf req l p" and "rq_method req = kGet" and "method_allowed l kGet"
    and "\<not> loc_cgi_enabled l" and "\<not> ends_with_slash (rq_uri req)"
  shows "case RequestHandler_Run os (RequestHandler_init conf req) m of (er, m') \<Rightarrow>
     (\<forall>c. view (world m) p = Some (File c) \<longrightarrow>
        GetStatus (er_response er) = kOk \<and> rs_body (er_response er) = c \<and>
        map_get (rs_headers (er_response er)) ''content-type'' = Some (DetectMimeTypeFromPath p)) \<and>
     (view (world m) p = None \<longrightarrow> GetStatus (er_response er) = kNotFound)"
proof -
  obtain rh lm where rh: "lm_loc lm = l" "rh_req rh = req" "rh_filesystem_path rh = p"
      and run: "RequestHandler_Run os (RequestHandler_init conf req) m =
        (case dispatch os rh lm m of (Inr er, m') \<Rightarrow> (er, m') | (Inl e, m') \<Rightarrow> (exception_result e, m'))"
    using Run_method [OF assms(2) assms(4) [folded assms(3)]] by blast
  then have run: "RequestHandler_Run os (RequestHandler_init conf req) m =
      (case HandleGet os rh lm m of (Inr er, m') \<Rightarrow> (er, m') | (Inl e, m') \<Rightarrow> (exception_result e, m'))"
    by (simp add: dispatch_def assms(3))
  have valid: "valid_path (loc_root (lm_loc lm)) (rh_filesystem_path rh)"
    using target_valid [OF assms(2)] rh by simp
  note rhs = assms(5,6) [folded rh(1) rh(2)]
  consider c where "view (world m) p = Some (File c)" | "view (world m) p = None"
    | "view (world m) p = Some Other_node"
    by (cases "view (world m) p") (auto intro: node.exhaust)
  then show ?thesis
  proof cases
    case 1
    obtain res m' where "HandleGet os rh lm m = (Inr (ExecResult_of_response (SetStatus kOk (SetBody c res))), m')"
        and "map_get (rs_headers res) ''content-type'' = Some (DetectMimeTypeFromPath p)"
      using HandleGet_file [OF assms(1) valid rhs(2,1)] 1 rh(3) by metis
    then show ?thesis using run 1 by (simp add: ExecResult_of_response_def SetStatus_def SetBody_def GetStatus_def)
  next
    case 2
    obtain m' where "HandleGet os rh lm m = (Inl (ResponseStatusException kNotFound), m')"
      using HandleGet_absent [OF assms(1) valid rhs(2,1)] 2 rh(3) by metis
    then show ?thesis using run 2 by (simp add: exception_result_def ExecResult_of_response_def)
  next
    case 3
    then show ?thesis by (simp split: prod.split)
  qed
qed

subsection \<open>A site for the examples\<close>

definition site_location :: location where
  "site_location = Location_init\<lparr>loc_root := ''/w''\<rparr>"

definition site_config :: server_config where
  "site_config = ServerConfig_init\<lparr>sc_locations := [site_location]\<rparr>"

definition site_request :: "http_method \<Rightarrow> string \<Rightarrow> http_request" where
  "site_request meth body = HttpRequest_init\<lparr>rq_method := meth, rq_uri := ''/a.txt'', rq_body := body\<rparr>"

lemma site_find: "FindLocationForUri site_config ''/a.txt'' = Inr \<lparr>lm_loc = site_location, lm_remainder = ''/a.txt''\<rparr>"
  by code_simp

lemma site_path: "ValidateAndNormalizePath ''/w/a.txt'' ''/w'' = Inr ''/w/a.txt''"
  by code_simp

lemma site_config_sel [simp]: "sc_locations site_config = [site_location]"
  by (simp add: site_config_def)

lemma site_sel [simp]:
  "loc_root site_location = ''/w''" "\<not> loc_has_redirect site_location" "\<not> loc_has_allowed_methods site_location"
  "\<not> loc_cgi_enabled site_location"
  by (simp_all add: site_location_def Location_init_def)

lemma site_request_sel [simp]:
  "rq_method (site_request meth body) = meth" "rq_uri (site_request meth body) = ''/a.txt''"
  "rq_body (site_request meth body) = body"
  by (simp_all add: site_request_def)

lemma site_target: "target site_config (site_request meth body) site_location ''/w/a.txt''"
  by (simp add: target_def site_find site_path)

lemma site_allowed: "method_allowed site_location meth"
  by (simp add: method_allowed_def)

lemma site_dirname: "dirname ''/w/a.txt'' = ''/w''"
  by code_simp

lemma memory_IsDirectory:
  "IsDirectory memory_os p m = (Inr (world m (c_str p) = Some Other_node), m\<lparr>calls := calls m @ [Stat (c_str p)]\<rparr>)"
  by (auto simp: IsDirectory_def call_stat_def io_run memory_os_def mem_stat_def split: option.splits node.splits)

lemma memory_os_sel:
  "os_open_write memory_os p w = (if w p = Some Other_node then (False, w) else (True, w(p \<mapsto> File [])))"
  "os_write_file memory_os = mem_write_file"
  by (simp_all add: memory_os_def)

lemma site_post:
  obtains er where "RequestHandler_Run memory_os (RequestHandler_init site_config (site_request kPost ''hi''))
      \<lparr>world = Map.empty, calls = []\<rparr> =
    (er, \<lparr>world = [''/w/a.txt'' \<mapsto> File ''hi''],
          calls = [Stat ''/w/a.txt'', OpenWrite ''/w/a.txt'', WriteFile ''/w/a.txt'' ''hi'']\<rparr>)"
    and "GetStatus (er_response er) = kCreated"
proof -
  obtain res where res: "AddHeader ''Location'' ''/a.txt'' (HttpResponse_of kCreated) = Inr res"
    by (simp add: AddHeader_def)
  have st: "GetStatus res = kCreated" using GetStatus_AddHeader [OF res] by simp
  show thesis
    by (rule that [of "ExecResult_of_response res"])
       (simp_all add: st ExecResult_of_response_def [of res] RequestHandler_Run_def PrepareRoutingContext_def
         RequestHandler_init_def ResolveFilesystemPath_def Let_def site_find site_path run_method_def HandlePost_def
         io_run memory_IsDirectory ends_with_slash_def call_open_write_def call_write_file_def c_str_def
         res memory_os_sel mem_write_file_def)
qed

lemma site_delete:
  obtains er where "RequestHandler_Run memory_os (RequestHandler_init site_config (site_request kDelete []))
      \<lparr>world = [''/w/a.txt'' \<mapsto> File ''hi'', ''/w'' \<mapsto> Other_node], calls = []\<rparr> =
    (er, \<lparr>world = [''/w'' \<mapsto> Other_node],
          calls = [Stat ''/w/a.txt'', Stat ''/w'', Access ''/w'' [W_OK, X_OK], Remove ''/w/a.txt'']\<rparr>)"
    and "GetStatus (er_response er) = kOk"
proof -
  obtain res where res: "AddHeader ''Content-Type'' ''text/plain'' (SetBody ''File deleted successfully'' (HttpResponse_of kOk)) = Inr res"
    by (simp add: AddHeader_def)
  have st: "GetStatus res = kOk" using GetStatus_AddHeader [OF res] by simp
  show thesis
    by (rule that [of "ExecResult_of_response res"])
       (simp_all add: st ExecResult_of_response_def [of res] RequestHandler_Run_def PrepareRoutingContext_def
         RequestHandler_init_def ResolveFilesystemPath_def Let_def site_find site_path run_method_def HandleDelete_def
         CheckDeletableRegularFileOrThrow_def StatOrThrow_def EnsureRegularFileOrThrowForbidden_def call_stat_def
         call_access_def call_remove_def io_run c_str_def memory_os_def mem_stat_def site_dirname res
         fun_upd_twist)
qed

definition get_only_location :: location where
  "get_only_location = site_location\<lparr>loc_has_allowed_methods := True, loc_methods := [(kGet, ())]\<rparr>"

lemma get_only_sel:
  "loc_root get_only_location = ''/w''" "\<not> loc_has_redirect get_only_location" "loc_has_allowed_methods get_only_location"
  "loc_methods get_only_location = [(kGet, ())]" "loc_redirect get_only_location = []"
  by (simp_all add: get_only_location_def site_location_def Location_init_def)

lemma get_only_post: "\<not> IsMethodAllowed get_only_location kPost"
  by (simp add: get_only_sel IsMethodAllowed_def map_has_def)

lemma get_only_find:
  "FindLocationForUri (ServerConfig_init\<lparr>sc_locations := [get_only_location]\<rparr>) (rq_uri (site_request meth body)) =
     Inr \<lparr>lm_loc = get_only_location, lm_remainder = ''/a.txt''\<rparr>"
  unfolding site_request_sel by code_simp

subsection \<open>Properties\<close>

text \<open>C22: Confinement: the calls of the handler for a request that matches a location name only paths below
  the document root of that location (or the parent directory of such a path, which deletion
  looks at), and a CGI child executes a script below it unless an extension occurs in the root
  itself; a request that matches no location makes no call.\<close>

theorem handler_confined:
  "case RequestHandler_Run os (RequestHandler_init conf req) m of (er, m') \<Rightarrow>
     case routed conf req of
       None \<Rightarrow> m' = m
     | Some l \<Rightarrow> \<exists>cs. calls m' = calls m @ cs \<and> list_all (confined l) cs"
proof -
  obtain er m' where run: "RequestHandler_Run os (RequestHandler_init conf req) m = (er, m')"
    by (cases "RequestHandler_Run os (RequestHandler_init conf req) m")
  show ?thesis unfolding run prod.case
    using RequestHandler_Run_cases [OF run] by (cases "routed conf req") simp_all
qed

text \<open>C23: Every request gets a result, whatever the operating system answers: a response that the public
  operations of \<open>HttpResponse\<close> built, with one of the statuses of the handler or the
  redirection of the location; and a CGI socket exactly when the result is asynchronous, with no
  owner yet.\<close>

theorem handler_result:
  "case RequestHandler_Run os (RequestHandler_init conf req) m of (er, m') \<Rightarrow>
     built_response (er_response er) \<and> (er_is_async er \<longleftrightarrow> er_new_socket er \<noteq> None) \<and>
     (case er_new_socket er of None \<Rightarrow> True | Some s \<Rightarrow> cgs_owner s = None) \<and>
     (GetStatus (er_response er) \<in> handler_statuses \<or>
        (\<exists>l. routed conf req = Some l \<and> loc_has_redirect l \<and> GetStatus (er_response er) = loc_redirect_status l))"
proof -
  obtain er m' where run: "RequestHandler_Run os (RequestHandler_init conf req) m = (er, m')"
    by (cases "RequestHandler_Run os (RequestHandler_init conf req) m")
  show ?thesis unfolding run prod.case
    using RequestHandler_Run_cases [OF run]
    by (cases "routed conf req") (auto simp: result_ok_def run_ok_def exec_ok_def refusal_ok_def)
qed

text \<open>C30: A refused request touches nothing: when the location redirects or does not allow the method, no call
  is made, and the response is the redirection, or status 405 with the allowed
  methods, or the error of a path that is not valid.\<close>

theorem refused_requests:
  assumes "FindLocationForUri conf (rq_uri req) = Inr lm" and "lm_loc lm = l" and "no_break (loc_redirect l)"
    and "loc_has_redirect l \<or> \<not> method_allowed l (rq_method req)"
  shows "\<exists>er. RequestHandler_Run os (RequestHandler_init conf req) m = (er, m) \<and>
     (if loc_has_redirect l
      then GetStatus (er_response er) = loc_redirect_status l \<and>
        map_get (rs_headers (er_response er)) ''location'' = Some (loc_redirect l)
      else
        (case ValidateAndNormalizePath (loc_root l @ lm_remainder lm) (loc_root l) of
           Inl e \<Rightarrow> er = exception_result e
         | Inr p \<Rightarrow> GetStatus (er_response er) = kMethodNotAllowed \<and>
             map_get (rs_headers (er_response er)) ''allow'' = Some (GetAllowedMethodsString l)))"
proof (cases "loc_has_redirect l")
  case True
  obtain res where res: "redirect_response l = Inr res"
    using assms(3) by (auto simp: redirect_response_def AddHeader_Inr)
  then have "RequestHandler_Run os (RequestHandler_init conf req) m = (ExecResult_of_response res, m)"
    using True assms(1,2)
    by (simp add: RequestHandler_Run_def PrepareRoutingContext_def ResolveFilesystemPath_def RequestHandler_init_def
        run_method_def io_run Let_def)
  then show ?thesis using True redirect_response_ok [OF res] by (simp add: refusal_ok_def)
next
  case False
  then have no: "loc_has_allowed_methods l" "\<not> IsMethodAllowed l (rq_method req)"
    using assms(4) by (auto simp: method_allowed_def)
  show ?thesis
  proof (cases "ValidateAndNormalizePath (loc_root l @ lm_remainder lm) (loc_root l)")
    case (Inl e)
    then show ?thesis using False assms(1,2)
      by (simp add: RequestHandler_Run_def PrepareRoutingContext_def ResolveFilesystemPath_def
          RequestHandler_init_def io_run Let_def)
  next
    case (Inr p)
    obtain res where res: "method_not_allowed_response l = Inr res" by (rule method_not_allowed_Inr)
    then have "RequestHandler_Run os (RequestHandler_init conf req) m = (ExecResult_of_response res, m)"
      using False no Inr assms(1,2)
      by (simp add: RequestHandler_Run_def PrepareRoutingContext_def ResolveFilesystemPath_def RequestHandler_init_def
          run_method_def io_run Let_def)
    then show ?thesis using False Inr method_not_allowed_ok(2,3) [OF res]
      by (simp add: ExecResult_of_response_def)
  qed
qed

theorem refused_requests_witness:
  "map_get (rs_headers (er_response (fst (RequestHandler_Run memory_os
     (RequestHandler_init (ServerConfig_init\<lparr>sc_locations := [get_only_location]\<rparr>) (site_request kPost []))
     \<lparr>world = Map.empty, calls = []\<rparr>)))) ''allow'' = Some ''GET''"
  using refused_requests [OF get_only_find refl, of kPost "[]" memory_os "\<lparr>world = Map.empty, calls = []\<rparr>"]
  by (auto simp: method_allowed_def get_only_sel site_path get_only_post GetAllowedMethodsString_def)

text \<open>A file is served as it is: a GET whose path names a readable file is answered with status 200, the
  content of the file and the type of its extension; when the path names nothing, with status
  404.\<close>

theorem get_serves_the_file:
  assumes "file_system os view" and "target conf req l p" and "rq_method req = kGet" and "method_allowed l kGet"
    and "\<not> loc_cgi_enabled l" and "\<not> ends_with_slash (rq_uri req)"
  shows "case RequestHandler_Run os (RequestHandler_init conf req) m of (er, m') \<Rightarrow>
     case view (world m) p of
       Some (File c) \<Rightarrow>
         GetStatus (er_response er) = kOk \<and> rs_body (er_response er) = c \<and>
         map_get (rs_headers (er_response er)) ''content-type'' = Some (DetectMimeTypeFromPath p)
     | Some Other_node \<Rightarrow> True
     | None \<Rightarrow> GetStatus (er_response er) = kNotFound"
  using run_get [OF assms, of m] by (cases "view (world m) p") (auto split: node.splits prod.splits)

theorem get_serves_the_file_witness:
  "rs_body (er_response (fst (RequestHandler_Run memory_os (RequestHandler_init site_config (site_request kGet []))
     \<lparr>world = [''/w/a.txt'' \<mapsto> File ''hi''], calls = []\<rparr>))) = ''hi''"
  using get_serves_the_file [OF memory_os_files site_target _ site_allowed, of kGet "[]"
      "\<lparr>world = [''/w/a.txt'' \<mapsto> File ''hi''], calls = []\<rparr>"]
  by (simp add: ends_with_slash_def split: prod.splits)



text \<open>C33: What is deleted is gone: after a DELETE answered with status 200, a GET of the same URI is answered
  with status 404, as long as nothing else changed the files.\<close>

theorem deleted_is_gone:
  assumes "file_system os view" and "target conf req l p" and "rq_method req = kDelete" and "method_allowed l kDelete"
    and "RequestHandler_Run os (RequestHandler_init conf req) m = (er, m1)"
    and "GetStatus (er_response er) = kOk"
    and "view (world m2) = view (world m1)" and "rq_uri req' = rq_uri req" and "rq_method req' = kGet"
    and "method_allowed l kGet" and "\<not> loc_cgi_enabled l" and "\<not> ends_with_slash (rq_uri req)"
  shows "case RequestHandler_Run os (RequestHandler_init conf req') m2 of (er', m3) \<Rightarrow>
     GetStatus (er_response er') = kNotFound"
proof -
  obtain rh lm where rh: "lm_loc lm = l" "rh_req rh = req" "rh_filesystem_path rh = p"
      and run: "RequestHandler_Run os (RequestHandler_init conf req) m =
        (case dispatch os rh lm m of (Inr er, m') \<Rightarrow> (er, m') | (Inl e, m') \<Rightarrow> (exception_result e, m'))"
    using Run_method [OF assms(2) assms(4) [folded assms(3)]] by blast
  then have run: "RequestHandler_Run os (RequestHandler_init conf req) m =
      (case HandleDelete os rh m of (Inr er, m') \<Rightarrow> (er, m') | (Inl e, m') \<Rightarrow> (exception_result e, m'))"
    by (simp add: dispatch_def assms(3))
  have valid: "valid_path (loc_root l) (rh_filesystem_path rh)"
    using target_valid [OF assms(2)] rh by simp
  have "HandleDelete os rh m = (Inr er, m1)"
  proof (cases "HandleDelete os rh m")
    case (Pair x m')
    show ?thesis
    proof (cases x)
      case (Inl e)
      have "run_error e" by (rule io_spec_D(3) [OF HandleDelete_spec [OF valid] Pair Inl])
      then have "GetStatus (er_response (exception_result e)) \<noteq> kOk" by (rule exception_status)
      then show ?thesis using run assms(5,6) Pair Inl by simp
    qed (use run assms(5) Pair in simp)
  qed
  from HandleDelete_removed [OF assms(1) valid this]
  have "view (world m2) p = None" using rh assms(7) by simp
  with run_get [OF assms(1) target_cong [THEN iffD2, OF assms(8,2)] assms(9,10,11), of m2] assms(8,12)
  show ?thesis by (auto split: prod.splits)
qed

theorem deleted_is_gone_witness:
  "GetStatus (er_response (fst (RequestHandler_Run memory_os (RequestHandler_init site_config (site_request kGet []))
     (snd (RequestHandler_Run memory_os (RequestHandler_init site_config (site_request kDelete []))
       \<lparr>world = [''/w/a.txt'' \<mapsto> File ''hi'', ''/w'' \<mapsto> Other_node], calls = []\<rparr>))))) = kNotFound"
proof -
  obtain er m1 where run: "RequestHandler_Run memory_os (RequestHandler_init site_config (site_request kDelete []))
      \<lparr>world = [''/w/a.txt'' \<mapsto> File ''hi'', ''/w'' \<mapsto> Other_node], calls = []\<rparr> = (er, m1)"
    and st: "GetStatus (er_response er) = kOk"
    by (rule site_delete)
  from deleted_is_gone [OF memory_os_files site_target _ site_allowed run st refl, of "site_request kGet []"]
  show ?thesis by (simp add: run site_allowed ends_with_slash_def split: prod.splits)
qed

text \<open>The document root is searched for extensions as well: with a root below a directory that is named
  like a script, a request for any file executes that directory, which is not below the root.\<close>

theorem script_above_the_root:
  "let l = Location_init\<lparr>loc_root := ''/srv/a.py/www'', loc_cgi_allowed_extensions := [''.py'']\<rparr>;
       ce = CgiExecutor_init req l ''/srv/a.py/www/foo''
   in valid_path (loc_root l) ''/srv/a.py/www/foo'' \<and> ce_script_path ce = ''/srv/a.py'' \<and>
      IsScriptExtensionAllowed (ce_script_path ce) (loc_cgi_allowed_extensions l) \<and>
      \<not> below_root (loc_root l) (ce_script_path ce)"
proof -
  have info: "CreatePathInfo ''/srv/a.py/www/foo'' [''.py''] = Some ''/www/foo''" by code_simp
  have valid: "ValidateAndNormalizePath ''/srv/a.py/www/foo'' ''/srv/a.py/www'' = Inr ''/srv/a.py/www/foo''" by code_simp
  have ext: "IsScriptExtensionAllowed ''/srv/a.py'' [''.py'']" by code_simp
  have above: "\<not> below_root ''/srv/a.py/www'' ''/srv/a.py''" by code_simp
  show ?thesis unfolding valid_path_def
    using info valid ext above by (auto simp: CgiExecutor_init_def InitializeMetaVars_def Let_def substr_def)
qed

end
