(* ===== verification/Handler_Descriptors.thy ===== *)
theory Handler_Descriptors
  imports Handler_Safety
begin

text \<open>
  What the handler does to descriptors: nothing, but for the socket of a CGI program, which its
  result owns. The lemma \<open>handler_effect\<close> collects what the connection needs to know of the
  handler.
\<close>

text \<open>Calls that neither send nor concern \<open>epoll\<close>.\<close>

definition plain :: "syscall \<Rightarrow> bool" where
  "plain c \<longleftrightarrow> (case c of Epoll_ctl epfd op fd ev p r \<Rightarrow> False | Send fd d \<Rightarrow> False | _ \<Rightarrow> True)"

lemma confined_plain: "confined l c \<Longrightarrow> plain c"
  by (cases c) (simp_all add: confined_def plain_def)

lemma quiet_simps [simp]:
  "quiet (Stat p)" "quiet (Access p mode)" "quiet (ReadFile p)" "quiet (OpenWrite p)" "quiet (WriteFile p d)"
  "quiet (Remove p)"
  by (simp_all add: quiet_def)

lemma looks_at_quiet: "looks_at p c \<Longrightarrow> quiet c"
  by (auto simp: looks_at_def)

lemma reads_quiet: "reads p c \<Longrightarrow> quiet c"
  by (auto simp: reads_def looks_at_quiet)

text \<open>A step without descriptors.\<close>

lemma accounts_calm_bind:
  assumes "io_spec quiet (\<lambda>_. True) E f" and "\<And>x. accounts Q B (\<lambda>_. 0) (g x)"
  shows "accounts Q B (\<lambda>_. 0) (io_bind f g)"
  by (rule accounts_bind [OF accounts_quiet [OF assms(1), where B = "\<lambda>_ _. 0" and B' = "\<lambda>_. 0"]])
     (use assms(2) in simp_all)

abbreviation handler_accounts :: "('w, exec_result) io \<Rightarrow> bool" where
  "handler_accounts \<equiv>
     accounts (\<lambda>er. owned_fd (Inr er) \<noteq> Some (-1)) (\<lambda>er fd. if owned_fd (Inr er) = Some fd then 1 else 0) (\<lambda>_. 0)"

lemma response_accounts: "handler_accounts (io_return (ExecResult_of_response res))"
  by (rule accounts_return) (simp_all add: owned_fd_def ExecResult_of_response_def)

lemma lift_accounts:
  "handler_accounts (io_bind (io_lift r) (\<lambda>res. io_return (ExecResult_of_response (f res))))"
  by (cases r) (simp_all add: response_accounts accounts_throw)

lemma IsDirectory_quiet: "io_spec quiet (\<lambda>_. True) E (IsDirectory os p)"
  by (rule IsDirectory_spec) simp

lemma AppendIndex_quiet: "io_spec quiet (\<lambda>_. True) (\<lambda>_. True) (AppendIndexFileIfDirectoryOrThrow os rh lm base)"
  unfolding AppendIndexFileIfDirectoryOrThrow_def Let_def
  by (intro io_spec_step io_spec_if io_spec_return IsDirectory_quiet io_spec_throw io_spec_lift) simp_all

lemma ReadFile_quiet: "io_spec quiet (\<lambda>_. True) (\<lambda>_. True) (ReadFileToStringOrThrow os p)"
  by (rule io_spec_weaken [OF ReadFileToStringOrThrow_spec]) (auto intro: reads_quiet)

lemma CheckDeletable_quiet: "io_spec quiet (\<lambda>_. True) (\<lambda>_. True) (CheckDeletableRegularFileOrThrow os p)"
proof -
  have stat: "io_spec quiet (\<lambda>_. True) (\<lambda>_. True) (StatOrThrow os p)"
    by (rule io_spec_weaken [OF StatOrThrow_spec]) (auto intro: looks_at_quiet)
  have reg: "io_spec quiet (\<lambda>_. True) (\<lambda>_. True) (EnsureRegularFileOrThrowForbidden st)" for st
    by (rule io_spec_weaken [OF EnsureRegular_spec]) auto
  show ?thesis unfolding CheckDeletableRegularFileOrThrow_def Let_def
    by (intro io_spec_step [OF stat] io_spec_step [OF reg] io_spec_step [OF call_stat_spec] io_spec_case_sum
        io_spec_throw_errno io_spec_step [OF call_access_spec] io_spec_case_option io_spec_return) simp_all
qed

lemma HandleGet_accounts:
  assumes "\<And>w a b w'. os_socketpair os w = (Some (a, b), w') \<Longrightarrow> 0 \<le> a \<and> 0 \<le> b"
  shows "handler_accounts (HandleGet os rh lm)"
proof -
  have cgi: "handler_accounts (CgiExecutor_Run os ce)" for ce
    by (rule CgiExecutor_Run_accounts) (rule assms)
  show ?thesis unfolding HandleGet_def
  proof (rule accounts_calm_bind [OF AppendIndex_quiet])
    fix p
    show "handler_accounts
        (if loc_cgi_enabled (lm_loc lm) then CgiExecutor_Run os (CgiExecutor_init (rh_req rh) (lm_loc lm) p)
         else
           io_bind (ReadFileToStringOrThrow os p) (\<lambda>body.
           io_bind (io_lift (AddHeader ''Content-Type'' (DetectMimeTypeFromPath p) HttpResponse_init)) (\<lambda>res.
             io_return (ExecResult_of_response (SetStatus kOk (SetBody body res))))))"
      by (simp add: cgi accounts_calm_bind [OF ReadFile_quiet] lift_accounts)
  qed
qed

lemma HandlePost_accounts:
  assumes "\<And>w a b w'. os_socketpair os w = (Some (a, b), w') \<Longrightarrow> 0 \<le> a \<and> 0 \<le> b"
  shows "handler_accounts (HandlePost os rh lm)"
proof -
  have cgi: "handler_accounts (CgiExecutor_Run os ce)" for ce
    by (rule CgiExecutor_Run_accounts) (rule assms)
  have opn: "io_spec quiet (\<lambda>_. True) (\<lambda>_. True) (call_open_write os p)" for p
    by (simp add: call_open_write_def io_spec_sys)
  have wr: "io_spec quiet (\<lambda>_. True) (\<lambda>_. True) (call_write_file os p d)" for p d
    by (simp add: call_write_file_def io_spec_sys)
  have body: "handler_accounts (io_bind (call_open_write os p) (\<lambda>ofs.
      if \<not> ofs then io_throw e
      else io_bind (call_write_file os p d) (\<lambda>ok.
        if \<not> ok then io_throw e' else io_bind (io_lift r) (\<lambda>res. io_return (ExecResult_of_response res)))))" for p d e e' r
    by (rule accounts_calm_bind [OF opn]) (simp add: accounts_throw accounts_calm_bind [OF wr] lift_accounts [of _ id, simplified])
  show ?thesis unfolding HandlePost_def Let_def
    by (simp add: cgi body lift_accounts [of _ id, simplified] accounts_calm_bind [OF IsDirectory_quiet])
qed

lemma HandleDelete_accounts: "handler_accounts (HandleDelete os rh)"
proof -
  have rm: "io_spec quiet (\<lambda>_. True) (\<lambda>_. True) (call_remove os p)" for p
    by (simp add: call_remove_def io_spec_sys)
  show ?thesis unfolding HandleDelete_def
  proof (rule accounts_calm_bind [OF CheckDeletable_quiet], rule accounts_calm_bind [OF rm])
    fix r
    show "handler_accounts (case r of
         None \<Rightarrow> io_bind (io_lift (AddHeader ''Content-Type'' ''text/plain''
               (SetBody ''File deleted successfully'' (HttpResponse_of kOk)))) (\<lambda>res. io_return (ExecResult_of_response res))
       | Some e \<Rightarrow> throw_errno e)"
      by (cases r) (simp_all add: throw_errno_def accounts_throw lift_accounts [of _ id, simplified])
  qed
qed

lemma run_method_accounts:
  assumes "\<And>w a b w'. os_socketpair os w = (Some (a, b), w') \<Longrightarrow> 0 \<le> a \<and> 0 \<le> b"
  shows "handler_accounts (run_method os rh lm)"
  unfolding run_method_def Let_def
  by (simp add: HandleGet_accounts [OF assms] HandlePost_accounts [OF assms] HandleDelete_accounts response_accounts
      lift_accounts [of _ id, simplified])

text \<open>What the handler's caller relies on.\<close>

definition handler_result_ok :: "exec_result \<Rightarrow> bool" where
  "handler_result_ok er \<longleftrightarrow> built_response (er_response er) \<and> (er_is_async er \<longleftrightarrow> er_new_socket er \<noteq> None) \<and>
     (case er_new_socket er of None \<Rightarrow> True | Some g \<Rightarrow> cgs_owner g = None \<and> so_fd g \<noteq> -1)"

lemma exception_result_owns: "owned_fd (Inr (exception_result e)) = None"
  by (cases e) (simp_all add: exception_result_def owned_fd_def ExecResult_of_response_def)

lemma handler_effect:
  assumes "\<And>w a b w'. os_socketpair os w = (Some (a, b), w') \<Longrightarrow> 0 \<le> a \<and> 0 \<le> b"
    and run: "RequestHandler_Run os (RequestHandler_init conf req) m = (er, m')"
  shows "handler_result_ok er"
    and "\<exists>cs. calls m' = calls m @ cs \<and> list_all plain cs \<and>
      (\<forall>fd. fd_balance fd cs = (if owned_fd (Inr er) = Some fd then 1 else 0))"
proof -
  let ?run = "io_bind (io_lift (PrepareRoutingContext (RequestHandler_init conf req))) (\<lambda>(rh1, lm). run_method os rh1 lm)"
  have "accounts (\<lambda>er. owned_fd (Inr er) \<noteq> Some (-1)) (\<lambda>er fd. if owned_fd (Inr er) = Some fd then 1 else 0) (\<lambda>_. 0) ?run"
    by (cases "PrepareRoutingContext (RequestHandler_init conf req)")
       (auto simp: accounts_throw run_method_accounts [OF assms(1)] split: prod.split)
  then have acc: "\<exists>cs. calls (snd (?run m)) = calls m @ cs \<and>
      (case fst (?run m) of
         Inr er \<Rightarrow> owned_fd (Inr er) \<noteq> Some (-1) \<and>
           (\<forall>fd. fd_balance fd cs = (if owned_fd (Inr er) = Some fd then 1 else 0))
       | Inl e \<Rightarrow> \<forall>fd. fd_balance fd cs = 0)"
    unfolding accounts_def by (rule spec)
  obtain x m1 where r: "?run m = (x, m1)" by (cases "?run m")
  from acc obtain cs where cs: "calls m1 = calls m @ cs"
      and x: "case x of Inr er \<Rightarrow> owned_fd (Inr er) \<noteq> Some (-1) \<and>
          (\<forall>fd. fd_balance fd cs = (if owned_fd (Inr er) = Some fd then 1 else 0))
        | Inl e \<Rightarrow> \<forall>fd. fd_balance fd cs = 0"
    unfolding r by auto
  have er: "m1 = m'" "er = (case x of Inr y \<Rightarrow> y | Inl e \<Rightarrow> exception_result e)"
    using run r by (auto simp: RequestHandler_Run_def split: sum.splits)
  then have bal: "\<forall>fd. fd_balance fd cs = (if owned_fd (Inr er) = Some fd then 1 else 0)"
      and fd: "owned_fd (Inr er) \<noteq> Some (-1)"
    using x exception_result_owns by (auto split: sum.splits)
  have main: "case routed conf req of
       Some l \<Rightarrow> result_ok l er \<and> (\<exists>cs. calls m' = calls m @ cs \<and> list_all (confined l) cs)
     | None \<Rightarrow> run_ok er \<and> m' = m"
    by (rule RequestHandler_Run_cases [OF run])
  then show "handler_result_ok er"
    using fd by (auto simp: handler_result_ok_def result_ok_def run_ok_def exec_ok_def refusal_ok_def owned_fd_def
        split: option.splits)
  have "list_all plain cs"
    using main cs er(1) confined_plain by (fastforce simp: list_all_iff split: option.splits)
  then show "\<exists>cs. calls m' = calls m @ cs \<and> list_all plain cs \<and>
      (\<forall>fd. fd_balance fd cs = (if owned_fd (Inr er) = Some fd then 1 else 0))"
    using cs er(1) bal by blast
qed

end
