(* ===== verification/Heap_Invariant.thy ===== *)
theory Heap_Invariant
  imports Event_Loop Handler_Descriptors
begin

text \<open>
  The invariant of the heap and the log of the calls: links between clients and programs go both
  ways, a client that waits for a program has read its request to the end, every
  registered pointer is that of an object with this descriptor, every open descriptor has
  exactly one owner, and what is sent or waits to be sent is the tail of a response that the
  public operations built. \<open>kept\<close> is what every method keeps, and there is one lemma per step
  of the methods, in the form of a rule for \<open>wp\<close>.
\<close>

subsection \<open>The invariant\<close>

text \<open>The class of an object and its descriptor, which never change, and its link.\<close>

fun obj_shape :: "obj \<Rightarrow> nat \<times> int" where
  "obj_shape (Client c) = (0, so_fd c)"
| "obj_shape (Cgi g) = (1, so_fd g)"
| "obj_shape (Server v) = (2, so_fd v)"

fun obj_link :: "obj \<Rightarrow> nat option" where
  "obj_link (Client c) = cl_cgi_socket c"
| "obj_link (Cgi g) = cgs_owner g"
| "obj_link (Server v) = None"

lemma obj_shape_eq [simp]:
  "obj_shape obj = (0, fd) \<longleftrightarrow> (\<exists>c. obj = Client c \<and> so_fd c = fd)"
  "obj_shape obj = (Suc 0, fd) \<longleftrightarrow> (\<exists>g. obj = Cgi g \<and> so_fd g = fd)"
  by (cases obj; auto)+

lemma obj_fd_shape: "obj_fd obj = snd (obj_shape obj)"
  by (cases obj) simp_all

definition shape :: "(nat \<Rightarrow> obj option) \<Rightarrow> nat \<Rightarrow> (nat \<times> int) option" where
  "shape h p = map_option obj_shape (h p)"

text \<open>A link leads to an object of the other class that links back.\<close>

definition linked :: "(nat \<Rightarrow> obj option) \<Rightarrow> bool" where
  "linked h \<longleftrightarrow>
     (\<forall>p obj q. h p = Some obj \<longrightarrow> obj_link obj = Some q \<longrightarrow>
        (\<exists>obj'. h q = Some obj' \<and> obj_link obj' = Some p \<and> fst (obj_shape obj) + fst (obj_shape obj') = 1))"

text \<open>The tail of the text of a response.\<close>

definition tail_ok :: "string \<Rightarrow> bool" where
  "tail_ok t \<longleftrightarrow> (\<exists>res date. built_response res \<and> suffix t (ToHttpString date res))"

fun obj_ok :: "obj \<Rightarrow> bool" where
  "obj_ok (Client c) \<longleftrightarrow> (cl_cgi_socket c \<noteq> None \<longrightarrow> sp_state (cl_req c) = kDone) \<and> tail_ok (so_write_buffer c)"
| "obj_ok _ \<longleftrightarrow> True"

definition heap_ok :: "(nat \<Rightarrow> obj option) \<Rightarrow> nat \<Rightarrow> bool" where
  "heap_ok h n \<longleftrightarrow> linked h \<and> (\<forall>p obj. h p = Some obj \<longrightarrow> obj_ok obj \<and> obj_fd obj \<noteq> -1 \<and> p < n)"

definition sent_ok :: "syscall \<Rightarrow> bool" where
  "sent_ok c \<longleftrightarrow> (case c of Send fd d \<Rightarrow> tail_ok d | _ \<Rightarrow> True)"

text \<open>The owners of a descriptor among objects of the shapes \<open>sh\<close>.\<close>

definition owners :: "(nat \<Rightarrow> (nat \<times> int) option) \<Rightarrow> int \<Rightarrow> nat set" where
  "owners sh fd = {p. \<exists>k. sh p = Some (k, fd)}"

text \<open>\<open>base\<close> is the account of the descriptors that no object owns.\<close>

definition log_ok :: "(int \<Rightarrow> int) \<Rightarrow> (nat \<Rightarrow> (nat \<times> int) option) \<Rightarrow> syscall list \<Rightarrow> bool" where
  "log_ok base sh cs \<longleftrightarrow>
     finite (dom sh) \<and> map_wf (registered cs) \<and>
     (\<forall>fd p. map_get (registered cs) fd = Some p \<longrightarrow> p \<in> owners sh fd) \<and>
     (\<forall>fd. fd_balance fd cs = int (card (owners sh fd)) + base fd) \<and>
     list_all sent_ok cs"

definition good :: "(int \<Rightarrow> int) \<Rightarrow> 'w server \<Rightarrow> bool" where
  "good base s \<longleftrightarrow> heap_ok (heap s) (next_address s) \<and> log_ok base (shape (heap s)) (calls s)"

definition kept :: "(int \<Rightarrow> int) \<Rightarrow> 'w server \<Rightarrow> 'w server \<Rightarrow> bool" where
  "kept base s s' \<longleftrightarrow> good base s' \<and> shape (heap s') = shape (heap s) \<and> prefix (calls s) (calls s')"

lemma kept_refl: "good base s \<Longrightarrow> kept base s s"
  by (simp add: kept_def)

lemma kept_trans: "kept base s s1 \<Longrightarrow> kept base s1 s2 \<Longrightarrow> kept base s s2"
  by (auto simp: kept_def intro: prefix_order.trans)

lemma kept_good: "kept base s s' \<Longrightarrow> good base s'"
  by (simp add: kept_def)

subsection \<open>The log\<close>

lemma registered_append: "registered (cs @ cs') = fold register cs' (registered cs)"
  by (simp add: registered_def)

lemma register_plain:
  assumes "plain c" and "map_wf r"
  shows "map_wf (register c r)" and "map_get (register c r) fd = Some p \<Longrightarrow> map_get r fd = Some p"
proof -
  have "register c r = r \<or> (\<exists>x. register c r = map_del x r)"
    using assms(1) by (cases c) (auto simp: plain_def)
  then show "map_wf (register c r)" and "map_get (register c r) fd = Some p \<Longrightarrow> map_get r fd = Some p"
    using assms(2) by (auto simp: map_get_del map_wf_del split: if_splits)
qed

lemma fold_register_plain:
  assumes "list_all plain cs" and "map_wf r"
  shows "map_wf (fold register cs r)" and "map_get (fold register cs r) fd = Some p \<Longrightarrow> map_get r fd = Some p"
  using assms
proof (induction cs arbitrary: r)
  case (Cons c cs)
  {
    case 1
    then show ?case using Cons.IH(1) [of "register c r"] register_plain(1) [of c r] by simp
  next
    case 2
    then have "map_get (register c r) fd = Some p"
      using Cons.IH(2) [of "register c r"] register_plain(1) [of c r] by simp
    then show ?case using register_plain(2) [of c r] 2 by simp
  }
qed simp_all

lemma plain_sent: "plain c \<Longrightarrow> sent_ok c"
  by (cases c) (simp_all add: plain_def sent_ok_def)

lemma log_ok_plain:
  assumes "log_ok base sh cs" and "list_all plain cs'" and "\<And>fd. fd_balance fd cs' = d fd"
  shows "log_ok (\<lambda>fd. base fd + d fd) sh (cs @ cs')"
proof -
  have wf: "map_wf (registered cs)" using assms(1) by (simp add: log_ok_def)
  have "list_all sent_ok cs'"
    using assms(2) by (rule list.pred_mono_strong) (rule plain_sent)
  then show ?thesis
    using assms(1) fold_register_plain [OF assms(2) wf]
    by (simp add: log_ok_def registered_append assms(3))
qed

lemma log_ok_epoll:
  assumes "log_ok base sh cs" and "\<And>p. ptr = Some p \<Longrightarrow> p \<in> owners sh fd"
  shows "log_ok base sh (cs @ [Epoll_ctl epfd op fd ev ptr r])"
proof -
  let ?reg = "registered cs" and ?c = "Epoll_ctl epfd op fd ev ptr r"
  have wf: "map_wf ?reg" and reg: "\<And>fd p. map_get ?reg fd = Some p \<Longrightarrow> p \<in> owners sh fd"
    using assms(1) by (auto simp: log_ok_def)
  have "register ?c ?reg = ?reg \<or> register ?c ?reg = map_del fd ?reg \<or>
      (\<exists>p. ptr = Some p \<and> register ?c ?reg = map_put fd p ?reg)"
    by (cases op; cases ptr; cases r) auto
  then have "map_wf (register ?c ?reg)"
      and "\<And>fd p. map_get (register ?c ?reg) fd = Some p \<Longrightarrow> p \<in> owners sh fd"
    using wf reg assms(2) by (auto simp: map_get_del map_wf_del split: if_splits)
  then show ?thesis using assms(1) by (simp add: log_ok_def registered_append sent_ok_def)
qed

lemma log_ok_send: "log_ok base sh cs \<Longrightarrow> tail_ok d \<Longrightarrow> log_ok base sh (cs @ [Send fd d])"
  by (simp add: log_ok_def registered_append sent_ok_def)

lemma owners_update:
  assumes "sh p = None"
  shows "owners (sh(p \<mapsto> (k, fd))) x = (if x = fd then insert p (owners sh x) else owners sh x)"
  using assms by (auto simp: owners_def)

lemma owners_delete: "owners (sh(p := None)) x = owners sh x - {p}"
  by (auto simp: owners_def)

lemma owners_finite: "finite (dom sh) \<Longrightarrow> finite (owners sh fd)"
  by (rule finite_subset [of _ "dom sh"]) (auto simp: owners_def)

lemma log_ok_close:
  assumes "log_ok base sh cs" and "sh p = Some (k, fd)"
  shows "log_ok base (sh(p := None)) (cs @ [Close fd])"
proof -
  have fin: "finite (dom sh)" and wf: "map_wf (registered cs)"
    and reg: "\<And>fd p. map_get (registered cs) fd = Some p \<Longrightarrow> p \<in> owners sh fd"
    and bal: "\<And>fd. fd_balance fd cs = int (card (owners sh fd)) + base fd"
    using assms(1) by (auto simp: log_ok_def)
  have "fd_balance x (cs @ [Close fd]) = int (card (owners sh x - {p})) + base x" for x
  proof (cases "x = fd")
    case True
    then have "p \<in> owners sh x" using assms(2) by (auto simp: owners_def)
    then have "card (owners sh x) = Suc (card (owners sh x - {p}))"
      using owners_finite [OF fin] by (metis card_Suc_Diff1)
    then show ?thesis using bal [of x] True by simp
  next
    case False
    then have "p \<notin> owners sh x" using assms(2) by (auto simp: owners_def)
    then show ?thesis using bal [of x] False by simp
  qed
  moreover have "q \<in> owners sh x - {p}" if "map_get (map_del fd (registered cs)) x = Some q" for x q
    using that wf reg [of x q] assms(2) by (auto simp: map_get_del owners_def split: if_splits)
  ultimately show ?thesis
    using assms(1) wf fin by (simp add: log_ok_def registered_append owners_delete sent_ok_def map_wf_del)
qed

lemma log_ok_create:
  assumes "log_ok (\<lambda>x. base x + (if x = fd then 1 else 0)) sh cs" and "sh p = None"
  shows "log_ok base (sh(p \<mapsto> (k, fd))) cs"
proof -
  have fin: "finite (dom sh)" and reg: "\<And>fd p. map_get (registered cs) fd = Some p \<Longrightarrow> p \<in> owners sh fd"
    and bal: "\<And>x. fd_balance x cs = int (card (owners sh x)) + (base x + (if x = fd then 1 else 0))"
    using assms(1) by (auto simp: log_ok_def)
  have "p \<notin> owners sh x" for x using assms(2) by (simp add: owners_def)
  then have "fd_balance x cs = int (card (owners (sh(p \<mapsto> (k, fd))) x)) + base x" for x
    using bal [of x] owners_finite [OF fin] by (simp add: owners_update [where sh = sh, OF assms(2)])
  moreover have "q \<in> owners (sh(p \<mapsto> (k, fd))) x" if "map_get (registered cs) x = Some q" for x q
    using reg [OF that] by (auto simp: owners_update [where sh = sh, OF assms(2)])
  ultimately show ?thesis using assms(1) by (auto simp: log_ok_def)
qed

subsection \<open>The heap\<close>

lemma shape_update: "shape (h(p \<mapsto> obj)) = (shape h)(p \<mapsto> obj_shape obj)"
  by (simp add: shape_def fun_eq_iff)

lemma shape_delete: "shape (h(p := None)) = (shape h)(p := None)"
  by (simp add: shape_def fun_eq_iff)

lemma shape_same: "h p = Some obj \<Longrightarrow> obj_shape obj' = obj_shape obj \<Longrightarrow> shape (h(p \<mapsto> obj')) = shape h"
  by (auto simp: shape_def fun_eq_iff)

lemma shape_Some: "shape h p = Some (k, fd) \<longleftrightarrow> (\<exists>obj. h p = Some obj \<and> obj_shape obj = (k, fd))"
  by (auto simp: shape_def)

lemma linked_D:
  assumes "linked h" and "h p = Some obj" and "obj_link obj = Some q"
  obtains obj' where "h q = Some obj'" and "obj_link obj' = Some p"
    and "fst (obj_shape obj) + fst (obj_shape obj') = 1" and "p \<noteq> q"
proof -
  obtain obj' where o: "h q = Some obj'" "obj_link obj' = Some p" "fst (obj_shape obj) + fst (obj_shape obj') = 1"
    using assms unfolding linked_def by blast
  moreover have "p \<noteq> q"
  proof
    assume "p = q"
    then have "obj' = obj" using assms(2) o(1) by simp
    then show False using o(3) by presburger
  qed
  ultimately show thesis by (rule that)
qed

lemma linked_I:
  assumes "\<And>p obj q. h p = Some obj \<Longrightarrow> obj_link obj = Some q \<Longrightarrow>
      \<exists>obj'. h q = Some obj' \<and> obj_link obj' = Some p \<and> fst (obj_shape obj) + fst (obj_shape obj') = 1"
  shows "linked h"
  using assms unfolding linked_def by blast

lemma heap_ok_D:
  assumes "heap_ok h n"
  shows "linked h" and "h p = Some obj \<Longrightarrow> obj_ok obj" and "h p = Some obj \<Longrightarrow> obj_fd obj \<noteq> -1"
    and "h p = Some obj \<Longrightarrow> p < n" and "h n = None"
  using assms by (auto simp: heap_ok_def intro: ccontr)

lemma heap_ok_store:
  assumes "heap_ok h n" and "h p = Some obj" and "obj_shape obj' = obj_shape obj" and "obj_link obj' = obj_link obj"
    and "obj_ok obj'"
  shows "heap_ok (h(p \<mapsto> obj')) n"
proof -
  have "linked (h(p \<mapsto> obj'))"
  proof (rule linked_I)
    fix x x_obj y
    assume x: "(h(p \<mapsto> obj')) x = Some x_obj" and y: "obj_link x_obj = Some y"
    define old where "old = (if x = p then obj else x_obj)"
    have "h x = Some old" "obj_link old = Some y" "obj_shape old = obj_shape x_obj"
      using x y assms(2-4) by (auto simp: old_def split: if_splits)
    then obtain y_obj where h: "h y = Some y_obj" "obj_link y_obj = Some x"
        "fst (obj_shape x_obj) + fst (obj_shape y_obj) = 1"
      using heap_ok_D(1) [OF assms(1)] by (metis linked_D)
    show "\<exists>o2. (h(p \<mapsto> obj')) y = Some o2 \<and> obj_link o2 = Some x \<and> fst (obj_shape x_obj) + fst (obj_shape o2) = 1"
      by (cases "y = p") (use h assms(2-4) in auto)
  qed
  moreover have "obj_fd obj' \<noteq> -1" "p < n"
    using heap_ok_D(3,4) [OF assms(1,2)] assms(3) by (simp_all add: obj_fd_shape)
  ultimately show ?thesis using assms(1,5) by (simp add: heap_ok_def)
qed

lemma heap_ok_create:
  assumes "heap_ok h n" and "obj_link obj = None" and "obj_ok obj" and "obj_fd obj \<noteq> -1"
  shows "heap_ok (h(n \<mapsto> obj)) (Suc n)"
proof -
  have "linked (h(n \<mapsto> obj))"
  proof (rule linked_I)
    fix x x_obj y
    assume x: "(h(n \<mapsto> obj)) x = Some x_obj" and y: "obj_link x_obj = Some y"
    then have "h x = Some x_obj" using assms(2) by (auto split: if_splits)
    then obtain y_obj where "h y = Some y_obj" "obj_link y_obj = Some x"
        "fst (obj_shape x_obj) + fst (obj_shape y_obj) = 1"
      using heap_ok_D(1) [OF assms(1)] y by (metis linked_D)
    moreover from this have "y \<noteq> n" using heap_ok_D(5) [OF assms(1)] by auto
    ultimately show "\<exists>o2. (h(n \<mapsto> obj)) y = Some o2 \<and> obj_link o2 = Some x \<and>
        fst (obj_shape x_obj) + fst (obj_shape o2) = 1" by simp
  qed
  then show ?thesis using assms by (auto simp: heap_ok_def less_Suc_eq)
qed

text \<open>Linking two objects, and unlinking one before it goes.\<close>

lemma heap_ok_link:
  assumes "heap_ok h n" and "h p = Some (Client c)" and "h q = Some (Cgi g)"
    and "cl_cgi_socket c = None" and "cgs_owner g = None" and "sp_state (cl_req c) = kDone"
  shows "heap_ok (h(q \<mapsto> Cgi (g\<lparr>cgs_owner := Some p\<rparr>), p \<mapsto> Client (c\<lparr>cl_cgi_socket := Some q\<rparr>))) n"
    (is "heap_ok ?h n")
proof -
  have pq: "p \<noteq> q" using assms(2,3) by auto
  have "linked ?h"
  proof (rule linked_I)
    fix x x_obj y
    assume x: "?h x = Some x_obj" and y: "obj_link x_obj = Some y"
    consider "x = p" | "x = q" | "x \<noteq> p" "x \<noteq> q" by blast
    then show "\<exists>o2. ?h y = Some o2 \<and> obj_link o2 = Some x \<and> fst (obj_shape x_obj) + fst (obj_shape o2) = 1"
    proof cases
      case 3
      then obtain y_obj where h: "h y = Some y_obj" "obj_link y_obj = Some x"
          "fst (obj_shape x_obj) + fst (obj_shape y_obj) = 1"
        using x y heap_ok_D(1) [OF assms(1)] by (auto elim: linked_D)
      then have "y \<noteq> p" "y \<noteq> q" using assms(2-5) by auto
      then show ?thesis using h by simp
    qed (use x y pq in auto)
  qed
  moreover have "obj_ok (Client c)" "so_fd c \<noteq> -1" "p < n" "so_fd g \<noteq> -1" "q < n"
    using heap_ok_D(2-4) [OF assms(1,2)] heap_ok_D(3,4) [OF assms(1,3)] by simp_all
  ultimately show ?thesis using assms(1,6) pq by (simp add: heap_ok_def)
qed

fun unlink :: "obj \<Rightarrow> obj" where
  "unlink (Client c) = Client (c\<lparr>cl_cgi_socket := None\<rparr>)"
| "unlink (Cgi g) = Cgi (g\<lparr>cgs_owner := None\<rparr>)"
| "unlink (Server v) = Server v"

lemma unlink_simps [simp]:
  "obj_shape (unlink obj) = obj_shape obj" "obj_link (unlink obj) = None" "obj_ok obj \<Longrightarrow> obj_ok (unlink obj)"
  "obj_fd (unlink obj) = obj_fd obj"
  by (cases obj; simp)+

lemma heap_ok_delete:
  assumes "heap_ok h n" and "h p = Some obj" and "obj_link obj = None"
  shows "heap_ok (h(p := None)) n"
proof -
  have "linked (h(p := None))"
  proof (rule linked_I)
    fix x x_obj y
    assume x: "(h(p := None)) x = Some x_obj" and y: "obj_link x_obj = Some y"
    then obtain y_obj where h: "h y = Some y_obj" "obj_link y_obj = Some x"
        "fst (obj_shape x_obj) + fst (obj_shape y_obj) = 1"
      using heap_ok_D(1) [OF assms(1)] by (auto elim: linked_D split: if_splits)
    then have "y \<noteq> p" using assms(2,3) by auto
    then show "\<exists>o2. (h(p := None)) y = Some o2 \<and> obj_link o2 = Some x \<and>
        fst (obj_shape x_obj) + fst (obj_shape o2) = 1" using h by simp
  qed
  then show ?thesis using assms(1) by (simp add: heap_ok_def)
qed

lemma heap_ok_delete_linked:
  assumes "heap_ok h n" and "h p = Some obj" and "obj_link obj = Some q" and "h q = Some obj'"
  shows "heap_ok (h(q \<mapsto> unlink obj', p := None)) n" (is "heap_ok ?h n")
proof -
  obtain y_obj where "h q = Some y_obj" "obj_link y_obj = Some p" and pq: "p \<noteq> q"
    by (rule linked_D [OF heap_ok_D(1) [OF assms(1)] assms(2,3)])
  then have backward: "obj_link obj' = Some p" using assms(4) by simp
  have "linked ?h"
  proof (rule linked_I)
    fix x x_obj y
    assume x: "?h x = Some x_obj" and y: "obj_link x_obj = Some y"
    then have xx: "h x = Some x_obj" "x \<noteq> q" "x \<noteq> p" by (auto split: if_splits)
    then obtain y_obj where h: "h y = Some y_obj" "obj_link y_obj = Some x"
        "fst (obj_shape x_obj) + fst (obj_shape y_obj) = 1"
      using y heap_ok_D(1) [OF assms(1)] by (auto elim: linked_D)
    then have "y \<noteq> p" "y \<noteq> q" using assms(2-4) backward xx by auto
    then show "\<exists>o2. ?h y = Some o2 \<and> obj_link o2 = Some x \<and> fst (obj_shape x_obj) + fst (obj_shape o2) = 1"
      using h by simp
  qed
  moreover have "obj_ok (unlink obj')" "obj_fd (unlink obj') \<noteq> -1" "q < n"
    using heap_ok_D(2-4) [OF assms(1,4)] by simp_all
  ultimately show ?thesis using assms(1) by (simp add: heap_ok_def)
qed

subsection \<open>Steps\<close>

lemma good_D:
  assumes "good base s"
  shows "heap_ok (heap s) (next_address s)" and "log_ok base (shape (heap s)) (calls s)"
  using assms by (simp_all add: good_def)

text \<open>A function of the machine with plain calls that leave the descriptors alone.\<close>

definition calm :: "syscall \<Rightarrow> bool" where
  "calm c \<longleftrightarrow> plain c \<and> quiet c"

lemma good_calm:
  assumes "good base s" and "list_all calm cs"
  shows "kept base s (s\<lparr>world := w, calls := calls s @ cs\<rparr>)"
proof -
  have p: "list_all plain cs" "list_all quiet cs" using assms(2) by (auto simp: calm_def list_all_iff)
  then have "fd_balance fd cs = 0" for fd by (simp add: quiet_balance)
  from log_ok_plain [OF good_D(2) [OF assms(1)] p(1) this]
  show ?thesis using good_D(1) [OF assms(1)] by (simp add: kept_def good_def)
qed

lemma wp_calm:
  assumes "good base s" and "io_spec calm R E0 f"
    and "\<And>x s'. R x \<Longrightarrow> kept base s s' \<Longrightarrow> heap s' = heap s \<Longrightarrow> Q x s'"
    and "\<And>e s'. E0 e \<Longrightarrow> kept base s s' \<Longrightarrow> heap s' = heap s \<Longrightarrow> E e s'"
  shows "wp (run_io f) Q E s"
  by (rule wp_run_io [OF assms(2)]) (use assms(3,4) good_calm [OF assms(1)] in simp_all)

lemma wp_lift:
  assumes "r = Inr x" and "Q x s"
  shows "wp (run_io (io_lift r)) Q E s"
  using assms by (simp add: wp_def run_io_def io_lift_def)

text \<open>A store that keeps the shape and the link.\<close>

lemma wp_store_kept:
  assumes "good base s" and "heap s p = Some obj" and "obj_shape obj' = obj_shape obj"
    and "obj_link obj' = obj_link obj" and "obj_ok obj'"
    and "\<And>s'. kept base s s' \<Longrightarrow> heap s' = (heap s)(p \<mapsto> obj') \<Longrightarrow> Q () s'"
  shows "wp (store p obj') Q E s"
proof -
  have "kept base s (s\<lparr>heap := (heap s)(p \<mapsto> obj')\<rparr>)"
    using heap_ok_store [OF good_D(1) [OF assms(1)] assms(2-5)] good_D(2) [OF assms(1)]
      shape_same [where h = "heap s", OF assms(2,3)]
    by (simp add: kept_def good_def)
  then show ?thesis using assms(2,6) by (simp add: wp_store)
qed

text \<open>Calls of \<open>epoll_ctl\<close> for an object, and of \<open>send\<close>.\<close>

lemma wp_epoll_ctl:
  assumes "good base s" and "\<And>p. ptr = Some p \<Longrightarrow> \<exists>obj. heap s p = Some obj \<and> obj_fd obj = fd"
    and "\<And>r s'. kept base s s' \<Longrightarrow> heap s' = heap s \<Longrightarrow> next_address s' = next_address s \<Longrightarrow> Q r s'"
  shows "wp (run_io (call_epoll_ctl os epfd op fd ev ptr)) Q E s"
proof -
  have "p \<in> owners (shape (heap s)) fd" if "ptr = Some p" for p
    using assms(2) [OF that] by (auto simp: owners_def shape_def obj_fd_shape) (metis prod.collapse)
  from log_ok_epoll [OF good_D(2) [OF assms(1)] this]
  have "kept base s (s\<lparr>world := w, calls := calls s @ [Epoll_ctl epfd op fd ev ptr r]\<rparr>)" for w r
    using good_D(1) [OF assms(1)] by (simp add: kept_def good_def)
  then show ?thesis
    using assms(3) by (simp add: wp_def run_io_def call_epoll_ctl_def sys_def split: prod.split)
qed

lemma wp_send:
  assumes "good base s" and "tail_ok d"
    and "\<And>n s'. kept base s s' \<Longrightarrow> heap s' = heap s \<Longrightarrow> Q n s'"
  shows "wp (run_io (call_send os fd d)) Q E s"
proof -
  have "kept base s (s\<lparr>world := w, calls := calls s @ [Send fd d]\<rparr>)" for w
    using good_D(1) [OF assms(1)] log_ok_send [OF good_D(2) [OF assms(1)] assms(2)] by (simp add: kept_def good_def)
  then show ?thesis
    using assms(3) by (simp add: wp_def run_io_def call_send_def sys_def split: prod.split)
qed

text \<open>A new object takes over a descriptor that nobody owns.\<close>

lemma wp_create_good:
  assumes "good (\<lambda>x. base x + (if x = obj_fd obj then 1 else 0)) s"
    and "obj_link obj = None" and "obj_ok obj" and "obj_fd obj \<noteq> -1"
    and "\<And>s' q. good base s' \<Longrightarrow> heap s q = None \<Longrightarrow> heap s' = (heap s)(q \<mapsto> obj) \<Longrightarrow> calls s' = calls s \<Longrightarrow> Q q s'"
  shows "wp (create obj) Q E s"
proof -
  let ?q = "next_address s" and ?s' = "s\<lparr>heap := (heap s)(next_address s \<mapsto> obj), next_address := Suc (next_address s)\<rparr>"
  have fresh: "heap s ?q = None" by (rule heap_ok_D(5) [OF good_D(1) [OF assms(1)]])
  have "log_ok base ((shape (heap s))(?q \<mapsto> (fst (obj_shape obj), obj_fd obj))) (calls s)"
    by (rule log_ok_create [OF good_D(2) [OF assms(1)]]) (simp add: shape_def fresh)
  then have "good base ?s'"
    using heap_ok_create [OF good_D(1) [OF assms(1)] assms(2-4)]
    by (simp add: good_def shape_update obj_fd_shape)
  then show ?thesis using assms(5) [of ?s' ?q] fresh by (simp add: wp_create)
qed

text \<open>The end of an object: its descriptor is closed and its memory released.\<close>

lemma wp_Fd_destroy:
  assumes "fd \<noteq> -1" and "\<And>w. Q () (s\<lparr>world := w, calls := calls s @ [Close fd]\<rparr>)"
  shows "wp (run_io (Fd_destroy os fd)) Q E s"
  using assms by (simp add: wp_def run_io_def Fd_destroy_def Fd_Reset_def call_close_def io_run split: prod.split)

lemma wp_close_release:
  assumes log: "log_ok base (shape h) (calls s)" and p: "h p = Some obj" and fd: "obj_fd obj \<noteq> -1"
    and shape: "shape (heap s) = shape h" and ok: "heap_ok ((heap s)(p := None)) (next_address s)"
    and Q: "\<And>s'. good base s' \<Longrightarrow> shape (heap s') = (shape h)(p := None) \<Longrightarrow> prefix (calls s) (calls s') \<Longrightarrow>
      heap s' = (heap s)(p := None) \<Longrightarrow> Q () s'"
  shows "wp (act_bind (run_io (Fd_destroy os (obj_fd obj))) (\<lambda>_. release p)) Q E s"
proof -
  have sh: "shape h p = Some (fst (obj_shape obj), obj_fd obj)" using p by (simp add: shape_def obj_fd_shape)
  have "shape (heap s) p \<noteq> None" using sh shape by simp
  then have live: "heap s p \<noteq> None" by (simp add: shape_def)
  have "log_ok base ((shape h)(p := None)) (calls s @ [Close (obj_fd obj)])"
    by (rule log_ok_close [where sh = "shape h", OF log sh])
  then have "good base (s\<lparr>world := w, calls := calls s @ [Close (obj_fd obj)], heap := (heap s)(p := None)\<rparr>)" for w
    using ok shape by (simp add: good_def shape_delete)
  then show ?thesis
    using live fd Q shape
    by (simp only: wp_bind, intro wp_Fd_destroy) (simp_all add: wp_release shape_delete)
qed

end
