(* ===== verification/Http_Request_Parse.thy ===== *)
theory Http_Request_Parse
  imports Http_Request_Body
begin

text \<open>
  \<open>HttpRequest\<close> as a parser: the invariant of its fields in each state, the interpretation of
  the contracts \<open>stream_parser\<close> and \<open>incremental_parser\<close>, and what the server may rely on
  once \<open>Parse\<close> has returned: termination, the framing rules of the head, the limit of the
  body, the statuses of the errors, and independence of how the bytes arrive.
\<close>

subsection \<open>The invariant\<close>

text \<open>How the length of the body is known: never from both header fields.\<close>

definition framing_ok :: "http_request \<Rightarrow> bool" where
  "framing_ok r \<longleftrightarrow>
     (let cl = map_get (rq_headers r) ''content-length'';
          te = map_get (rq_headers r) ''transfer-encoding''
      in cl = None \<and> te = None \<and> rq_content_length r = 0 \<or>
         (\<exists>s. cl = Some s \<and> StrToLong s = Some (rq_content_length r)) \<and> te = None \<and>
           0 \<le> rq_content_length r \<and> nat (rq_content_length r) \<le> kMaxPayloadSize \<and>
           nat (rq_content_length r) \<le> rq_max_body_size_limit r \<or>
         cl = None \<and> te = Some ''chunked'' \<and> rq_content_length r = -1)"

definition connection_ok :: "http_request \<Rightarrow> bool" where
  "connection_ok r \<longleftrightarrow>
     (case map_get (rq_headers r) ''connection'' of
        None \<Rightarrow> rq_keep_alive r = (rq_version r = ''HTTP/1.1'')
      | Some v \<Rightarrow> v = (if rq_keep_alive r then ''keep-alive'' else ''close''))"

definition head_ok :: "http_request \<Rightarrow> bool" where
  "head_ok r \<longleftrightarrow>
     known_method (rq_method r) \<and> deref (rq_uri r) = CHR ''/'' \<and> uri_bytes '' ?'' (rq_uri r) \<and>
     length (rq_uri r) < kMaxUriSize \<and> known_version (rq_version r) \<and>
     map_has (rq_headers r) ''host'' \<and> rq_host_name r \<noteq> [] \<and> framing_ok r \<and> connection_ok r"

text \<open>A chunked body under way: the pending size is one that fits.\<close>

definition pending_ok :: "http_request \<Rightarrow> bool" where
  "pending_ok r \<longleftrightarrow>
     sp_read_pos r \<le> length (sp_buffer r) \<and>
     (if 0 \<le> rq_content_length r
      then rq_body r = [] \<and> sp_read_pos r = 0 \<and> rq_next_chunk_size r = -1
      else -1 \<le> rq_next_chunk_size r \<and>
        length (rq_body r) + nat (rq_next_chunk_size r) \<le> rq_max_body_size_limit r)"

definition request_wf :: "http_request \<Rightarrow> bool" where
  "request_wf r \<longleftrightarrow>
     rq_max_body_size_limit r < 2 ^ 63 \<and> map_wf (rq_headers r) \<and>
     (\<forall>k. map_has (rq_headers r) k \<longrightarrow> ToLowerAscii k = k) \<and>
     (case sp_state r of
        kHeader \<Rightarrow> sp_read_pos r = 0 \<and> rq_body r = [] \<and> rq_next_chunk_size r = -1 \<and> rq_headers r = []
      | kBody \<Rightarrow> head_ok r \<and> pending_ok r
      | kDone \<Rightarrow> head_ok r \<and> length (rq_body r) \<le> rq_max_body_size_limit r \<and>
          (0 \<le> rq_content_length r \<longrightarrow> int (length (rq_body r)) = rq_content_length r))"

text \<open>The fields that are final once the head has been read.\<close>

definition same_head :: "http_request \<Rightarrow> http_request \<Rightarrow> bool" where
  "same_head r r' \<longleftrightarrow>
     rq_method r' = rq_method r \<and> rq_uri r' = rq_uri r \<and> rq_query_string r' = rq_query_string r \<and>
     rq_host_name r' = rq_host_name r \<and> rq_host_port r' = rq_host_port r \<and>
     rq_version r' = rq_version r \<and> rq_headers r' = rq_headers r \<and>
     rq_content_length r' = rq_content_length r \<and> rq_keep_alive r' = rq_keep_alive r \<and>
     rq_client_ip r' = rq_client_ip r \<and> rq_max_body_size_limit r' = rq_max_body_size_limit r"

lemma same_head_refl [simp]: "same_head r r"
  by (simp add: same_head_def)

lemma same_head_trans: "same_head r r1 \<Longrightarrow> same_head r1 r2 \<Longrightarrow> same_head r r2"
  by (simp add: same_head_def)

lemma same_head_ok: "same_head r r' \<Longrightarrow> head_ok r' = head_ok r"
  by (simp add: same_head_def head_ok_def framing_ok_def connection_ok_def cong: option.case_cong)

lemma same_head_updates [simp]:
  "same_head r (r'\<lparr>sp_buffer := b\<rparr>) = same_head r r'"
  "same_head r (r'\<lparr>sp_read_pos := p\<rparr>) = same_head r r'"
  "same_head r (r'\<lparr>sp_state := st\<rparr>) = same_head r r'"
  "same_head r (r'\<lparr>rq_body := d\<rparr>) = same_head r r'"
  "same_head r (r'\<lparr>rq_next_chunk_size := n\<rparr>) = same_head r r'"
  "same_head r (append_data x r') = same_head r r'"
  by (simp_all add: same_head_def append_data_def)

subsection \<open>The head\<close>

lemma ToLowerAscii_keys: "map_has (put_headers kvs []) k \<Longrightarrow> ToLowerAscii k = k"
  by (auto simp: map_has_put_headers ToLowerAscii_idem)

lemma ValidateBodyHeaders_framing: "ValidateBodyHeaders r = Inr r' \<Longrightarrow> framing_ok r'"
  by (auto simp: ValidateBodyHeaders_def ParseContentLength_def ParseTransferEncoding_def framing_ok_def
      and_then_Inr_iff Let_def split: option.splits if_splits)

lemma ValidateAndExtractHost_host:
  "ValidateAndExtractHost r = Inr r' \<Longrightarrow> map_has (rq_headers r) ''host'' \<and> rq_host_name r' \<noteq> []"
  by (auto simp: ValidateAndExtractHost_def map_has_def substr_def and_then_Inr_iff Let_def
      split: option.splits if_splits)

lemma finish_headers_ok:
  assumes "finish_headers r = Inr r'"
  shows "map_has (rq_headers r') ''host'' \<and> rq_host_name r' \<noteq> [] \<and> framing_ok r' \<and> connection_ok r'"
proof -
  obtain r2 r3 where h: "ValidateAndExtractHost r = Inr r2" "ValidateBodyHeaders r2 = Inr r3"
      "ParseConnectionDirective r3 = Inr r'"
    using assms by (auto simp: finish_headers_def and_then_Inr_iff)
  note f = ValidateAndExtractHost_frame [OF h(1)] ValidateBodyHeaders_frame [OF h(2)]
    ParseConnectionDirective_frame [OF h(3)]
  have "rq_headers r2 = rq_headers r" "rq_headers r3 = rq_headers r2" "rq_headers r' = rq_headers r3"
      "rq_host_name r3 = rq_host_name r2" "rq_host_name r' = rq_host_name r3"
      "rq_content_length r' = rq_content_length r3" "rq_max_body_size_limit r' = rq_max_body_size_limit r3"
    using arg_cong [OF f(1), of rq_headers] arg_cong [OF f(2), of rq_headers] arg_cong [OF f(2), of rq_host_name]
      arg_cong [OF f(3), of rq_headers] arg_cong [OF f(3), of rq_host_name]
      arg_cong [OF f(3), of rq_content_length] arg_cong [OF f(3), of rq_max_body_size_limit] by simp_all
  then show ?thesis
    using ValidateAndExtractHost_host [OF h(1)] ValidateBodyHeaders_framing [OF h(2)] h(3)
    by (auto simp: framing_ok_def connection_ok_def ParseConnectionDirective_def split: option.splits if_splits)
qed

lemma store_line_head:
  assumes "valid_head m path query v kvs" and "store_headers (store_line m path query v r) kvs = Inr r1"
    and "finish_headers r1 = Inr r2"
  shows "head_ok r2" and "rq_method r2 = m" and "rq_uri r2 = path" and "rq_version r2 = v"
    and "rq_query_string r2 = (case query of None \<Rightarrow> rq_query_string r | Some q \<Rightarrow> q)"
proof -
  obtain h p c k where f: "r2 = r1\<lparr>rq_host_name := h, rq_host_port := p, rq_content_length := c, rq_keep_alive := k\<rparr>"
    using finish_headers_frame [OF assms(3)] by blast
  obtain hs where hs: "r1 = (store_line m path query v r)\<lparr>rq_headers := hs\<rparr>"
    using store_headers_frame [OF assms(2)] by blast
  show *: "rq_method r2 = m" "rq_uri r2 = path" "rq_version r2 = v"
    "rq_query_string r2 = (case query of None \<Rightarrow> rq_query_string r | Some q \<Rightarrow> q)"
    using f hs by (cases query; simp add: store_line_def)+
  show "head_ok r2"
    using * finish_headers_ok [OF assms(3)] assms(1) by (cases query) (auto simp: head_ok_def valid_head_def)
qed

lemma AdvanceHeader_wf:
  assumes "request_wf r" and "sp_state r = kHeader" and "AdvanceHeader r = Inr (True, r')"
  shows "request_wf r'" and "sp_state r' = kBody"
proof -
  from assms(3) obtain m path query v kvs q r1 r2 where v: "valid_head m path query v kvs"
      and s: "store_headers (store_line m path query v r) kvs = Inr r1" "finish_headers r1 = Inr r2"
      and r': "r' = r2\<lparr>sp_buffer := q, sp_state := kBody\<rparr>"
    unfolding AdvanceHeader_True by blast
  have "head_ok r'" using store_line_head(1) [OF v s] r' same_head_ok [of r2 r'] by simp
  moreover have "rq_headers r' = put_headers kvs []"
    using head_frame(7) [OF s] r' assms(1,2) by (simp add: request_wf_def)
  moreover have "pending_ok r'" using head_frame(3-6) [OF s] r' assms(1,2)
    by (simp add: request_wf_def pending_ok_def)
  ultimately show "request_wf r'" "sp_state r' = kBody"
    using head_frame(6) [OF s] assms(1) r' ToLowerAscii_keys put_headers_wf
    by (simp_all add: request_wf_def)
qed

subsection \<open>The body\<close>

lemma append_data_updates [simp]:
  "append_data d (r\<lparr>sp_read_pos := p\<rparr>) = (append_data d r)\<lparr>sp_read_pos := p\<rparr>"
  "append_data d (r\<lparr>rq_next_chunk_size := n\<rparr>) = (append_data d r)\<lparr>rq_next_chunk_size := n\<rparr>"
  "append_data d (r\<lparr>rq_body := b\<rparr>) = (append_data d r)\<lparr>rq_body := b\<rparr>"
  by (simp_all add: append_data_def)

lemma append_data_fields [simp]:
  "rq_next_chunk_size (append_data d r) = rq_next_chunk_size r"
  "rq_body (append_data d r) = rq_body r"
  "rq_headers (append_data d r) = rq_headers r"
  "rq_content_length (append_data d r) = rq_content_length r"
  "rq_max_body_size_limit (append_data d r) = rq_max_body_size_limit r"
  by (simp_all add: append_data_def)

lemma read_chunk_size_frame:
  assumes "read_chunk_size r = Inr (ok, r1)"
  shows "same_head r r1" "sp_buffer r1 = sp_buffer r" "sp_state r1 = sp_state r" "rq_body r1 = rq_body r"
    "sp_read_pos r \<le> sp_read_pos r1" "\<not> ok \<Longrightarrow> r1 = r"
    "sp_read_pos r \<le> length (sp_buffer r) \<Longrightarrow> sp_read_pos r1 \<le> length (sp_buffer r)"
  using assms ParseChunkSize_pos [of "sp_buffer r" "sp_read_pos r"]
  by (auto simp: read_chunk_size_def and_then_Inr_iff less_imp_le split: if_splits)

lemma AppendChunkData_frame:
  assumes "AppendChunkData r pos n = Inr (ok, pos', r1)"
  shows "same_head r r1" "sp_buffer r1 = sp_buffer r" "sp_state r1 = sp_state r"
    "length (rq_body r) + n \<le> rq_max_body_size_limit r" "\<not> ok \<Longrightarrow> r1 = r"
    "rq_next_chunk_size r1 = rq_next_chunk_size r" "length (rq_body r1) \<le> rq_max_body_size_limit r"
  using assms
  by (auto simp: AppendChunkData_def ValidateAndSkipCRLF_def and_then_Inr_iff substr_def split: if_splits)

text \<open>More data does not change a size line or a chunk that is complete.\<close>

lemma read_chunk_size_append:
  assumes "read_chunk_size r = Inr (True, r1)"
  shows "read_chunk_size (append_data d r) = Inr (True, append_data d r1)"
proof (cases "rq_next_chunk_size r = -1")
  case True
  then obtain pos n where size: "ParseChunkSize (sp_buffer r) (sp_read_pos r) = Inr (True, pos, n)"
      and r1: "r1 = r\<lparr>sp_read_pos := pos, rq_next_chunk_size := to_ptrdiff n\<rparr>"
    using assms by (auto simp: read_chunk_size_def and_then_Inr_iff split: if_splits)
  from size obtain h rest where h: "drop (sp_read_pos r) (sp_buffer r) = h @ CRLF @ rest" "size_text h n"
      "n < 2 ^ 64" "pos = sp_read_pos r + length h + 2"
    unfolding ParseChunkSize_True by blast
  then have "sp_read_pos r \<le> length (sp_buffer r)" by (cases "sp_read_pos r \<le> length (sp_buffer r)") auto
  then have "drop (sp_read_pos r) (sp_buffer r @ d) = h @ CRLF @ (rest @ d)" using h(1) by simp
  then have "ParseChunkSize (sp_buffer r @ d) (sp_read_pos r) = Inr (True, pos, n)"
    unfolding ParseChunkSize_True using h by blast
  then show ?thesis using True r1 by (simp add: read_chunk_size_def)
qed (use assms in \<open>simp add: read_chunk_size_def\<close>)

lemma ValidateAndSkipCRLF_append:
  "ValidateAndSkipCRLF b pos = Inr (True, pos') \<Longrightarrow> ValidateAndSkipCRLF (b @ d) pos = Inr (True, pos')"
  using prefix_drop_append [of CRLF pos b d] by (simp add: ValidateAndSkipCRLF_True)

lemma AppendChunkData_append:
  assumes "AppendChunkData r pos n = Inr (True, pos', r1)"
  shows "AppendChunkData (append_data d r) pos n = Inr (True, pos', append_data d r1)"
proof -
  have "pos + n \<le> length (sp_buffer r)" "pos + (n + 2) \<le> length (sp_buffer r)"
    using assms by (auto simp: AppendChunkData_def split: if_splits)
  then have "substr (sp_buffer r @ d) pos n = substr (sp_buffer r) pos n" by (simp add: substr_def)
  then show ?thesis
    using assms ValidateAndSkipCRLF_append [of "sp_buffer r" "pos + n" pos' d]
    by (auto simp: AppendChunkData_def and_then_Inr_iff split: if_splits)
qed

text \<open>The three ways a round of the loop can go.\<close>

lemma chunk_loop_cases:
  assumes "chunk_loop r = Inr (ok, r')"
  obtains (size) "\<not> ok" and "r' = r"
  | (final) r1 r2 fin where "read_chunk_size r = Inr (True, r1)" and "rq_next_chunk_size r1 = 0"
      and "ValidateFinalCRLF r1 = Inr (fin, r2)" and "ok = fin"
      and "r' = (if fin then r2\<lparr>sp_buffer := [], sp_read_pos := 0, rq_next_chunk_size := -1, sp_state := kDone\<rparr>
             else r1)"
  | (wait) r1 pos where "read_chunk_size r = Inr (True, r1)" and "rq_next_chunk_size r1 \<noteq> 0"
      and "AppendChunkData r1 (sp_read_pos r1) (ptrdiff_to_size (rq_next_chunk_size r1)) = Inr (False, pos, r1)"
      and "\<not> ok" and "r' = r1"
  | (chunk) r1 r2 pos where "read_chunk_size r = Inr (True, r1)" and "rq_next_chunk_size r1 \<noteq> 0"
      and "AppendChunkData r1 (sp_read_pos r1) (ptrdiff_to_size (rq_next_chunk_size r1)) = Inr (True, pos, r2)"
      and "chunk_loop (r2\<lparr>sp_read_pos := pos, rq_next_chunk_size := -1\<rparr>) = Inr (ok, r')"
proof -
  from assms obtain ok1 r1 where r1: "read_chunk_size r = Inr (ok1, r1)"
    by (subst (asm) chunk_loop.simps) (auto simp: and_then_Inr_iff)
  show thesis
  proof (cases "ok1 \<and> rq_next_chunk_size r1 = 0")
    case True
    then obtain fin r2 where f: "ValidateFinalCRLF r1 = Inr (fin, r2)"
      using assms r1 by (subst (asm) chunk_loop.simps) (auto simp: and_then_Inr_iff)
    then have "fin \<longrightarrow> sp_buffer r2 = []" "\<not> fin \<longrightarrow> r2 = r1"
      by (auto simp: ValidateFinalCRLF_def and_then_Inr_iff split: if_splits)
    with True f show thesis using assms r1 final
      by (subst (asm) chunk_loop.simps) (auto split: if_splits)
  next
    case False
    show thesis
    proof (cases ok1)
      case True
      then obtain b pos r2 where
          a: "AppendChunkData r1 (sp_read_pos r1) (ptrdiff_to_size (rq_next_chunk_size r1)) = Inr (b, pos, r2)"
        using assms r1 False by (subst (asm) chunk_loop.simps) (auto simp: and_then_Inr_iff)
      with True False show thesis using assms r1 wait chunk AppendChunkData_frame(5) [OF a]
        by (subst (asm) chunk_loop.simps) (cases b; auto)
    next
      case notok: False
      then show thesis using assms r1 size read_chunk_size_frame(6) [OF r1]
        by (subst (asm) chunk_loop.simps) auto
    qed
  qed
qed

text \<open>Induction on the rounds: one rule for every fact about the loop.\<close>

lemma chunk_loop_rounds [consumes 1, case_names size final wait chunk]:
  assumes "chunk_loop r = Inr (ok, r')"
    and size: "\<And>r. P r False r"
    and final: "\<And>r r1 r2. read_chunk_size r = Inr (True, r1) \<Longrightarrow> rq_next_chunk_size r1 = 0 \<Longrightarrow>
      ValidateFinalCRLF r1 = Inr (True, r2) \<Longrightarrow>
      P r True (r2\<lparr>sp_buffer := [], sp_read_pos := 0, rq_next_chunk_size := -1, sp_state := kDone\<rparr>)"
    and wait: "\<And>r r1. read_chunk_size r = Inr (True, r1) \<Longrightarrow>
      rq_next_chunk_size r1 = 0 \<or>
      (\<exists>pos. AppendChunkData r1 (sp_read_pos r1) (ptrdiff_to_size (rq_next_chunk_size r1)) = Inr (False, pos, r1)) \<Longrightarrow>
      P r False r1"
    and chunk: "\<And>r r1 r2 pos. read_chunk_size r = Inr (True, r1) \<Longrightarrow> rq_next_chunk_size r1 \<noteq> 0 \<Longrightarrow>
      AppendChunkData r1 (sp_read_pos r1) (ptrdiff_to_size (rq_next_chunk_size r1)) = Inr (True, pos, r2) \<Longrightarrow>
      sp_read_pos r1 < pos \<Longrightarrow> pos \<le> length (sp_buffer r1) \<Longrightarrow>
      P (r2\<lparr>sp_read_pos := pos, rq_next_chunk_size := -1\<rparr>) ok r' \<Longrightarrow> P r ok r'"
  shows "P r ok r'"
  using assms(1)
proof (induction "length (sp_buffer r) - sp_read_pos r" arbitrary: r rule: less_induct)
  case less
  from less.prems show ?case
  proof (cases rule: chunk_loop_cases)
    case size
    then show ?thesis using assms(2) [of r] by simp
  next
    case (final r1 r2 fin)
    then show ?thesis using assms(3) [of r r1 r2] assms(4) [of r r1] by (cases fin) simp_all
  next
    case (wait r1 pos)
    then show ?thesis using assms(4) [of r r1] by auto
  next
    case (chunk r1 r2 pos)
    let ?r3 = "r2\<lparr>sp_read_pos := pos, rq_next_chunk_size := -1\<rparr>"
    note f = read_chunk_size_frame(2,5) [OF chunk(1)] AppendChunkData_pos(2) [OF chunk(3)]
      AppendChunkData_frame(2) [OF chunk(3)]
    then have "length (sp_buffer ?r3) - sp_read_pos ?r3 < length (sp_buffer r) - sp_read_pos r" by auto
    then have "P ?r3 ok r'" using less.hyps chunk(4) by blast
    with assms(5) [OF chunk(1-3)] f show ?thesis by simp
  qed
qed

lemma ValidateFinalCRLF_frame:
  "ValidateFinalCRLF r = Inr (True, r') \<Longrightarrow> same_head r r' \<and> rq_body r' = rq_body r"
  by (auto simp: ValidateFinalCRLF_def and_then_Inr_iff same_head_def split: if_splits)

lemma chunk_loop_same_head: "chunk_loop r = Inr (ok, r') \<Longrightarrow> same_head r r'"
proof (induction rule: chunk_loop_rounds)
  case (final r r1 r2)
  then have "same_head r r2"
    using read_chunk_size_frame(1) [OF final(1)] ValidateFinalCRLF_frame [OF final(3)] same_head_trans by blast
  then show ?case by simp
next
  case (wait r r1)
  then show ?case by (simp add: read_chunk_size_frame(1))
next
  case (chunk r r1 r2 pos)
  have "same_head r r2"
    using same_head_trans read_chunk_size_frame(1) [OF chunk(1)] AppendChunkData_frame(1) [OF chunk(3)] by blast
  then have "same_head r (r2\<lparr>sp_read_pos := pos, rq_next_chunk_size := -1\<rparr>)" by simp
  then show ?case using chunk.IH same_head_trans by blast
qed simp

lemma chunk_loop_unfinished:
  "chunk_loop r = Inr (ok, r') \<Longrightarrow> if ok then sp_state r' = kDone
     else sp_buffer r' = sp_buffer r \<and> sp_state r' = sp_state r"
proof (induction rule: chunk_loop_rounds)
  case (wait r r1)
  then show ?case by (simp add: read_chunk_size_frame(2,3))
next
  case (chunk r r1 r2 pos)
  then show ?case
    using read_chunk_size_frame(2,3) [OF chunk(1)] AppendChunkData_frame(2,3) [OF chunk(3)] by simp
qed simp_all

text \<open>What is read stays within the limit.\<close>

definition chunked_wf :: "http_request \<Rightarrow> bool" where
  "chunked_wf r \<longleftrightarrow> rq_max_body_size_limit r < 2 ^ 63 \<and> sp_read_pos r \<le> length (sp_buffer r) \<and>
     -1 \<le> rq_next_chunk_size r \<and> length (rq_body r) + nat (rq_next_chunk_size r) \<le> rq_max_body_size_limit r"

lemma read_chunk_size_next:
  assumes "read_chunk_size r = Inr (True, r1)" and "chunked_wf r"
    and "ptrdiff_to_size (rq_next_chunk_size r1) < 2 ^ 63"
  shows "0 \<le> rq_next_chunk_size r1 \<and> nat (rq_next_chunk_size r1) = ptrdiff_to_size (rq_next_chunk_size r1)"
proof -
  obtain n where n: "n < 2 ^ 64" and r1: "rq_next_chunk_size r1 = to_ptrdiff n"
  proof (cases "rq_next_chunk_size r = -1")
    case True
    then obtain n pos where "ParseChunkSize (sp_buffer r) (sp_read_pos r) = Inr (True, pos, n)"
        and "rq_next_chunk_size r1 = to_ptrdiff n"
      using assms(1) by (auto simp: read_chunk_size_def and_then_Inr_iff split: if_splits)
    then show ?thesis using that unfolding ParseChunkSize_True by blast
  next
    case False
    then have "r1 = r" and *: "0 \<le> rq_next_chunk_size r" "nat (rq_next_chunk_size r) < 2 ^ 63"
      using assms(1,2) by (auto simp: read_chunk_size_def chunked_wf_def)
    then show ?thesis using that [of "nat (rq_next_chunk_size r)"] by simp
  qed
  have "ptrdiff_to_size (to_ptrdiff n) = n" by (rule ptrdiff_to_size_to_ptrdiff [OF n])
  then have "to_ptrdiff n = int n" using assms(3) r1 by (metis to_ptrdiff_small)
  then show ?thesis using r1 \<open>ptrdiff_to_size (to_ptrdiff n) = n\<close> by simp
qed

lemma chunk_loop_wf:
  "chunk_loop r = Inr (ok, r') \<Longrightarrow> chunked_wf r \<Longrightarrow>
     chunked_wf r' \<and> length (rq_body r') \<le> rq_max_body_size_limit r'"
proof (induction rule: chunk_loop_rounds)
  case (size r)
  then show ?case by (simp add: chunked_wf_def)
next
  case (final r r1 r2)
  have "same_head r1 r2" "rq_body r2 = rq_body r1" using ValidateFinalCRLF_frame [OF final(3)] by simp_all
  with final read_chunk_size_frame [OF final(1)] show ?case
    by (auto simp: chunked_wf_def same_head_def)
next
  case (wait r r1)
  note f = read_chunk_size_frame [OF wait(1)]
  show ?case
  proof (cases "rq_next_chunk_size r1 = 0")
    case True
    with wait f show ?thesis by (auto simp: chunked_wf_def same_head_def)
  next
    case False
    then have fits: "length (rq_body r1) + ptrdiff_to_size (rq_next_chunk_size r1) \<le> rq_max_body_size_limit r1"
      using wait(2) AppendChunkData_frame(4) by blast
    then have "ptrdiff_to_size (rq_next_chunk_size r1) < 2 ^ 63"
      using wait(3) f(1) by (simp add: chunked_wf_def same_head_def)
    with fits read_chunk_size_next [OF wait(1,3)] wait(3) f show ?thesis
      by (auto simp: chunked_wf_def same_head_def)
  qed
next
  case (chunk r r1 r2 pos)
  have "same_head r r2"
    using same_head_trans read_chunk_size_frame(1) [OF chunk(1)] AppendChunkData_frame(1) [OF chunk(3)] by blast
  moreover have "same_head r r1" by (rule read_chunk_size_frame(1) [OF chunk(1)])
  ultimately have "chunked_wf (r2\<lparr>sp_read_pos := pos, rq_next_chunk_size := -1\<rparr>)"
    using chunk(5,7) AppendChunkData_frame(2,7) [OF chunk(3)] by (simp add: chunked_wf_def same_head_def)
  then show ?case by (rule chunk.IH)
qed

text \<open>An unfinished run goes on from where it stopped.\<close>

lemma chunk_loop_step_append:
  assumes "read_chunk_size r = Inr (True, r1)" and "read_chunk_size r1 = Inr (True, r1)"
  shows "chunk_loop (append_data d r) = chunk_loop (append_data d r1)"
  using read_chunk_size_append [OF assms(1), of d] read_chunk_size_append [OF assms(2), of d]
  by (simp add: chunk_loop.simps [of "append_data d r"] chunk_loop.simps [of "append_data d r1"])

lemma chunk_loop_resume:
  "chunk_loop r = Inr (ok, r') \<Longrightarrow> chunked_wf r \<Longrightarrow> \<not> ok \<Longrightarrow>
     chunk_loop (append_data d r) = chunk_loop (append_data d r')"
proof (induction rule: chunk_loop_rounds)
  case (wait r r1)
  have "rq_next_chunk_size r1 \<noteq> -1"
  proof (cases "rq_next_chunk_size r1 = 0")
    case False
    then have "length (rq_body r1) + ptrdiff_to_size (rq_next_chunk_size r1) \<le> rq_max_body_size_limit r1"
      using wait(2) AppendChunkData_frame(4) by blast
    then have "ptrdiff_to_size (rq_next_chunk_size r1) < 2 ^ 63"
      using wait(3) read_chunk_size_frame(1) [OF wait(1)] by (simp add: chunked_wf_def same_head_def)
    with read_chunk_size_next [OF wait(1,3)] show ?thesis by auto
  qed simp
  then have "read_chunk_size r1 = Inr (True, r1)" by (simp add: read_chunk_size_def)
  with wait(1) show ?case by (rule chunk_loop_step_append)
next
  case (chunk r r1 r2 pos)
  let ?r3 = "r2\<lparr>sp_read_pos := pos, rq_next_chunk_size := -1\<rparr>"
  have "same_head r r2" "same_head r r1"
    using same_head_trans read_chunk_size_frame(1) [OF chunk(1)] AppendChunkData_frame(1) [OF chunk(3)] by blast+
  then have "chunked_wf ?r3"
    using chunk(5,7) AppendChunkData_frame(2,7) [OF chunk(3)] by (simp add: chunked_wf_def same_head_def)
  then have "chunk_loop (append_data d ?r3) = chunk_loop (append_data d r')" using chunk.IH chunk(8) by blast
  moreover have "chunk_loop (append_data d r) = chunk_loop (append_data d ?r3)"
    using read_chunk_size_append [OF chunk(1), of d] AppendChunkData_append [OF chunk(3), of d] chunk(2)
    by (subst chunk_loop.simps) simp
  ultimately show ?case by simp
qed simp_all

subsection \<open>\<open>AdvanceBody\<close>\<close>

lemma AdvanceBody_chunked:
  "rq_content_length r < 0 \<Longrightarrow> AdvanceBody r = rethrow_as_500 (AdvanceChunkedBody r)"
  by (simp add: AdvanceBody_def)

lemma AdvanceBody_fixed:
  assumes "head_ok r" and "0 \<le> rq_content_length r"
  shows "AdvanceBody r =
     (let need = nat (rq_content_length r)
      in if need = 0 then Inr (True, r\<lparr>sp_state := kDone\<rparr>)
         else if length (sp_buffer r) < need then Inr (False, r)
         else Inr (True, r\<lparr>rq_body := take need (sp_buffer r),
                           sp_buffer := drop need (sp_buffer r), sp_state := kDone\<rparr>))"
proof -
  have "nat (rq_content_length r) \<le> rq_max_body_size_limit r"
    using assms by (auto simp: head_ok_def framing_ok_def Let_def)
  then show ?thesis using assms(2)
    by (auto simp: AdvanceBody_def AdvanceContentLengthBody_def Let_def)
qed

lemma AdvanceBody_same_head: "AdvanceBody r = Inr (ok, r') \<Longrightarrow> same_head r r'"
  by (auto simp: AdvanceBody_def AdvanceContentLengthBody_def AdvanceChunkedBody_def Let_def
      chunk_loop_same_head split: if_splits)

lemma AdvanceBody_state:
  assumes "AdvanceBody r = Inr (ok, r')"
  shows "sp_state r' = (if ok then kDone else sp_state r)" and "\<not> ok \<Longrightarrow> sp_buffer r' = sp_buffer r"
  using assms chunk_loop_unfinished [of r ok r']
  by (auto simp: AdvanceBody_def AdvanceContentLengthBody_def AdvanceChunkedBody_def Let_def split: if_splits)

lemma chunked_wf_pending:
  "request_wf r \<Longrightarrow> sp_state r = kBody \<Longrightarrow> rq_content_length r < 0 \<Longrightarrow> chunked_wf r"
  by (simp add: request_wf_def pending_ok_def chunked_wf_def)

lemma AdvanceBody_wf:
  assumes "request_wf r" and "sp_state r = kBody" and "AdvanceBody r = Inr (ok, r')"
  shows "request_wf r'"
proof -
  have head: "head_ok r" and pend: "pending_ok r" using assms(1,2) by (simp_all add: request_wf_def)
  have same: "same_head r r'" by (rule AdvanceBody_same_head [OF assms(3)])
  note st = AdvanceBody_state(1) [OF assms(3)]
  have head': "head_ok r'" using head same_head_ok [OF same] by simp
  have rest: "rq_max_body_size_limit r' < 2 ^ 63 \<and> map_wf (rq_headers r') \<and>
      (\<forall>k. map_has (rq_headers r') k \<longrightarrow> ToLowerAscii k = k)"
    using assms(1) same by (simp add: request_wf_def same_head_def)
  show ?thesis
  proof (cases "0 \<le> rq_content_length r")
    case True
    have lim: "nat (rq_content_length r) \<le> rq_max_body_size_limit r"
      using head True by (auto simp: head_ok_def framing_ok_def Let_def)
    show ?thesis
    proof (cases ok)
      case True
      then have "int (length (rq_body r')) = rq_content_length r"
        using assms(3) AdvanceBody_fixed [OF head \<open>0 \<le> rq_content_length r\<close>] pend \<open>0 \<le> rq_content_length r\<close>
        by (auto simp: Let_def pending_ok_def split: if_splits)
      with lim True st rest head' same show ?thesis by (auto simp: request_wf_def same_head_def)
    next
      case False
      then have "r' = r"
        using assms(3) AdvanceBody_fixed [OF head \<open>0 \<le> rq_content_length r\<close>] by (auto simp: Let_def split: if_splits)
      with assms(1) show ?thesis by simp
    qed
  next
    case False
    then have c: "AdvanceChunkedBody r = Inr (ok, r')" using assms(3) by (simp add: AdvanceBody_chunked)
    have w: "chunked_wf r" using chunked_wf_pending assms(1,2) False by simp
    have "chunked_wf r' \<and> length (rq_body r') \<le> rq_max_body_size_limit r'"
      using c chunk_loop_wf [OF _ w, of ok r'] w
      by (auto simp: AdvanceChunkedBody_def chunked_wf_def split: if_splits)
    then show ?thesis using False st rest head' same assms(2)
      by (auto simp: request_wf_def pending_ok_def chunked_wf_def same_head_def)
  qed
qed

lemma AdvanceBody_resume:
  assumes "request_wf r" and "sp_state r = kBody" and "AdvanceBody r = Inr (False, r')"
  shows "AdvanceBody (append_data d r) = AdvanceBody (append_data d r')"
proof (cases "0 \<le> rq_content_length r")
  case True
  then have "r' = r"
    using assms AdvanceBody_fixed [of r] by (auto simp: Let_def request_wf_def split: if_splits)
  then show ?thesis by simp
next
  case False
  then have c: "AdvanceChunkedBody r = Inr (False, r')" using assms(3) by (simp add: AdvanceBody_chunked)
  have w: "chunked_wf r" using chunked_wf_pending assms(1,2) False by simp
  have "AdvanceChunkedBody (append_data d r) = AdvanceChunkedBody (append_data d r')"
  proof (cases "sp_read_pos r = length (sp_buffer r)")
    case True
    then show ?thesis using c by (simp add: AdvanceChunkedBody_def)
  next
    case False
    then have l: "chunk_loop r = Inr (False, r')" and p: "sp_read_pos r < length (sp_buffer r)"
      using c by (auto simp: AdvanceChunkedBody_def split: if_splits)
    have res: "chunk_loop (append_data x r) = chunk_loop (append_data x r')" for x
      using chunk_loop_resume [OF l w] by simp
    have w': "chunked_wf r'" using chunk_loop_wf [OF l w] by simp
    show ?thesis
    proof (cases "sp_read_pos r' = length (sp_buffer r' @ d)")
      case True
      then have "d = []" using w' by (auto simp: chunked_wf_def)
      then show ?thesis using True res [of "[]"] l p by (simp add: AdvanceChunkedBody_def)
    next
      case False
      then show ?thesis using res [of d] p w' by (auto simp: AdvanceChunkedBody_def chunked_wf_def)
    qed
  qed
  moreover have "rq_content_length r' = rq_content_length r"
    using AdvanceBody_same_head [OF assms(3)] by (simp add: same_head_def)
  ultimately show ?thesis using False by (simp add: AdvanceBody_chunked)
qed

lemma request_wf_append: "request_wf r \<Longrightarrow> sp_state r \<noteq> kDone \<Longrightarrow> request_wf (append_data d r)"
  by (cases "sp_state r")
     (auto simp: request_wf_def pending_ok_def same_head_ok [of r "append_data d r"])

subsection \<open>The contracts hold\<close>

interpretation request_parser: stream_parser AdvanceHeader AdvanceBody OnInternalStateError OnExtraDataAfterDone
  by unfold_locales
     (auto simp: AdvanceBody_state AdvanceHeader_True dest: AdvanceHeader_False)

interpretation request_stream: incremental_parser AdvanceHeader AdvanceBody OnInternalStateError
    OnExtraDataAfterDone request_wf
  by unfold_locales
     (blast intro: AdvanceHeader_append AdvanceBody_resume request_wf_append AdvanceHeader_wf(1) AdvanceBody_wf
      | simp add: OnExtraDataAfterDone_def)+

subsection \<open>The requests the parser accepts\<close>

text \<open>
  A specification of the messages without the parser: the header fields as a finite map, the two
  parts of a host field, the connection option and the three framings of a body.
\<close>

definition header_of :: "(string \<times> string) list \<Rightarrow> string \<Rightarrow> string option" where
  "header_of kvs = map_of (map (\<lambda>(k, v). (ToLowerAscii k, v)) kvs)"

definition distinct_names :: "(string \<times> string) list \<Rightarrow> bool" where
  "distinct_names kvs \<longleftrightarrow> distinct (map (\<lambda>kv. ToLowerAscii (fst kv)) kvs)"

definition host_parts :: "string \<Rightarrow> string \<Rightarrow> 16 word \<Rightarrow> bool" where
  "host_parts v name port \<longleftrightarrow> name \<noteq> [] \<and> CHR '':'' \<notin> set name \<and>
     (v = name \<and> port = kDefaultPort \<or>
      (\<exists>p. v = name @ '':'' @ p \<and> StrToUnsignedShort p = Some port))"

definition connection_option :: "string option \<Rightarrow> string \<Rightarrow> bool \<Rightarrow> bool" where
  "connection_option field version keep \<longleftrightarrow>
     (case field of
        None \<Rightarrow> keep = (version = ''HTTP/1.1'')
      | Some v \<Rightarrow> v = (if keep then ''keep-alive'' else ''close''))"

text \<open>The value of \<open>content_length_\<close> that the two framing fields give.\<close>

definition framing :: "string option \<Rightarrow> string option \<Rightarrow> nat \<Rightarrow> int \<Rightarrow> bool" where
  "framing cl te limit n \<longleftrightarrow>
     (case (cl, te) of
        (None, None) \<Rightarrow> n = 0
      | (Some s, None) \<Rightarrow> StrToLong s = Some n \<and> 0 \<le> n \<and> nat n \<le> kMaxPayloadSize \<and> nat n \<le> limit
      | (None, Some t) \<Rightarrow> t = ''chunked'' \<and> n = -1
      | (Some _, Some _) \<Rightarrow> False)"

text \<open>The bytes of a body: as they are, or in chunks, with nothing behind the last one.\<close>

definition body_bytes :: "int \<Rightarrow> nat \<Rightarrow> string \<Rightarrow> string \<Rightarrow> string \<Rightarrow> bool" where
  "body_bytes n limit body bytes rest \<longleftrightarrow>
     (if 0 \<le> n then bytes = body \<and> int (length body) = n
      else rest = [] \<and> (\<exists>cs h. bytes = chunks_text cs h \<and> (\<forall>c\<in>set cs. valid_chunk c) \<and> size_text h 0 \<and>
        body = chunks_data cs \<and> length body \<le> limit))"

definition fresh_request :: "nat \<Rightarrow> string \<Rightarrow> http_request" where
  "fresh_request limit ip = SetMaxBodySizeLimit limit (SetClientIp ip HttpRequest_init)"

lemma fresh_request_sel [simp]:
  "sp_buffer (fresh_request limit ip) = []" "sp_state (fresh_request limit ip) = kHeader"
  "sp_read_pos (fresh_request limit ip) = 0" "rq_headers (fresh_request limit ip) = []"
  "rq_body (fresh_request limit ip) = []" "rq_next_chunk_size (fresh_request limit ip) = -1"
  "rq_max_body_size_limit (fresh_request limit ip) = limit"
  by (simp_all add: fresh_request_def SetMaxBodySizeLimit_def SetClientIp_def HttpRequest_init_def)

lemma fresh_request_wf: "limit < 2 ^ 63 \<Longrightarrow> request_wf (fresh_request limit ip)"
  by (simp add: request_wf_def)

lemma split_first_unique:
  "x \<notin> set u \<Longrightarrow> x \<notin> set w \<Longrightarrow> u @ x # p = w @ x # q \<longleftrightarrow> u = w \<and> p = q"
proof (induction u arbitrary: w)
  case Nil
  then show ?case by (cases w) auto
next
  case (Cons c u)
  then show ?case by (cases w) auto
qed

lemma takeWhile_until: "x \<notin> set u \<Longrightarrow> takeWhile (\<lambda>c. c \<noteq> x) (u @ x # p) = u"
  by (induction u) auto

lemma takeWhile_all: "x \<notin> set u \<Longrightarrow> takeWhile (\<lambda>c. c \<noteq> x) u = u"
  by (induction u) auto

lemma host_parts_no_colon:
  "CHR '':'' \<notin> set v \<Longrightarrow> host_parts v name port \<longleftrightarrow> name = v \<and> v \<noteq> [] \<and> port = kDefaultPort"
  by (auto simp: host_parts_def)

lemma host_parts_colon:
  assumes "CHR '':'' \<notin> set u"
  shows "host_parts (u @ CHR '':'' # p) name port \<longleftrightarrow> name = u \<and> u \<noteq> [] \<and> StrToUnsignedShort p = Some port"
proof (cases "CHR '':'' \<in> set name")
  case False
  then have "(\<exists>q. u @ CHR '':'' # p = name @ CHR '':'' # q \<and> StrToUnsignedShort q = Some port) \<longleftrightarrow>
      u = name \<and> StrToUnsignedShort p = Some port"
    using split_first_unique [OF assms False] by blast
  with False show ?thesis by (auto simp: host_parts_def)
qed (use assms in \<open>auto simp: host_parts_def\<close>)

lemma ValidateAndExtractHost_Inr:
  "ValidateAndExtractHost r = Inr r' \<longleftrightarrow>
     (\<exists>v name port. map_get (rq_headers r) ''host'' = Some v \<and> host_parts v name port \<and>
        r\<lparr>rq_host_name := name, rq_host_port := port\<rparr> = r')"
proof (cases "map_get (rq_headers r) ''host''")
  case (Some v)
  show ?thesis
  proof (cases "CHR '':'' \<in> set v")
    case True
    then obtain u p where v: "v = u @ CHR '':'' # p" and u: "CHR '':'' \<notin> set u"
      by (blast dest: split_list_first)
    have "ValidateAndExtractHost r = (if u = [] then throw_status kBadRequest
        else and_then (Optional_Value (StrToUnsignedShort p))
          (\<lambda>port. Inr (r\<lparr>rq_host_name := u, rq_host_port := port\<rparr>)))"
      by (simp add: ValidateAndExtractHost_def Some v Let_def substr_def takeWhile_until [OF u])
    then have "ValidateAndExtractHost r = Inr r' \<longleftrightarrow> u \<noteq> [] \<and>
        (\<exists>port. StrToUnsignedShort p = Some port \<and> r\<lparr>rq_host_name := u, rq_host_port := port\<rparr> = r')"
      by (cases "StrToUnsignedShort p") simp_all
    then show ?thesis by (simp add: Some v host_parts_colon [OF u])
  next
    case False
    have "ValidateAndExtractHost r = Inr r' \<longleftrightarrow>
        v \<noteq> [] \<and> r\<lparr>rq_host_name := v, rq_host_port := kDefaultPort\<rparr> = r'"
      by (simp add: ValidateAndExtractHost_def Some Let_def substr_def takeWhile_all [OF False])
    then show ?thesis by (simp add: Some host_parts_no_colon [OF False])
  qed
qed (simp add: ValidateAndExtractHost_def)

lemma ParseContentLength_Inr:
  "ParseContentLength r s = Inr r' \<longleftrightarrow>
     (\<exists>n. StrToLong s = Some n \<and> 0 \<le> n \<and> nat n \<le> kMaxPayloadSize \<and> r\<lparr>rq_content_length := n\<rparr> = r')"
  by (cases "StrToLong s") (auto simp: ParseContentLength_def)

lemma ValidateBodyHeaders_Inr:
  "ValidateBodyHeaders r = Inr r' \<longleftrightarrow>
     (\<exists>n. framing (map_get (rq_headers r) ''content-length'') (map_get (rq_headers r) ''transfer-encoding'')
        (rq_max_body_size_limit r) n \<and> r\<lparr>rq_content_length := n\<rparr> = r')"
proof (cases "map_get (rq_headers r) ''content-length''")
  case None
  then show ?thesis
    by (cases "map_get (rq_headers r) ''transfer-encoding''")
       (simp_all add: ValidateBodyHeaders_def framing_def ParseTransferEncoding_def Let_def)
next
  case (Some s)
  show ?thesis
  proof (cases "map_get (rq_headers r) ''transfer-encoding''")
    case None
    have "ValidateBodyHeaders r = Inr r' \<longleftrightarrow> ParseContentLength r s = Inr r' \<and>
        (rq_content_length r' < 0 \<or> nat (rq_content_length r') \<le> rq_max_body_size_limit r')"
      using Some None by (cases "ParseContentLength r s") (auto simp: ValidateBodyHeaders_def Let_def)
    also have "\<dots> \<longleftrightarrow> (\<exists>n. StrToLong s = Some n \<and> 0 \<le> n \<and> nat n \<le> kMaxPayloadSize \<and>
        nat n \<le> rq_max_body_size_limit r \<and> r\<lparr>rq_content_length := n\<rparr> = r')" (is "?l \<longleftrightarrow> ?r")
    proof
      assume ?l
      then obtain n where n: "StrToLong s = Some n" "0 \<le> n" "nat n \<le> kMaxPayloadSize"
          and r': "r\<lparr>rq_content_length := n\<rparr> = r'"
        unfolding ParseContentLength_Inr by blast
      then have "nat n \<le> rq_max_body_size_limit r" using \<open>?l\<close> by auto
      with n r' show ?r by blast
    next
      assume ?r
      then obtain n where n: "StrToLong s = Some n" "0 \<le> n" "nat n \<le> kMaxPayloadSize"
          "nat n \<le> rq_max_body_size_limit r" and r': "r\<lparr>rq_content_length := n\<rparr> = r'" by blast
      then show ?l unfolding ParseContentLength_Inr by auto
    qed
    finally show ?thesis by (simp add: framing_def Some None)
  qed (use Some in \<open>simp add: ValidateBodyHeaders_def framing_def Let_def\<close>)
qed

lemma connection_option_simps:
  "connection_option None version k \<longleftrightarrow> k = (version = ''HTTP/1.1'')"
  "connection_option (Some v) version k \<longleftrightarrow> k \<and> v = ''keep-alive'' \<or> \<not> k \<and> v = ''close''"
  by (simp_all add: connection_option_def)

lemma ParseConnectionDirective_Inr:
  "ParseConnectionDirective r = Inr r' \<longleftrightarrow>
     (\<exists>k. connection_option (map_get (rq_headers r) ''connection'') (rq_version r) k \<and>
        r\<lparr>rq_keep_alive := k\<rparr> = r')"
proof (cases "map_get (rq_headers r) ''connection''")
  case None
  then show ?thesis by (simp add: ParseConnectionDirective_def connection_option_simps)
next
  case (Some v)
  then have "ParseConnectionDirective r =
     (if v = ''close'' then Inr (r\<lparr>rq_keep_alive := False\<rparr>)
      else if v = ''keep-alive'' then Inr (r\<lparr>rq_keep_alive := True\<rparr>)
      else throw_status kBadRequest)" by (simp add: ParseConnectionDirective_def)
  then show ?thesis unfolding Some connection_option_simps ex_bool_eq
    by (cases "v = ''close''"; cases "v = ''keep-alive''") simp_all
qed

lemma finish_headers_Inr:
  "finish_headers r = Inr r' \<longleftrightarrow>
     (\<exists>v name port n k. map_get (rq_headers r) ''host'' = Some v \<and> host_parts v name port \<and>
        framing (map_get (rq_headers r) ''content-length'') (map_get (rq_headers r) ''transfer-encoding'')
          (rq_max_body_size_limit r) n \<and>
        connection_option (map_get (rq_headers r) ''connection'') (rq_version r) k \<and>
        r\<lparr>rq_host_name := name, rq_host_port := port, rq_content_length := n, rq_keep_alive := k\<rparr> = r')"
  (is "?l \<longleftrightarrow> ?r")
proof
  assume ?l
  then obtain r2 r3 where h: "ValidateAndExtractHost r = Inr r2" "ValidateBodyHeaders r2 = Inr r3"
      "ParseConnectionDirective r3 = Inr r'"
    by (auto simp: finish_headers_def and_then_Inr_iff)
  from h(1) obtain v name port where "map_get (rq_headers r) ''host'' = Some v" "host_parts v name port"
      and r2: "r\<lparr>rq_host_name := name, rq_host_port := port\<rparr> = r2"
    unfolding ValidateAndExtractHost_Inr by blast
  moreover from h(2) obtain n where "framing (map_get (rq_headers r2) ''content-length'')
      (map_get (rq_headers r2) ''transfer-encoding'') (rq_max_body_size_limit r2) n"
      and r3: "r2\<lparr>rq_content_length := n\<rparr> = r3"
    unfolding ValidateBodyHeaders_Inr by blast
  moreover from h(3) obtain k where "connection_option (map_get (rq_headers r3) ''connection'') (rq_version r3) k"
      and "r3\<lparr>rq_keep_alive := k\<rparr> = r'"
    unfolding ParseConnectionDirective_Inr by blast
  ultimately show ?r unfolding r2 [symmetric] r3 [symmetric]
    by (intro exI [of _ v] exI [of _ name] exI [of _ port] exI [of _ n] exI [of _ k]) simp
next
  assume ?r
  then obtain v name port n k where h: "map_get (rq_headers r) ''host'' = Some v" "host_parts v name port"
      "framing (map_get (rq_headers r) ''content-length'') (map_get (rq_headers r) ''transfer-encoding'')
          (rq_max_body_size_limit r) n"
      "connection_option (map_get (rq_headers r) ''connection'') (rq_version r) k"
    and r': "r\<lparr>rq_host_name := name, rq_host_port := port, rq_content_length := n, rq_keep_alive := k\<rparr> = r'"
    by blast
  have "ValidateAndExtractHost r = Inr (r\<lparr>rq_host_name := name, rq_host_port := port\<rparr>)"
    unfolding ValidateAndExtractHost_Inr using h by blast
  moreover have "ValidateBodyHeaders (r\<lparr>rq_host_name := name, rq_host_port := port\<rparr>) =
      Inr (r\<lparr>rq_host_name := name, rq_host_port := port, rq_content_length := n\<rparr>)"
    unfolding ValidateBodyHeaders_Inr using h by auto
  moreover have "ParseConnectionDirective (r\<lparr>rq_host_name := name, rq_host_port := port, rq_content_length := n\<rparr>) =
      Inr r'"
    unfolding ParseConnectionDirective_Inr using h r' by auto
  ultimately show ?l by (simp add: finish_headers_def)
qed

text \<open>\<open>AdvanceBody\<close> right after the head.\<close>

definition body_start :: "http_request \<Rightarrow> bool" where
  "body_start r \<longleftrightarrow> sp_read_pos r = 0 \<and> rq_body r = [] \<and> rq_next_chunk_size r = -1 \<and>
     rq_max_body_size_limit r < 2 ^ 63"

definition with_body :: "string \<Rightarrow> string \<Rightarrow> http_request \<Rightarrow> http_request" where
  "with_body body rest r = r\<lparr>sp_buffer := rest, sp_read_pos := 0, sp_state := kDone,
     rq_body := body, rq_next_chunk_size := -1\<rparr>"

lemma with_body_chunked: "body_start r \<Longrightarrow> finish_chunked d r = with_body d [] r"
  by (simp add: body_start_def finish_chunked_def with_body_def)

lemma with_body_fixed:
  "body_start r \<Longrightarrow> r\<lparr>rq_body := b, sp_buffer := rest, sp_state := kDone\<rparr> = with_body b rest r"
  "body_start r \<Longrightarrow> r\<lparr>sp_state := kDone\<rparr> = with_body [] (sp_buffer r) r"
  by (auto simp: body_start_def with_body_def intro!: http_request.equality)

lemma AdvanceBody_fixed_True:
  assumes "head_ok r" and "body_start r" and "0 \<le> rq_content_length r"
  shows "AdvanceBody r = Inr (True, r') \<longleftrightarrow>
     (let need = nat (rq_content_length r)
      in need \<le> length (sp_buffer r) \<and> with_body (take need (sp_buffer r)) (drop need (sp_buffer r)) r = r')"
proof (cases "nat (rq_content_length r) = 0")
  case True
  then show ?thesis
    using AdvanceBody_fixed [OF assms(1,3)] with_body_fixed(2) [OF assms(2)] by (simp add: Let_def)
next
  case False
  then show ?thesis
    using AdvanceBody_fixed [OF assms(1,3)] with_body_fixed(1) [OF assms(2)] by (simp add: Let_def not_less)
qed

lemma AdvanceBody_chunked_True:
  assumes "body_start r" and "rq_content_length r < 0"
  shows "AdvanceBody r = Inr (True, r') \<longleftrightarrow>
     (\<exists>cs h. sp_buffer r = chunks_text cs h \<and> (\<forall>c\<in>set cs. valid_chunk c) \<and> size_text h 0 \<and>
        length (chunks_data cs) \<le> rq_max_body_size_limit r \<and> with_body (chunks_data cs) [] r = r')"
proof -
  have "AdvanceBody r = Inr (True, r') \<longleftrightarrow> sp_buffer r \<noteq> [] \<and> chunk_loop r = Inr (True, r')"
    using assms by (simp add: AdvanceBody_chunked AdvanceChunkedBody_def body_start_def)
  moreover have "chunk_loop r = Inr (True, r') \<longleftrightarrow>
     (\<exists>cs h. sp_buffer r = chunks_text cs h \<and> (\<forall>c\<in>set cs. valid_chunk c) \<and> size_text h 0 \<and>
        length (chunks_data cs) \<le> rq_max_body_size_limit r \<and> r' = with_body (chunks_data cs) [] r)"
    using chunk_loop_True [of r r'] assms(1) with_body_chunked [OF assms(1)]
    by (simp add: at_chunk_def body_start_def)
  moreover have "chunks_text cs h \<noteq> []" for cs h by (simp add: chunks_text_def)
  ultimately show ?thesis by metis
qed

lemma AdvanceBody_True:
  assumes "head_ok r" and "body_start r"
  shows "AdvanceBody r = Inr (True, r') \<longleftrightarrow>
     (\<exists>body bytes rest. body_bytes (rq_content_length r) (rq_max_body_size_limit r) body bytes rest \<and>
        sp_buffer r = bytes @ rest \<and> with_body body rest r = r')"
  (is "_ \<longleftrightarrow> ?r")
proof (cases "0 \<le> rq_content_length r")
  case True
  let ?n = "nat (rq_content_length r)"
  have "?r \<longleftrightarrow> (\<exists>body rest. length body = ?n \<and> sp_buffer r = body @ rest \<and> with_body body rest r = r')"
  proof -
    have "int (length body) = rq_content_length r \<longleftrightarrow> length body = ?n" for body :: string
      using True by auto
    then show ?thesis using True by (simp add: body_bytes_def)
  qed
  also have "\<dots> \<longleftrightarrow> ?n \<le> length (sp_buffer r) \<and>
      with_body (take ?n (sp_buffer r)) (drop ?n (sp_buffer r)) r = r'"
    by (metis append_eq_conv_conj append_take_drop_id le_add1 length_append length_take min.absorb2)
  finally show ?thesis using AdvanceBody_fixed_True [OF assms True] by (simp add: Let_def)
next
  case False
  then have neg: "rq_content_length r < 0" by simp
  have "?r \<longleftrightarrow> (\<exists>cs h. sp_buffer r = chunks_text cs h \<and> (\<forall>c\<in>set cs. valid_chunk c) \<and> size_text h 0 \<and>
      length (chunks_data cs) \<le> rq_max_body_size_limit r \<and> with_body (chunks_data cs) [] r = r')"
    using False by (simp add: body_bytes_def) (metis append_Nil2)
  then show ?thesis using AdvanceBody_chunked_True [OF assms(2) neg] by simp
qed

text \<open>A request, as its parts and the bytes they come from.\<close>

definition request_bytes ::
  "nat \<Rightarrow> http_method \<Rightarrow> string \<Rightarrow> string option \<Rightarrow> string \<Rightarrow> (string \<times> string) list \<Rightarrow>
   string \<Rightarrow> 16 word \<Rightarrow> int \<Rightarrow> bool \<Rightarrow> string \<Rightarrow> string \<Rightarrow> string \<Rightarrow> bool" where
  "request_bytes limit m path query v kvs name port n keep body rest data \<longleftrightarrow>
     valid_head m path query v kvs \<and> distinct_names kvs \<and>
     (\<exists>host. header_of kvs ''host'' = Some host \<and> host_parts host name port) \<and>
     framing (header_of kvs ''content-length'') (header_of kvs ''transfer-encoding'') limit n \<and>
     connection_option (header_of kvs ''connection'') v keep \<and>
     (\<exists>bytes. body_bytes n limit body bytes rest \<and> data = head_text m path query v kvs @ bytes @ rest)"

definition the_request ::
  "nat \<Rightarrow> string \<Rightarrow> http_method \<Rightarrow> string \<Rightarrow> string option \<Rightarrow> string \<Rightarrow> (string \<times> string) list \<Rightarrow>
   string \<Rightarrow> 16 word \<Rightarrow> int \<Rightarrow> bool \<Rightarrow> string \<Rightarrow> string \<Rightarrow> http_request" where
  "the_request limit ip m path query v kvs name port n keep body rest =
     \<lparr>sp_buffer = rest, sp_read_pos = 0, sp_state = kDone, rq_method = m, rq_uri = path,
      rq_query_string = (case query of None \<Rightarrow> [] | Some q \<Rightarrow> q), rq_host_name = name,
      rq_host_port = port, rq_version = v, rq_headers = put_headers kvs [], rq_body = body,
      rq_content_length = n, rq_next_chunk_size = -1, rq_keep_alive = keep, rq_client_ip = ip,
      rq_max_body_size_limit = limit\<rparr>"

definition the_head ::
  "nat \<Rightarrow> string \<Rightarrow> http_method \<Rightarrow> string \<Rightarrow> string option \<Rightarrow> string \<Rightarrow> (string \<times> string) list \<Rightarrow>
   string \<Rightarrow> 16 word \<Rightarrow> int \<Rightarrow> bool \<Rightarrow> string \<Rightarrow> http_request" where
  "the_head limit ip m path query v kvs name port n keep rest =
     (the_request limit ip m path query v kvs name port n keep [] rest)\<lparr>sp_state := kBody\<rparr>"

lemma the_head_eq:
  "((store_line m path query v (append_data data (fresh_request limit ip)))
      \<lparr>rq_headers := put_headers kvs [], rq_host_name := name, rq_host_port := port,
       rq_content_length := n, rq_keep_alive := keep\<rparr>)\<lparr>sp_buffer := q, sp_state := kBody\<rparr> =
   the_head limit ip m path query v kvs name port n keep q"
  by (cases query)
     (simp_all add: the_head_def the_request_def store_line_def append_data_def fresh_request_def
      SetMaxBodySizeLimit_def SetClientIp_def HttpRequest_init_def)

lemma put_headers_header_of:
  "distinct_names kvs \<Longrightarrow> map_get (put_headers kvs []) k = header_of kvs k"
  by (simp add: distinct_names_def header_of_def put_headers_get_distinct)

lemma AdvanceHeader_fresh:
  "AdvanceHeader (append_data data (fresh_request limit ip)) = Inr (True, r1) \<longleftrightarrow>
     (\<exists>m path query v kvs host name port n keep q.
        valid_head m path query v kvs \<and> distinct_names kvs \<and> data = head_text m path query v kvs @ q \<and>
        header_of kvs ''host'' = Some host \<and> host_parts host name port \<and>
        framing (header_of kvs ''content-length'') (header_of kvs ''transfer-encoding'') limit n \<and>
        connection_option (header_of kvs ''connection'') v keep \<and>
        the_head limit ip m path query v kvs name port n keep q = r1)"
  (is "AdvanceHeader ?s = _ \<longleftrightarrow> ?r")
proof
  assume "AdvanceHeader ?s = Inr (True, r1)"
  then obtain m path query v kvs q ra rb where h: "valid_head m path query v kvs"
      "data = head_text m path query v kvs @ q"
    and s: "store_headers (store_line m path query v ?s) kvs = Inr ra" and f: "finish_headers ra = Inr rb"
    and r1: "r1 = rb\<lparr>sp_buffer := q, sp_state := kBody\<rparr>"
    unfolding AdvanceHeader_True by auto
  from s have d: "distinct_names kvs"
      and ra: "ra = (store_line m path query v ?s)\<lparr>rq_headers := put_headers kvs []\<rparr>"
    by (auto simp: store_headers_Inr distinct_names_def)
  have ver: "rq_version ra = v" by (simp add: ra store_line_def)
  from f obtain host name port n keep where p: "header_of kvs ''host'' = Some host" "host_parts host name port"
      "framing (header_of kvs ''content-length'') (header_of kvs ''transfer-encoding'') limit n"
      "connection_option (header_of kvs ''connection'') v keep"
    and rb: "ra\<lparr>rq_host_name := name, rq_host_port := port, rq_content_length := n, rq_keep_alive := keep\<rparr> = rb"
    unfolding finish_headers_Inr ver by (auto simp: ra put_headers_header_of [OF d])
  have "the_head limit ip m path query v kvs name port n keep q = r1"
    unfolding r1 rb [symmetric] ra by (rule the_head_eq [symmetric])
  with h d p show ?r by blast
next
  assume ?r
  then obtain m path query v kvs host name port n keep q where h: "valid_head m path query v kvs"
      "data = head_text m path query v kvs @ q" and d: "distinct_names kvs"
    and p: "header_of kvs ''host'' = Some host" "host_parts host name port"
      "framing (header_of kvs ''content-length'') (header_of kvs ''transfer-encoding'') limit n"
      "connection_option (header_of kvs ''connection'') v keep"
    and r1: "the_head limit ip m path query v kvs name port n keep q = r1" by blast
  let ?ra = "(store_line m path query v ?s)\<lparr>rq_headers := put_headers kvs []\<rparr>"
  let ?rb = "?ra\<lparr>rq_host_name := name, rq_host_port := port, rq_content_length := n, rq_keep_alive := keep\<rparr>"
  have "store_headers (store_line m path query v ?s) kvs = Inr ?ra"
    using d by (simp add: store_headers_Inr distinct_names_def)
  moreover have ver: "rq_version ?ra = v" by (simp add: store_line_def)
  have "finish_headers ?ra = Inr ?rb"
    unfolding finish_headers_Inr ver
    by (intro exI [of _ host] exI [of _ name] exI [of _ port] exI [of _ n] exI [of _ keep])
       (simp add: p put_headers_header_of [OF d])
  moreover have "r1 = ?rb\<lparr>sp_buffer := q, sp_state := kBody\<rparr>"
    unfolding r1 [symmetric] by (rule the_head_eq [symmetric])
  ultimately show "AdvanceHeader ?s = Inr (True, r1)"
    unfolding AdvanceHeader_True using h
    by (intro exI [of _ m] exI [of _ path] exI [of _ query] exI [of _ v] exI [of _ kvs] exI [of _ q]
        exI [of _ ?ra] exI [of _ ?rb]) simp
qed

lemma HttpRequest_Parse_Done:
  assumes "sp_state r = kHeader"
  shows "HttpRequest_Parse r data = Some (Inr r') \<and> IsDone r' \<longleftrightarrow>
     (\<exists>r1. AdvanceHeader (append_data data r) = Inr (True, r1) \<and> AdvanceBody r1 = Inr (True, r'))"
proof -
  let ?s = "append_data data r"
  have s: "sp_state ?s = kHeader" using assms by simp
  have run: "HttpRequest_Parse r data =
      (case AdvanceHeader ?s of
         Inl e \<Rightarrow> Some (Inl e)
       | Inr (ok, s1) \<Rightarrow> if ok then Some (map_sum id snd (AdvanceBody s1)) else Some (Inr ?s))"
    unfolding HttpRequest_Parse_def Parse_def by (rule request_parser.run_header [OF s])
  show ?thesis
  proof (cases "AdvanceHeader ?s")
    case (Inr x)
    obtain ok s1 where x: "x = (ok, s1)" by (cases x)
    show ?thesis
    proof (cases ok)
      case True
      then have "HttpRequest_Parse r data = Some (Inr r') \<and> IsDone r' \<longleftrightarrow>
          (\<exists>b. AdvanceBody s1 = Inr (b, r')) \<and> IsDone r'"
        using run Inr x by (simp add: map_sum_snd_Inr)
      also have "\<dots> \<longleftrightarrow> AdvanceBody s1 = Inr (True, r')"
      proof -
        have "sp_state s1 = kBody" using Inr x True request_parser.header_done [OF s, of s1] by simp
        then have "AdvanceBody s1 = Inr (b, r') \<Longrightarrow> IsDone r' \<longleftrightarrow> b" for b
          using AdvanceBody_state(1) [of s1 b r'] by (simp add: IsDone_def)
        then show ?thesis by metis
      qed
      finally show ?thesis using Inr x True by simp
    qed (use run Inr x s in \<open>auto simp: IsDone_def\<close>)
  qed (use run in simp)
qed

lemma the_head_start:
  assumes "limit < 2 ^ 63"
  shows "body_start (the_head limit ip m path query v kvs name port n keep q)"
  using assms by (simp add: body_start_def the_head_def the_request_def)

lemma the_head_sel [simp]:
  "rq_content_length (the_head limit ip m path query v kvs name port n keep q) = n"
  "rq_max_body_size_limit (the_head limit ip m path query v kvs name port n keep q) = limit"
  "sp_buffer (the_head limit ip m path query v kvs name port n keep q) = q"
  "with_body body rest (the_head limit ip m path query v kvs name port n keep q) =
     the_request limit ip m path query v kvs name port n keep body rest"
  by (simp_all add: the_head_def the_request_def with_body_def)

lemma request_language_lemma:
  assumes "limit < 2 ^ 63"
  shows "HttpRequest_Parse (fresh_request limit ip) data = Some (Inr r) \<and> IsDone r \<longleftrightarrow>
     (\<exists>m path query v kvs name port n keep body rest.
        request_bytes limit m path query v kvs name port n keep body rest data \<and>
        r = the_request limit ip m path query v kvs name port n keep body rest)"
  (is "?l \<longleftrightarrow> ?r")
proof -
  let ?s = "append_data data (fresh_request limit ip)"
  have head: "head_ok r1" if "AdvanceHeader ?s = Inr (True, r1)" for r1
    using AdvanceHeader_wf [of ?s r1] that request_wf_append fresh_request_wf [OF assms]
    by (simp add: request_wf_def)
  have l: "?l \<longleftrightarrow> (\<exists>r1. AdvanceHeader ?s = Inr (True, r1) \<and> AdvanceBody r1 = Inr (True, r))"
    by (rule HttpRequest_Parse_Done) simp
  show ?thesis
  proof
    assume ?l
    then obtain r1 where r1: "AdvanceHeader ?s = Inr (True, r1)" and b: "AdvanceBody r1 = Inr (True, r)"
      using l by blast
    from r1 obtain m path query v kvs host name port n keep q where h: "valid_head m path query v kvs"
        "distinct_names kvs" "data = head_text m path query v kvs @ q"
        "header_of kvs ''host'' = Some host" "host_parts host name port"
        "framing (header_of kvs ''content-length'') (header_of kvs ''transfer-encoding'') limit n"
        "connection_option (header_of kvs ''connection'') v keep"
      and eq: "the_head limit ip m path query v kvs name port n keep q = r1"
      unfolding AdvanceHeader_fresh by blast
    have "body_start r1" using the_head_start [OF assms] eq by blast
    from b [unfolded AdvanceBody_True [OF head [OF r1] this]] obtain body bytes rest where
        body: "body_bytes n limit body bytes rest" "q = bytes @ rest" and "with_body body rest r1 = r"
      by (auto simp: eq [symmetric])
    then have "r = the_request limit ip m path query v kvs name port n keep body rest"
      by (simp add: eq [symmetric])
    moreover have "request_bytes limit m path query v kvs name port n keep body rest data"
      unfolding request_bytes_def using h body by blast
    ultimately show ?r by blast
  next
    assume ?r
    then obtain m path query v kvs name port n keep body rest where
        req: "request_bytes limit m path query v kvs name port n keep body rest data"
        and r: "r = the_request limit ip m path query v kvs name port n keep body rest" by blast
    from req obtain bytes where bytes: "body_bytes n limit body bytes rest"
        "data = head_text m path query v kvs @ bytes @ rest"
      unfolding request_bytes_def by blast
    let ?r1 = "the_head limit ip m path query v kvs name port n keep (bytes @ rest)"
    have r1: "AdvanceHeader ?s = Inr (True, ?r1)"
      unfolding AdvanceHeader_fresh using req bytes unfolding request_bytes_def by blast
    have "AdvanceBody ?r1 = Inr (True, r)"
      unfolding AdvanceBody_True [OF head [OF r1] the_head_start [OF assms]] using bytes r by auto
    with r1 l show ?l by blast
  qed
qed

subsection \<open>Errors\<close>

definition request_statuses :: "status set" where
  "request_statuses = {kBadRequest, kPayloadTooLarge, kUriTooLong, kRequestHeaderFieldsTooLarge,
     kInternalServerError, kNotImplemented}"

lemma rethrow_error:
  "rethrow_as_500 m = Inl e \<Longrightarrow> (\<And>s. m = throw_status s \<Longrightarrow> s \<in> request_statuses) \<Longrightarrow>
     \<exists>s\<in>request_statuses. e = ResponseStatusException s"
  using rethrow_Inl [of m e] by (auto simp: request_statuses_def)

lemma ValidateAndSkipCRLF_error: "ValidateAndSkipCRLF b pos = Inl e \<Longrightarrow> e = ResponseStatusException kBadRequest"
  by (auto simp: ValidateAndSkipCRLF_def split: if_splits)

lemma chunk_size_loop_error: "chunk_size_loop cs n saw pos = Inl e \<Longrightarrow> e = ResponseStatusException kBadRequest"
  by (induction cs n saw pos rule: chunk_size_loop.induct) (auto split: if_splits option.splits)

lemma read_chunk_size_error: "read_chunk_size r = Inl e \<Longrightarrow> e = ResponseStatusException kBadRequest"
  by (auto simp: read_chunk_size_def ParseChunkSize_def and_then_Inl_iff
      dest: chunk_size_loop_error ValidateAndSkipCRLF_error split: if_splits)

lemma AppendChunkData_error:
  "AppendChunkData r pos n = Inl e \<Longrightarrow>
     e = ResponseStatusException kBadRequest \<or> e = ResponseStatusException kPayloadTooLarge"
  by (auto simp: AppendChunkData_def and_then_Inl_iff dest: ValidateAndSkipCRLF_error split: if_splits)

lemma ValidateFinalCRLF_error:
  "ValidateFinalCRLF r = Inl e \<Longrightarrow> e = ResponseStatusException kBadRequest \<or> e = OutOfRange"
  by (auto simp: ValidateFinalCRLF_def and_then_Inl_iff dest: ValidateAndSkipCRLF_error split: if_splits)

lemma chunk_loop_error:
  "chunk_loop r = Inl e \<Longrightarrow> e = ResponseStatusException kBadRequest \<or>
     e = ResponseStatusException kPayloadTooLarge \<or> e = OutOfRange"
proof (induction "length (sp_buffer r) - sp_read_pos r" arbitrary: r rule: less_induct)
  case less
  from less.prems consider "read_chunk_size r = Inl e" | r1 where "ValidateFinalCRLF r1 = Inl e"
    | r1 where "AppendChunkData r1 (sp_read_pos r1) (ptrdiff_to_size (rq_next_chunk_size r1)) = Inl e"
    | r1 pos r2 where "read_chunk_size r = Inr (True, r1)"
        "AppendChunkData r1 (sp_read_pos r1) (ptrdiff_to_size (rq_next_chunk_size r1)) = Inr (True, pos, r2)"
        "chunk_loop (r2\<lparr>sp_read_pos := pos, rq_next_chunk_size := -1\<rparr>) = Inl e"
    by (subst (asm) chunk_loop.simps) (auto simp: and_then_Inl_iff split: if_splits)
  then show ?case
  proof cases
    case (4 r1 pos r2)
    let ?r3 = "r2\<lparr>sp_read_pos := pos, rq_next_chunk_size := -1\<rparr>"
    have "length (sp_buffer ?r3) - sp_read_pos ?r3 < length (sp_buffer r) - sp_read_pos r"
      using read_chunk_size_frame(2,5) [OF 4(1)] AppendChunkData_pos(2) [OF 4(2)]
        AppendChunkData_frame(2) [OF 4(2)] by auto
    then show ?thesis using less.hyps 4(3) by blast
  qed (blast dest: read_chunk_size_error ValidateFinalCRLF_error AppendChunkData_error)+
qed

lemma AdvanceBody_error:
  assumes "AdvanceBody r = Inl e"
  shows "\<exists>s\<in>request_statuses. e = ResponseStatusException s"
proof -
  let ?m = "if rq_content_length r = 0 \<and> \<not> map_has (rq_headers r) ''transfer-encoding''
        then Inr (True, r\<lparr>sp_state := kDone\<rparr>)
        else if 0 \<le> rq_content_length r then AdvanceContentLengthBody r
        else AdvanceChunkedBody r"
  have "rethrow_as_500 ?m = Inl e" using assms unfolding AdvanceBody_def .
  then show ?thesis
    by (rule rethrow_error)
       (auto simp: AdvanceContentLengthBody_def AdvanceChunkedBody_def Let_def request_statuses_def
         dest: chunk_loop_error split: if_splits)
qed

lemma AdvanceHeader_status: "AdvanceHeader r = Inl e \<Longrightarrow> \<exists>s\<in>request_statuses. e = ResponseStatusException s"
  using AdvanceHeader_error [of r e]
  by (auto simp: head_error_def head_statuses_def request_statuses_def)

lemma HttpRequest_Parse_total:
  "\<exists>res. HttpRequest_Parse r data = Some res \<and>
     (\<forall>e. res = Inl e \<longrightarrow> (\<exists>s\<in>request_statuses. e = ResponseStatusException s))"
proof -
  let ?s = "append_data data r"
  have body: "\<forall>e. map_sum id snd (AdvanceBody t) = Inl e \<longrightarrow> (\<exists>s\<in>request_statuses. e = ResponseStatusException s)" for t
    using AdvanceBody_error by (cases "AdvanceBody t") auto
  consider "sp_state ?s = kHeader" | "sp_state ?s = kBody" | "sp_state ?s = kDone" by (cases "sp_state ?s")
  then show ?thesis
  proof cases
    case 1
    then show ?thesis unfolding HttpRequest_Parse_def Parse_def request_parser.run_header [OF 1]
      using AdvanceHeader_status [of ?s] body by (cases "AdvanceHeader ?s") (auto split: if_splits)
  next
    case 2
    then show ?thesis unfolding HttpRequest_Parse_def Parse_def request_parser.run_body [OF 2]
      using body [of ?s] by auto
  next
    case 3
    then show ?thesis
      by (simp add: HttpRequest_Parse_def Parse_def parse_loop.simps [of _ _ _ _ ?s] OnExtraDataAfterDone_def
          request_statuses_def)
  qed
qed

lemma feed_invariant:
  "feed HttpRequest_Parse r ps = Some (Inr r') \<Longrightarrow> request_wf r \<Longrightarrow> request_wf r'"
proof (induction ps arbitrary: r)
  case (Cons p ps)
  then obtain r1 where r1: "HttpRequest_Parse r p = Some (Inr r1)" "feed HttpRequest_Parse r1 ps = Some (Inr r')"
    by (auto split: option.splits sum.splits)
  have "sp_state r \<noteq> kDone"
    using r1(1) request_stream.parse_done [of r p] by (auto simp: HttpRequest_Parse_def)
  then have "request_wf r1" using request_stream.parse_invar [of r p r1] r1(1) Cons.prems(2)
    by (simp add: HttpRequest_Parse_def)
  then show ?case using Cons.IH r1(2) by blast
qed simp

subsection \<open>Properties\<close>

text \<open>A chunked request, for the concrete instances.\<close>

abbreviation sample_fields :: "(string \<times> string) list" where
  "sample_fields \<equiv> [(''Host'', ''h:80''), (''Transfer-Encoding'', ''chunked'')]"

abbreviation sample_data :: string where
  "sample_data \<equiv> head_text kPost ''/a'' None ''HTTP/1.1'' sample_fields @ chunks_text [(''3'', ''abc'')] ''0''"

abbreviation sample_request :: http_request where
  "sample_request \<equiv> the_request 100 [] kPost ''/a'' None ''HTTP/1.1'' sample_fields ''h'' 80 (-1) True ''abc'' []"

lemma sample_bytes:
  "request_bytes 100 kPost ''/a'' None ''HTTP/1.1'' sample_fields ''h'' 80 (-1) True ''abc'' [] sample_data"
proof -
  have "valid_head kPost ''/a'' None ''HTTP/1.1'' sample_fields"
    by (simp add: valid_head_def known_method_def known_version_def uri_bytes_def kMaxUriSize_def
        kMaxHeaderSize_def valid_header_def header_line_def IsVisibleAscii_def IsValidHeaderChar_def char_le_iff)
  moreover have "distinct_names sample_fields" by (simp add: distinct_names_def ToLowerAscii_def byte_defs char_le_iff)
  moreover have "header_of sample_fields ''host'' = Some ''h:80''"
      "header_of sample_fields ''content-length'' = None"
      "header_of sample_fields ''transfer-encoding'' = Some ''chunked''"
      "header_of sample_fields ''connection'' = None"
    by code_simp+
  moreover have "StrToUnsignedShort ''80'' = Some 80"
  proof -
    have "dec 80 = ''80''" by code_simp
    then show ?thesis using StrToUnsignedShort_dec [of 80] by simp
  qed
  then have "host_parts ''h:80'' ''h'' 80" using host_parts_colon [of "''h''" "''80''" "''h''" 80] by simp
  moreover have "body_bytes (-1) 100 ''abc'' (chunks_text [(''3'', ''abc'')] ''0'') []"
    unfolding body_bytes_def
    by (auto intro!: exI [of _ "[(''3'', ''abc'')]"] exI [of _ "''0''"]
        simp: valid_chunk_def size_text_def hex_digit_def chunks_data_def char_le_iff)
  ultimately show ?thesis
    by (auto simp: request_bytes_def framing_def connection_option_simps)
qed

lemma sample_run:
  "HttpRequest_Parse (fresh_request 100 []) sample_data = Some (Inr sample_request) \<and> IsDone sample_request"
proof -
  have "(100::nat) < 2 ^ 63" by simp
  from request_language_lemma [OF this, of "[]" sample_data sample_request] sample_bytes show ?thesis by blast
qed

text \<open>C1: The requests that the parser accepts, exactly. Fed to a fresh request, a byte string ends in state
  \<open>kDone\<close> if and only if it is a request line with a known method, a target of fewer than 1024
  visible bytes and HTTP/1.0 or 1.1, a header block of at most 8192 bytes whose names differ up
  to case, with a host, a legal connection option and one of the three framings, then the body
  in that framing and within the limit; and the fields of the object are then the parts of the
  message. Round trip and rejection are the two directions.\<close>

theorem request_language:
  assumes "limit < 2 ^ 63"
  shows "HttpRequest_Parse (fresh_request limit ip) data = Some (Inr r) \<and> IsDone r \<longleftrightarrow>
     (\<exists>m path query v kvs name port n keep body rest.
        request_bytes limit m path query v kvs name port n keep body rest data \<and>
        r = the_request limit ip m path query v kvs name port n keep body rest)"
  by (rule request_language_lemma [OF assms])

theorem request_language_witness:
  "HttpRequest_Parse (fresh_request 100 []) sample_data = Some (Inr sample_request) \<and> IsDone sample_request"
proof -
  have "(100::nat) < 2 ^ 63" by simp
  from request_language [OF this, of "[]" sample_data sample_request] sample_bytes show ?thesis by blast
qed

text \<open>C2: How the bytes arrive does not matter. When the pieces received so far have left the
  request unfinished, the next piece gives the result that one \<open>Parse\<close> of everything would
  have given, errors included.\<close>

theorem request_pieces:
  assumes "request_wf r" and "feed HttpRequest_Parse r ps = Some (Inr r1)" and "\<not> IsDone r1"
  shows "HttpRequest_Parse r1 d = HttpRequest_Parse r (concat ps @ d)"
  using request_stream.feed_parse [of r ps r1 d] assms by (simp add: HttpRequest_Parse_def IsDone_def)

lemma sample_wait:
  "HttpRequest_Parse (fresh_request 100 []) ''GET /'' = Some (Inr (append_data ''GET /'' (fresh_request 100 [])))"
proof -
  have "AdvanceHeader (append_data ''GET /'' (fresh_request 100 [])) =
      Inr (False, append_data ''GET /'' (fresh_request 100 []))"
    by (simp add: AdvanceHeader_def FindEndOfHeader_def HttpRequest_IsStrictCrlf_def)
  then show ?thesis
    by (simp add: HttpRequest_Parse_def Parse_def request_parser.run_header)
qed

theorem request_pieces_witness:
  "HttpRequest_Parse (append_data ''GET /'' (fresh_request 100 [])) ''a'' =
     HttpRequest_Parse (fresh_request 100 []) ''GET /a''"
  using request_pieces [of "fresh_request 100 []" "[''GET /'']" "append_data ''GET /'' (fresh_request 100 [])" "''a''"]
    fresh_request_wf [of 100 "[]"] sample_wait by (simp add: IsDone_def)

text \<open>C9: What holds of a request that has been read to its end, however its bytes arrived: the body
  is within the configured limit, and of the declared length when one was declared; the framing
  is never taken from both header fields; the dictionary is in key order with lower-case names;
  method, version, host and connection option are known ones.\<close>

theorem request_done:
  assumes "limit < 2 ^ 63" and "feed HttpRequest_Parse (fresh_request limit ip) ps = Some (Inr r)" and "IsDone r"
  shows "length (rq_body r) \<le> rq_max_body_size_limit r \<and>
     (0 \<le> rq_content_length r \<longrightarrow> int (length (rq_body r)) = rq_content_length r) \<and>
     \<not> (map_has (rq_headers r) ''content-length'' \<and> map_has (rq_headers r) ''transfer-encoding'') \<and>
     map_wf (rq_headers r) \<and> (\<forall>k. map_has (rq_headers r) k \<longrightarrow> ToLowerAscii k = k) \<and> head_ok r"
  using feed_invariant [OF assms(2) fresh_request_wf [OF assms(1)]] assms(3)
  by (auto simp: request_wf_def IsDone_def head_ok_def framing_ok_def Let_def map_has_def)

theorem request_done_witness:
  "length (rq_body sample_request) \<le> rq_max_body_size_limit sample_request \<and> head_ok sample_request"
proof -
  have "(100::nat) < 2 ^ 63" by simp
  moreover have "feed HttpRequest_Parse (fresh_request 100 []) [sample_data] = Some (Inr sample_request)"
    using sample_run by simp
  ultimately show ?thesis using request_done [of 100 "[]" "[sample_data]" sample_request] sample_run by blast
qed

text \<open>C34: \<open>Parse\<close> always returns, and when it throws, it throws a \<open>ResponseStatusException\<close>
  with one of six statuses: no exception of the library escapes, so the server always has an
  error response to send.\<close>

theorem request_errors:
  "\<exists>res. HttpRequest_Parse r data = Some res \<and>
     (case res of
        Inl e \<Rightarrow> e \<in> ResponseStatusException ` {kBadRequest, kPayloadTooLarge, kUriTooLong,
          kRequestHeaderFieldsTooLarge, kInternalServerError, kNotImplemented}
      | Inr _ \<Rightarrow> True)"
  using HttpRequest_Parse_total [of r data] by (fastforce simp: request_statuses_def split: sum.split)

end
