(* ===== verification/Socket_Safety.thy ===== *)
theory Socket_Safety
  imports Heap_Invariant Http_Request_Parse
begin

text \<open>
  Every method of the sockets, from a state with the invariant, uses only objects that are
  there, lets no exception out, and keeps the invariant: one rule for \<open>wp\<close> per method, up to
  \<open>HandleEvent\<close>, \<open>HandleTimeout\<close> and \<open>delete_socket\<close>.
\<close>

subsection \<open>Responses\<close>

lemma tail_ok_Nil [simp]: "tail_ok []"
  unfolding tail_ok_def by (intro exI [of _ HttpResponse_init]) (simp add: built_response.intros)

lemma tail_ok_text: "built_response res \<Longrightarrow> tail_ok (ToHttpString date res)"
  unfolding tail_ok_def by blast

lemma tail_ok_substr:
  assumes "tail_ok t"
  shows "tail_ok (substr t n (length t))"
proof -
  have "suffix (substr t n (length t)) t" by (simp add: substr_def suffix_drop)
  then show ?thesis using assms unfolding tail_ok_def by (metis suffix_order.trans)
qed

lemma closing_response_Inr:
  obtains res where "closing_response st = Inr res" and "built_response res" and "GetStatus res = st"
proof -
  obtain r1 where r1: "AddHeader ''Connection'' ''close'' (HttpResponse_of st) = Inr r1"
    by (simp add: AddHeader_def)
  obtain r2 where r2: "AddHeader ''Content-Type'' ''text/html'' r1 = Inr r2" by (simp add: AddHeader_def)
  have "built_response r2" by (intro AddHeader_built [OF r2] AddHeader_built [OF r1] built_response.intros)
  moreover have "GetStatus r2 = st" using GetStatus_AddHeader [OF r1] GetStatus_AddHeader [OF r2] by simp
  ultimately show thesis using that by (simp add: closing_response_def r1 r2 built_response.intros)
qed

lemma call_ToHttpString_spec:
  "built_response res \<Longrightarrow> io_spec calm tail_ok (\<lambda>_. False) (call_ToHttpString os res)"
  unfolding call_ToHttpString_def
  by (intro io_spec_if io_spec_return io_spec_step [OF io_spec_sys]) (simp_all add: calm_def plain_def quiet_def tail_ok_text)

subsection \<open>Steps of the client\<close>

text \<open>The client with another response, buffer or time.\<close>

definition same_client :: "client_socket \<Rightarrow> client_socket \<Rightarrow> bool" where
  "same_client c c' \<longleftrightarrow> so_fd c' = so_fd c \<and> cl_req c' = cl_req c \<and> cl_cgi_socket c' = cl_cgi_socket c \<and>
     cl_config c' = cl_config c"

lemma good_client:
  "good base s \<Longrightarrow> heap s p = Some (Client c) \<Longrightarrow>
     (cl_cgi_socket c \<noteq> None \<longrightarrow> sp_state (cl_req c) = kDone) \<and> tail_ok (so_write_buffer c)"
  using heap_ok_D(2) [OF good_D(1)] by fastforce

lemma wp_set_response:
  assumes "good base s" and "heap s this = Some (Client c)" and "built_response res"
    and "\<And>s' c'. kept base s s' \<Longrightarrow> heap s' = (heap s)(this \<mapsto> Client c') \<Longrightarrow> same_client c c' \<Longrightarrow> Q () s'"
  shows "wp (set_response os this res) Q E s"
  unfolding set_response_def wp_bind wp_load_client
proof (rule wp_calm [OF assms(1) call_ToHttpString_spec [OF assms(3)]])
  fix buf s1
  assume "tail_ok buf" and s1: "kept base s s1" "heap s1 = heap s"
  have c: "heap s1 this = Some (Client c)" using s1(2) assms(2) by simp
  have ok: "obj_ok (Client (c\<lparr>cl_res := res, so_write_buffer := buf\<rparr>))"
    using good_client [OF assms(1,2)] \<open>tail_ok buf\<close> by simp
  have "wp (store this (Client (c\<lparr>cl_res := res, so_write_buffer := buf\<rparr>))) Q E s1"
    by (rule wp_store_kept [OF kept_good [OF s1(1)] c _ _ ok])
       (auto intro!: assms(4) simp: s1(2) same_client_def elim: kept_trans [OF s1(1)])
  then show "case heap s1 this of None \<Rightarrow> False
      | Some (Client c) \<Rightarrow> wp (store this (Client (c\<lparr>cl_res := res, so_write_buffer := buf\<rparr>))) Q E s1 | _ \<Rightarrow> False"
    by (simp add: c)
qed simp

lemma wp_watch_output:
  assumes "good base s" and "heap s this = Some (Client c)"
    and "\<And>r s'. kept base s s' \<Longrightarrow> heap s' = heap s \<Longrightarrow> Q r s'"
  shows "wp (watch_output os epoll_fd this) Q E s"
  unfolding watch_output_def wp_bind wp_load_client
  using assms by (auto intro!: wp_epoll_ctl)

lemma wp_set_watch:
  assumes "good base s" and "heap s this = Some (Client c)" and "built_response res"
    and "\<And>r s'. kept base s s' \<Longrightarrow> Q r s'"
  shows "wp (set_response os this res) (\<lambda>_. wp (watch_output os epoll_fd this) Q E) E s"
proof (rule wp_set_response [OF assms(1-3)])
  fix s1 c1
  assume s1: "kept base s s1" "heap s1 = (heap s)(this \<mapsto> Client c1)"
  then have "heap s1 this = Some (Client c1)" by simp
  then show "wp (watch_output os epoll_fd this) Q E s1"
    by (rule wp_watch_output [OF kept_good [OF s1(1)]]) (use assms(4) kept_trans [OF s1(1)] in blast)
qed

lemma wp_unwatch:
  assumes "good base s" and "\<And>r s'. kept base s s' \<Longrightarrow> heap s' = heap s \<Longrightarrow> Q r s'"
  shows "wp (unwatch os epoll_fd fd) Q E s"
  unfolding unwatch_def by (rule wp_epoll_ctl [OF assms(1)]) (use assms(2) in auto)

lemma UpdateLastActivity_spec:
  "io_spec calm (\<lambda>c'. same_client c c' \<and> so_write_buffer c' = so_write_buffer c) (\<lambda>_. False) (UpdateLastActivity os c)"
  unfolding UpdateLastActivity_def call_time_def
  by (intro io_spec_step [OF io_spec_sys] io_spec_return) (simp_all add: calm_def plain_def quiet_def same_client_def)

lemma wp_client_UpdateLastActivity:
  assumes "good base s" and "heap s this = Some (Client c)"
    and "\<And>s' c'. kept base s s' \<Longrightarrow> heap s' = (heap s)(this \<mapsto> Client c') \<Longrightarrow> same_client c c' \<Longrightarrow> Q () s'"
  shows "wp (client_UpdateLastActivity os this) Q E s"
proof -
  have "wp (run_io (UpdateLastActivity os c)) (\<lambda>c1. wp (store this (Client c1)) Q E) E s"
  proof (rule wp_calm [OF assms(1) UpdateLastActivity_spec])
    fix c1 s1
    assume c1: "same_client c c1 \<and> so_write_buffer c1 = so_write_buffer c" and s1: "kept base s s1" "heap s1 = heap s"
    have c: "heap s1 this = Some (Client c)" using s1(2) assms(2) by simp
    have ok: "obj_ok (Client c1)" using good_client [OF assms(1,2)] c1 by (simp add: same_client_def)
    show "wp (store this (Client c1)) Q E s1"
      by (rule wp_store_kept [OF kept_good [OF s1(1)] c _ _ ok])
         (use c1 in \<open>auto intro!: assms(3) simp: s1(2) same_client_def elim: kept_trans [OF s1(1)]\<close>)
  qed simp
  then show ?thesis by (simp add: client_UpdateLastActivity_def wp_bind wp_load_client assms(2))
qed

text \<open>Several steps in a row: the rest is run from the state in between.\<close>

lemma kept_client:
  assumes "kept base s s'" and "heap s p = Some (Client c)"
  obtains c' where "heap s' p = Some (Client c')" and "so_fd c' = so_fd c"
proof -
  have "shape (heap s') p = Some (0, so_fd c)" using assms by (simp add: kept_def shape_def)
  then show thesis using that by (auto simp: shape_Some)
qed

lemma kept_live: "kept base s s' \<Longrightarrow> heap s p = Some obj \<Longrightarrow> \<exists>obj'. heap s' p = Some obj' \<and> obj_shape obj' = obj_shape obj"
  by (metis kept_def map_option_eq_Some shape_def)

lemma kept_cgi:
  assumes "kept base s s'" and "heap s p = Some (Cgi g)"
  obtains g' where "heap s' p = Some (Cgi g')" and "so_fd g' = so_fd g"
proof -
  have "shape (heap s') p = Some (1, so_fd g)" using assms by (simp add: kept_def shape_def)
  then show thesis using that by (auto simp: shape_Some)
qed

subsection \<open>Reading the request\<close>

lemma done_parse:
  assumes "sp_state r = kDone"
  shows "HttpRequest_Parse r data = Some (Inl (ResponseStatusException kBadRequest))"
  using assms
  by (simp add: HttpRequest_Parse_def Parse_def parse_loop.simps [of _ _ _ _ "append_data data r"] OnExtraDataAfterDone_def)

lemma wp_parse_request:
  assumes "good base s" and "heap s this = Some (Client c)"
    and "\<And>r s' c'. kept base s s' \<Longrightarrow> heap s' this = Some (Client c') \<Longrightarrow> cl_cgi_socket c' = None \<Longrightarrow> cl_req c' = r \<Longrightarrow>
      Q r s'"
    and "\<And>e s'. kept base s s' \<Longrightarrow> E e s'"
  shows "wp (parse_request left this data) Q E s"
proof -
  obtain res where res: "HttpRequest_Parse (cl_req c) data = Some res" using HttpRequest_Parse_total by blast
  note c = good_client [OF assms(1,2)]
  have "wp (case res of
       Inl e \<Rightarrow> act_bind (store this (Client (c\<lparr>cl_req := failed_parse left (cl_req c) data\<rparr>))) (\<lambda>_. act_throw e)
     | Inr r \<Rightarrow> act_bind (store this (Client (c\<lparr>cl_req := r\<rparr>))) (\<lambda>_. act_return r)) Q E s"
  proof (cases res)
    case (Inl e)
    have "obj_ok (Client (c\<lparr>cl_req := failed_parse left (cl_req c) data\<rparr>))"
      using c by (simp add: failed_parse_def)
    then show ?thesis unfolding Inl sum.case wp_bind wp_throw
      by (rule wp_store_kept [OF assms(1,2), rotated 2]) (simp_all add: assms(4))
  next
    case (Inr r)
    then have none: "cl_cgi_socket c = None" using c done_parse res by fastforce
    then have "obj_ok (Client (c\<lparr>cl_req := r\<rparr>))" using c by simp
    then show ?thesis unfolding Inr sum.case wp_bind wp_return
      by (rule wp_store_kept [OF assms(1,2), rotated 2]) (simp_all add: assms(3) none)
  qed
  then show ?thesis by (simp add: parse_request_def wp_bind wp_load_client assms(2) res)
qed

subsection \<open>Answering\<close>

text \<open>What a handler of events may do: create one object, which nothing points to yet.\<close>

definition handled :: "(int \<Rightarrow> int) \<Rightarrow> 'w server \<Rightarrow> socket_result \<Rightarrow> 'w server \<Rightarrow> bool" where
  "handled base s r s' \<longleftrightarrow> good base s' \<and> prefix (calls s) (calls s') \<and>
     (case sr_new_socket r of
        None \<Rightarrow> shape (heap s') = shape (heap s)
      | Some q \<Rightarrow> shape (heap s) q = None \<and> (\<exists>k fd. shape (heap s') = (shape (heap s))(q \<mapsto> (k, fd))))"

lemma handled_none: "kept base s s' \<Longrightarrow> handled base s SocketResult_init s'"
  by (simp add: handled_def kept_def SocketResult_init_def)

lemma handled_remove [simp]: "handled base s (r\<lparr>sr_remove_socket := b\<rparr>) s' = handled base s r s'"
  by (simp add: handled_def)

lemma kept_handled: "kept base s s1 \<Longrightarrow> handled base s1 r s2 \<Longrightarrow> handled base s r s2"
  by (auto simp: kept_def handled_def intro: prefix_order.trans split: option.splits)

lemma handled_kept: "handled base s r s1 \<Longrightarrow> kept base s1 s2 \<Longrightarrow> handled base s r s2"
  by (auto simp: kept_def handled_def intro: prefix_order.trans split: option.splits)

lemma handled_client:
  assumes "handled base s r s'" and "heap s p = Some (Client c)"
  obtains c' where "heap s' p = Some (Client c')" and "so_fd c' = so_fd c"
proof -
  have sh: "shape (heap s) p = Some (0, so_fd c)" using assms(2) by (simp add: shape_def)
  have "shape (heap s') p = Some (0, so_fd c)"
    using assms(1) sh by (cases "sr_new_socket r") (auto simp: handled_def)
  then show thesis using that by (auto simp: shape_Some)
qed

lemma handled_new:
  assumes "good base s'" and "heap s q = None" and "heap s' = (heap s)(q \<mapsto> obj)" and "prefix (calls s) (calls s')"
  shows "handled base s (SocketResult_init\<lparr>sr_new_socket := Some q\<rparr>) s'"
proof -
  have "shape (heap s') = (shape (heap s))(q \<mapsto> (fst (obj_shape obj), snd (obj_shape obj)))"
    by (simp add: assms(3) shape_update)
  then have "\<exists>k fd. shape (heap s') = (shape (heap s))(q \<mapsto> (k, fd))" by blast
  then show ?thesis using assms by (simp add: handled_def shape_def)
qed

lemma wp_adopt:
  fixes s :: "'w server"
  assumes good: "good (\<lambda>x. base x + (if x = so_fd g then 1 else 0)) s" and c: "heap s this = Some (Client c)"
    and "cl_cgi_socket c = None" and "sp_state (cl_req c) = kDone" and "cgs_owner g = None" and "so_fd g \<noteq> -1"
    and Q: "\<And>q s'. handled base s (SocketResult_init\<lparr>sr_new_socket := Some q\<rparr>) s' \<Longrightarrow> Q q s'"
  shows "wp (adopt_cgi_socket this g) Q E s"
  unfolding adopt_cgi_socket_def wp_bind
proof (rule wp_create_good [where base = base])
  show "good (\<lambda>x. base x + (if x = obj_fd (Cgi g) then 1 else 0)) s" using good by simp
next
  fix s1 :: "'w server" and q
  assume s1: "good base s1" "heap s q = None" "heap s1 = (heap s)(q \<mapsto> Cgi g)" "calls s1 = calls s"
  then have neq: "q \<noteq> this" using c by auto
  have heap: "heap s1 q = Some (Cgi g)" "heap s1 this = Some (Client c)" using s1 neq c by auto
  let ?h = "(heap s1)(q \<mapsto> Cgi (g\<lparr>cgs_owner := Some this\<rparr>), this \<mapsto> Client (c\<lparr>cl_cgi_socket := Some q\<rparr>))"
  have "heap_ok ?h (next_address s1)"
    by (rule heap_ok_link [OF good_D(1) [OF s1(1)] heap(2,1) assms(3,5,4)])
  moreover have "shape ?h = shape (heap s1)" using heap neq by (auto simp: shape_def fun_eq_iff)
  ultimately have "good base (s1\<lparr>heap := ?h\<rparr>)" using good_D(2) [OF s1(1)] by (simp add: good_def)
  moreover have "shape ?h = (shape (heap s))(q \<mapsto> (1, so_fd g))"
    using \<open>shape ?h = shape (heap s1)\<close> s1(3) by (simp add: shape_update)
  ultimately have "handled base s (SocketResult_init\<lparr>sr_new_socket := Some q\<rparr>) (s1\<lparr>heap := ?h\<rparr>)"
    using s1(2,4) by (auto simp: handled_def shape_def)
  then show "wp (OnSetOwner q (Some this)) (\<lambda>_. wp (load_client this) (\<lambda>c.
      wp (store this (Client (c\<lparr>cl_cgi_socket := Some q\<rparr>))) (\<lambda>_. wp (act_return q) Q E) E) E) E s1"
    using neq Q by (simp add: OnSetOwner_def wp_simps heap)
qed (use assms(5,6) in simp_all)

text \<open>The kernel gives descriptors, which are not negative.\<close>

definition os_ok :: "'w os \<Rightarrow> bool" where
  "os_ok os \<longleftrightarrow>
     (\<forall>w a b w'. os_socketpair os w = (Some (a, b), w') \<longrightarrow> 0 \<le> a \<and> 0 \<le> b) \<and>
     (\<forall>fd w c addr w'. os_accept os fd w = (Some (c, addr), w') \<longrightarrow> 0 \<le> c)"

lemma os_ok_D:
  assumes "os_ok os"
  shows "os_socketpair os w = (Some (a, b), w') \<Longrightarrow> 0 \<le> a \<and> 0 \<le> b"
    and "os_accept os fd w = (Some (c, addr), w') \<Longrightarrow> 0 \<le> c"
  using assms unfolding os_ok_def by blast+

lemma wp_call_handler:
  assumes "os_ok os" and "good base s"
    and "\<And>er s'. handler_result_ok er \<Longrightarrow> good (\<lambda>x. base x + (if owned_fd (Inr er) = Some x then 1 else 0)) s' \<Longrightarrow>
      heap s' = heap s \<Longrightarrow> prefix (calls s) (calls s') \<Longrightarrow> Q er s'"
  shows "wp (run_io (call_handler os config req)) Q E s"
proof -
  define m where "m = \<lparr>world = world s, calls = calls s\<rparr>"
  obtain er m' where run: "RequestHandler_Run os (RequestHandler_init config req) m = (er, m')"
    by (cases "RequestHandler_Run os (RequestHandler_init config req) m")
  have pair: "\<And>w a b w'. os_socketpair os w = (Some (a, b), w') \<Longrightarrow> 0 \<le> a \<and> 0 \<le> b"
    by (rule os_ok_D(1) [OF assms(1)])
  have effect: "handler_result_ok er" "\<exists>cs. calls m' = calls m @ cs \<and> list_all plain cs \<and>
      (\<forall>fd. fd_balance fd cs = (if owned_fd (Inr er) = Some fd then 1 else 0))"
    by (rule handler_effect [OF _ run], erule pair)+
  obtain cs where cs: "calls m' = calls s @ cs" "list_all plain cs"
      "\<And>fd. fd_balance fd cs = (if owned_fd (Inr er) = Some fd then 1 else 0)"
    using effect(2) by (auto simp: m_def)
  have "good (\<lambda>x. base x + (if owned_fd (Inr er) = Some x then 1 else 0)) (s\<lparr>world := world m', calls := calls s @ cs\<rparr>)"
    using good_D [OF assms(2)] log_ok_plain [where d = "\<lambda>x. if owned_fd (Inr er) = Some x then 1 else 0", OF _ cs(2,3)]
    by (simp add: good_def)
  then show ?thesis
    using assms(3) [OF effect(1)] cs(1) by (simp add: wp_def run_io_def call_handler_def run [unfolded m_def])
qed

lemma wp_answer_request:
  fixes s :: "'w server"
  assumes "os_ok os" and "good base s" and "heap s this = Some (Client c)"
    and "cl_cgi_socket c = None" and "IsDone (cl_req c)"
    and Q: "\<And>r s'. handled base s r s' \<Longrightarrow> Q r s'" and E: "\<And>e s'. kept base s s' \<Longrightarrow> E e s'"
  shows "wp (answer_request os epoll_fd this) Q E s"
proof -
  let ?rest = "\<lambda>er. if er_is_async er then
      (case er_new_socket er of
         None \<Rightarrow> act_return SocketResult_init
       | Some g \<Rightarrow> act_bind (adopt_cgi_socket this g) (\<lambda>q. act_return (SocketResult_init\<lparr>sr_new_socket := Some q\<rparr>)))
    else
      act_bind (set_response os this (er_response er)) (\<lambda>_.
      act_bind (watch_output os epoll_fd this) (\<lambda>r.
        case r of
          Some e \<Rightarrow> act_throw (ResponseStatusException (MapErrnoToHttpStatus e))
        | None \<Rightarrow> act_return SocketResult_init))"
  have "wp (run_io (call_handler os (cl_config c) (cl_req c)))
      (\<lambda>er. wp (set_response os this (er_response er)) (\<lambda>_. wp (?rest er) Q E) E) E s"
  proof (rule wp_call_handler [OF assms(1,2)])
    fix er and s1 :: "'w server"
    let ?base = "\<lambda>x. base x + (if owned_fd (Inr er) = Some x then 1 else 0)"
    assume er: "handler_result_ok er" and s1: "good ?base s1" "heap s1 = heap s" "prefix (calls s) (calls s1)"
    have c1: "heap s1 this = Some (Client c)" and res: "built_response (er_response er)"
      using s1(2) assms(3) er by (simp_all add: handler_result_ok_def)
    show "wp (set_response os this (er_response er)) (\<lambda>_. wp (?rest er) Q E) E s1"
    proof (rule wp_set_response [OF s1(1) c1 res])
      fix s2 :: "'w server" and c2
      assume s2: "kept ?base s1 s2" "heap s2 = (heap s1)(this \<mapsto> Client c2)" "same_client c c2"
      have c2: "heap s2 this = Some (Client c2)" using s2(2) by simp
      show "wp (?rest er) Q E s2"
      proof (cases "er_new_socket er")
        case (Some g)
        have g: "er_is_async er" "cgs_owner g = None" "so_fd g \<noteq> -1" and own: "owned_fd (Inr er) = Some (so_fd g)"
          using er Some by (simp_all add: handler_result_ok_def owned_fd_def)
        have b: "good (\<lambda>x. base x + (if x = so_fd g then 1 else 0)) s2"
          using kept_good [OF s2(1)] by (simp add: own eq_commute)
        have "wp (adopt_cgi_socket this g) (\<lambda>q. Q (SocketResult_init\<lparr>sr_new_socket := Some q\<rparr>)) E s2"
        proof (rule wp_adopt [OF b c2])
          fix q and s3 :: "'w server"
          assume "handled base s2 (SocketResult_init\<lparr>sr_new_socket := Some q\<rparr>) s3"
          then have "handled base s (SocketResult_init\<lparr>sr_new_socket := Some q\<rparr>) s3"
            using s1 s2(1) by (auto simp: handled_def kept_def intro: prefix_order.trans)
          then show "Q (SocketResult_init\<lparr>sr_new_socket := Some q\<rparr>) s3" by (rule Q)
        qed (use g s2(3) assms(4,5) in \<open>simp_all add: same_client_def IsDone_def\<close>)
        then show ?thesis by (simp add: Some g wp_simps)
      next
        case None
        then have sync: "\<not> er_is_async er" and b: "?base = base" using er by (auto simp: handler_result_ok_def owned_fd_def)
        have k2: "kept base s s2" using s1 s2(1) by (auto simp: b kept_def intro: prefix_order.trans)
        have "wp (set_response os this (er_response er)) (\<lambda>_. wp (watch_output os epoll_fd this)
            (\<lambda>r. wp (case r of Some e \<Rightarrow> act_throw (ResponseStatusException (MapErrnoToHttpStatus e))
              | None \<Rightarrow> act_return SocketResult_init) Q E) E) E s2"
        proof (rule wp_set_response [OF kept_good [OF k2] c2 res])
          fix s3 :: "'w server" and c3
          assume s3: "kept base s2 s3" "heap s3 = (heap s2)(this \<mapsto> Client c3)"
          then have c3: "heap s3 this = Some (Client c3)" by simp
          show "wp (watch_output os epoll_fd this)
            (\<lambda>r. wp (case r of Some e \<Rightarrow> act_throw (ResponseStatusException (MapErrnoToHttpStatus e))
              | None \<Rightarrow> act_return SocketResult_init) Q E) E s3"
          proof (rule wp_watch_output [OF kept_good [OF s3(1)] c3])
            fix r and s4 :: "'w server"
            assume "kept base s3 s4"
            then have "kept base s s4" using k2 s3(1) kept_trans by blast
            then show "wp (case r of Some e \<Rightarrow> act_throw (ResponseStatusException (MapErrnoToHttpStatus e))
              | None \<Rightarrow> act_return SocketResult_init) Q E s4"
              by (cases r) (simp_all add: wp_simps E Q handled_none)
          qed
        qed
        then show ?thesis by (simp add: sync wp_bind)
      qed
    qed
  qed
  then show ?thesis by (simp add: answer_request_def wp_bind wp_load_client assms(3))
qed

lemma Recv_calm: "io_spec calm (\<lambda>_. True) (\<lambda>_. False) (sys (\<lambda>_. Recv fd n) call)"
  by (rule io_spec_sys) (simp_all add: calm_def plain_def quiet_def)

lemma wp_HandleEpollIn:
  assumes "os_ok os" and "good base s" and "heap s this = Some (Client c)"
    and Q: "\<And>r s'. handled base s r s' \<Longrightarrow> Q r s'" and E: "\<And>e s'. kept base s s' \<Longrightarrow> E e s'"
  shows "wp (HandleEpollIn os left epoll_fd this) Q E s"
proof -
  have "wp (run_io (sys (\<lambda>_. Recv (so_fd c) kBufferSize) (os_recv os (so_fd c) kBufferSize)))
     (\<lambda>r. wp (case r of None \<Rightarrow> act_throw ConnectionClosed
       | Some data \<Rightarrow> (if data = [] then act_throw ConnectionClosed
            else act_bind (parse_request left this data) (\<lambda>req.
                if IsDone req then answer_request os epoll_fd this else act_return SocketResult_init))) Q E) E s"
  proof (rule wp_calm [OF assms(2) Recv_calm])
    fix r s1
    assume s1: "kept base s s1" "heap s1 = heap s"
    then have c1: "heap s1 this = Some (Client c)" using assms(3) by simp
    show "wp (case r of None \<Rightarrow> act_throw ConnectionClosed
       | Some data \<Rightarrow> (if data = [] then act_throw ConnectionClosed
            else act_bind (parse_request left this data) (\<lambda>req.
                if IsDone req then answer_request os epoll_fd this else act_return SocketResult_init))) Q E s1"
    proof (cases r)
      case None
      then show ?thesis by (simp add: wp_throw E s1(1))
    next
      case (Some data)
      have "wp (parse_request left this data)
         (\<lambda>req. wp (if IsDone req then answer_request os epoll_fd this else act_return SocketResult_init) Q E) E s1"
      proof (rule wp_parse_request [OF kept_good [OF s1(1)] c1])
        fix req s2 c2
        assume s2: "kept base s1 s2" "heap s2 this = Some (Client c2)" "cl_cgi_socket c2 = None" "cl_req c2 = req"
        have k2: "kept base s s2" by (rule kept_trans [OF s1(1) s2(1)])
        show "wp (if IsDone req then answer_request os epoll_fd this else act_return SocketResult_init) Q E s2"
        proof (cases "IsDone req")
          case True
          have "wp (answer_request os epoll_fd this) Q E s2"
            by (rule wp_answer_request [OF assms(1) kept_good [OF k2] s2(2,3)])
               (use True s2(4) Q E kept_handled [OF k2] kept_trans [OF k2] in auto)
          then show ?thesis using True by simp
        next
          case False
          then show ?thesis by (simp add: wp_return Q handled_none k2)
        qed
      next
        fix e s2
        assume "kept base s1 s2"
        then show "E e s2" using E kept_trans [OF s1(1)] by blast
      qed
      then show ?thesis by (simp add: Some wp_simps E s1(1))
    qed
  qed simp
  then show ?thesis by (simp add: HandleEpollIn_def wp_bind wp_load_client assms(3))
qed

subsection \<open>Events of a client\<close>

lemma wp_HandleEpollOut:
  assumes "good base s" and "heap s this = Some (Client c)"
    and Q: "\<And>s'. kept base s s' \<Longrightarrow> Q () s'" and E: "\<And>e s'. kept base s s' \<Longrightarrow> E e s'"
  shows "wp (HandleEpollOut os this) Q E s"
proof (cases "so_write_buffer c = []")
  case True
  then show ?thesis using Q kept_refl [OF assms(1)]
    by (simp add: HandleEpollOut_def wp_bind wp_load_client assms(2) wp_return)
next
  case False
  note c = good_client [OF assms(1,2)]
  let ?cut = "\<lambda>n. c\<lparr>so_write_buffer := substr (so_write_buffer c) (nat n) (length (so_write_buffer c))\<rparr>"
  let ?rest = "\<lambda>n. if n = -1 then act_throw ConnectionClosed
      else if 0 \<le> n \<and> nat n < length (so_write_buffer c) then store this (Client (?cut n))
      else act_bind (store this (Client (c\<lparr>so_write_buffer := []\<rparr>))) (\<lambda>_. act_throw ConnectionClosed)"
  have "wp (run_io (call_send os (so_fd c) (so_write_buffer c))) (\<lambda>n. wp (?rest n) Q E) E s"
  proof (rule wp_send [OF assms(1)])
    fix n s1
    assume s1: "kept base s s1" "heap s1 = heap s"
    then have c1: "heap s1 this = Some (Client c)" using assms(2) by simp
    note st = wp_store_kept [OF kept_good [OF s1(1)] c1]
    have "wp (store this (Client (?cut n))) Q E s1"
      by (rule st) (use c Q kept_trans [OF s1(1)] tail_ok_substr in auto)
    moreover have "wp (store this (Client (c\<lparr>so_write_buffer := []\<rparr>))) (\<lambda>_. E ConnectionClosed) E s1"
      by (rule st) (use c E kept_trans [OF s1(1)] in auto)
    ultimately show "wp (?rest n) Q E s1" by (simp add: wp_simps E s1(1))
  qed (use c in simp)
  then show ?thesis using False by (simp add: HandleEpollOut_def wp_bind wp_load_client assms(2))
qed

lemma wp_closing:
  assumes "good base s" and "heap s this = Some (Client c)"
    and "\<And>s' c'. kept base s s' \<Longrightarrow> heap s' = (heap s)(this \<mapsto> Client c') \<Longrightarrow> same_client c c' \<Longrightarrow> Q () s'"
  shows "wp (run_io (io_lift (closing_response st))) (\<lambda>res. wp (set_response os this res) Q E) E s"
proof -
  obtain res where "closing_response st = Inr res" "built_response res" by (rule closing_response_Inr)
  then show ?thesis by (intro wp_lift wp_set_response [OF assms(1,2)] assms(3))
qed

lemma wp_client_exception:
  assumes "good base s" and "heap s this = Some (Client c)"
    and Q: "\<And>b s'. kept base s s' \<Longrightarrow> Q (result\<lparr>sr_remove_socket := b\<rparr>) s'"
  shows "wp (client_exception os epoll_fd this result e) Q E s"
proof -
  have keep: "result\<lparr>sr_remove_socket := sr_remove_socket result\<rparr> = result" by simp
  have unwatch: "wp (unwatch os epoll_fd fd) (\<lambda>_. Q (result\<lparr>sr_remove_socket := True\<rparr>)) E s'" if "kept base s s'" for fd s'
    by (rule wp_unwatch [OF kept_good [OF that]]) (use Q kept_trans [OF that] in blast)
  have other: "wp (act_bind (load_client this) (\<lambda>c. act_bind (unwatch os epoll_fd (so_fd c)) (\<lambda>_.
      act_return (result\<lparr>sr_remove_socket := True\<rparr>)))) Q E s'" if k: "kept base s s'" for s'
  proof -
    obtain c' where "heap s' this = Some (Client c')" using kept_client [OF k assms(2)] by blast
    then show ?thesis using unwatch [OF k] by (simp add: wp_bind wp_load_client wp_return)
  qed
  show ?thesis
  proof (cases e)
    case (ResponseStatusException st)
    have "wp (run_io (io_lift (closing_response st))) (\<lambda>res. wp (set_response os this res)
        (\<lambda>_. wp (watch_output os epoll_fd this) (\<lambda>r. wp (if r \<noteq> None
          then act_bind (load_client this) (\<lambda>c. act_bind (unwatch os epoll_fd (so_fd c)) (\<lambda>_.
            act_return (result\<lparr>sr_remove_socket := True\<rparr>)))
          else act_return result) Q E) E) E) E s"
    proof (rule wp_closing [OF assms(1,2)])
      fix s1 c1
      assume s1: "kept base s s1" "heap s1 = (heap s)(this \<mapsto> Client c1)"
      then have c1: "heap s1 this = Some (Client c1)" by simp
      show "wp (watch_output os epoll_fd this) (\<lambda>r. wp (if r \<noteq> None
          then act_bind (load_client this) (\<lambda>c. act_bind (unwatch os epoll_fd (so_fd c)) (\<lambda>_.
            act_return (result\<lparr>sr_remove_socket := True\<rparr>)))
          else act_return result) Q E) E s1"
      proof (rule wp_watch_output [OF kept_good [OF s1(1)] c1])
        fix r s2
        assume "kept base s1 s2"
        then have k: "kept base s s2" by (rule kept_trans [OF s1(1)])
        show "wp (if r \<noteq> None
          then act_bind (load_client this) (\<lambda>c. act_bind (unwatch os epoll_fd (so_fd c)) (\<lambda>_.
            act_return (result\<lparr>sr_remove_socket := True\<rparr>)))
          else act_return result) Q E s2"
          using other [OF k] Q [OF k, of "sr_remove_socket result"] by (simp add: wp_return keep)
      qed
    qed
    then show ?thesis by (simp add: client_exception_def ResponseStatusException wp_bind)
  qed (simp_all add: client_exception_def other kept_refl [OF assms(1)])
qed

lemma wp_client_HandleEvent:
  assumes "os_ok os" and "good base s" and "heap s this = Some (Client c)"
    and Q: "\<And>r s'. handled base s r s' \<Longrightarrow> Q r s'"
  shows "wp (client_HandleEvent os left epoll_fd this events) Q E s"
proof -
  let ?in = "if events AND EPOLLIN \<noteq> 0 then HandleEpollIn os left epoll_fd this else act_return SocketResult_init"
  let ?out = "if events AND EPOLLOUT \<noteq> 0 then HandleEpollOut os this else act_return ()"
  let ?exc = "client_exception os epoll_fd this"
  have exc: "wp (?exc r e) Q E s'" if h: "handled base s r s'" for r e s'
  proof -
    obtain c' where "heap s' this = Some (Client c')" using handled_client [OF h assms(3)] by blast
    then show ?thesis
      by (rule wp_client_exception [rotated]) (use h handled_kept [OF h] Q in \<open>auto simp: handled_def [of _ _ r s']\<close>)
  qed
  have out: "wp ?out (\<lambda>_. Q r) (\<lambda>e. wp (?exc r e) Q E) s'" if h: "handled base s r s'" for r s'
  proof (cases "events AND EPOLLOUT \<noteq> 0")
    case True
    have g: "good base s'" using h by (simp add: handled_def)
    obtain c' where c': "heap s' this = Some (Client c')" using handled_client [OF h assms(3)] by blast
    have "wp (HandleEpollOut os this) (\<lambda>_. Q r) (\<lambda>e. wp (?exc r e) Q E) s'"
      by (rule wp_HandleEpollOut [OF g c']) (use Q exc handled_kept [OF h] in blast)+
    then show ?thesis using True by simp
  next
    case False
    then show ?thesis by (simp add: wp_return Q h)
  qed
  have "wp (client_UpdateLastActivity os this) (\<lambda>_. wp ?in (\<lambda>r. wp ?out (\<lambda>_. Q r) (\<lambda>e. wp (?exc r e) Q E))
      (\<lambda>e. wp (?exc SocketResult_init e) Q E)) E s"
  proof (rule wp_client_UpdateLastActivity [OF assms(2,3)])
    fix s1 c1
    assume s1: "kept base s s1" "heap s1 = (heap s)(this \<mapsto> Client c1)"
    then have c1: "heap s1 this = Some (Client c1)" by simp
    show "wp ?in (\<lambda>r. wp ?out (\<lambda>_. Q r) (\<lambda>e. wp (?exc r e) Q E)) (\<lambda>e. wp (?exc SocketResult_init e) Q E) s1"
    proof (cases "events AND EPOLLIN \<noteq> 0")
      case True
      have "wp (HandleEpollIn os left epoll_fd this) (\<lambda>r. wp ?out (\<lambda>_. Q r) (\<lambda>e. wp (?exc r e) Q E))
          (\<lambda>e. wp (?exc SocketResult_init e) Q E) s1"
        by (rule wp_HandleEpollIn [OF assms(1) kept_good [OF s1(1)] c1])
           (use out exc kept_handled [OF s1(1)] handled_none kept_trans [OF s1(1)] in blast)+
      then show ?thesis using True by simp
    next
      case False
      then show ?thesis using out [OF handled_none [OF s1(1)]] by (simp add: wp_return)
    qed
  qed
  then show ?thesis by (simp only: client_HandleEvent_def wp_bind wp_try sum.case wp_return)
qed

subsection \<open>Timeout of a client\<close>

lemma send_loop_sends:
  "tail_ok buffer \<Longrightarrow> \<exists>rest m' cs. send_loop os fd buffer m = (Inr rest, m') \<and> calls m' = calls m @ cs \<and>
     tail_ok rest \<and> list_all (\<lambda>c. \<exists>d. c = Send fd d \<and> tail_ok d) cs"
proof (induction os fd buffer m rule: send_loop.induct)
  case (1 os fd buffer m)
  obtain n w where send: "call_send os fd buffer m = (Inr n, \<lparr>world = w, calls = calls m @ [Send fd buffer]\<rparr>)"
    by (cases "os_send os fd buffer (world m)") (auto simp: call_send_def sys_def)
  show ?case
  proof (cases "buffer = [] \<or> n \<le> 0 \<or> length buffer \<le> nat n")
    case True
    have nil: "send_loop os fd [] m = (Inr [], m)" by simp
    have "buffer \<noteq> [] \<Longrightarrow> send_loop os fd buffer m =
        (Inr (if n \<le> 0 then buffer else []), \<lparr>world = w, calls = calls m @ [Send fd buffer]\<rparr>)"
      using True by (subst send_loop.simps) (auto simp add: send simp del: send_loop.simps)
    then show ?thesis using 1(2) nil by (cases "buffer = []") (auto split: if_splits)
  next
    case False
    let ?m1 = "\<lparr>world = w, calls = calls m @ [Send fd buffer]\<rparr>" and ?b1 = "substr buffer (nat n) (length buffer)"
    have run: "send_loop os fd buffer m = send_loop os fd ?b1 ?m1"
      using False by (subst send_loop.simps) (simp add: send del: send_loop.simps)
    obtain rest m' cs where "send_loop os fd ?b1 ?m1 = (Inr rest, m')" "calls m' = calls ?m1 @ cs" "tail_ok rest"
        "list_all (\<lambda>c. \<exists>d. c = Send fd d \<and> tail_ok d) cs"
      using "1.IH" [OF _ send [symmetric] refl] False tail_ok_substr [OF 1(2)] by auto
    then show ?thesis unfolding run using 1(2) by auto
  qed
qed

lemma log_ok_sends:
  "log_ok base sh cs0 \<Longrightarrow> list_all (\<lambda>c. \<exists>d. c = Send fd d \<and> tail_ok d) cs \<Longrightarrow> log_ok base sh (cs0 @ cs)"
proof (induction cs arbitrary: cs0)
  case (Cons c cs)
  then obtain d where "c = Send fd d" "tail_ok d" by auto
  then show ?case using Cons.IH [of "cs0 @ [c]"] Cons.prems log_ok_send by fastforce
qed simp

lemma wp_send_loop:
  assumes "good base s" and "tail_ok buffer"
    and Q: "\<And>rest s'. tail_ok rest \<Longrightarrow> kept base s s' \<Longrightarrow> heap s' = heap s \<Longrightarrow> Q rest s'"
  shows "wp (run_io (send_loop os fd buffer)) Q E s"
proof -
  define m where "m = \<lparr>world = world s, calls = calls s\<rparr>"
  obtain rest m' cs where r: "send_loop os fd buffer m = (Inr rest, m')" "calls m' = calls s @ cs" "tail_ok rest"
      and cs: "list_all (\<lambda>c. \<exists>d. c = Send fd d \<and> tail_ok d) cs"
    using send_loop_sends [OF assms(2), of os fd m] by (auto simp: m_def)
  have "kept base s (s\<lparr>world := world m', calls := calls s @ cs\<rparr>)"
    using good_D [OF assms(1)] log_ok_sends [OF _ cs] by (simp add: kept_def good_def)
  then show ?thesis using Q [OF r(3)] r(2)
    by (simp add: wp_def run_io_def r(1) [unfolded m_def] del: send_loop.simps)
qed

lemma wp_client_HandleTimeout:
  assumes "good base s" and "heap s this = Some (Client c)"
    and Q: "\<And>s'. kept base s s' \<Longrightarrow> Q () s'"
  shows "wp (client_HandleTimeout os epoll_fd this) Q E s"
proof -
  let ?rest = "\<lambda>c. act_bind (run_io (send_loop os (so_fd c) (so_write_buffer c))) (\<lambda>rest.
     act_bind (store this (Client (c\<lparr>so_write_buffer := rest\<rparr>))) (\<lambda>_.
     act_bind (unwatch os epoll_fd (so_fd c)) (\<lambda>_. act_return ())))"
  have "wp (run_io (io_lift (closing_response kRequestTimeout))) (\<lambda>res. wp (set_response os this res)
      (\<lambda>_. wp (load_client this) (\<lambda>c. wp (?rest c) Q E) E) E) E s"
  proof (rule wp_closing [OF assms(1,2)])
    fix s1 c1
    assume s1: "kept base s s1" "heap s1 = (heap s)(this \<mapsto> Client c1)"
    then have c1: "heap s1 this = Some (Client c1)" by simp
    note ok = good_client [OF kept_good [OF s1(1)] c1]
    have "wp (run_io (send_loop os (so_fd c1) (so_write_buffer c1)))
        (\<lambda>rest. wp (store this (Client (c1\<lparr>so_write_buffer := rest\<rparr>)))
          (\<lambda>_. wp (unwatch os epoll_fd (so_fd c1)) (\<lambda>_. Q ()) E) E) E s1"
    proof (rule wp_send_loop [OF kept_good [OF s1(1)]])
      fix rest s2
      assume s2: "tail_ok rest" "kept base s1 s2" "heap s2 = heap s1"
      then have c2: "heap s2 this = Some (Client c1)" using c1 by simp
      show "wp (store this (Client (c1\<lparr>so_write_buffer := rest\<rparr>)))
          (\<lambda>_. wp (unwatch os epoll_fd (so_fd c1)) (\<lambda>_. Q ()) E) E s2"
      proof (rule wp_store_kept [OF kept_good [OF s2(2)] c2])
        fix s3
        assume s3: "kept base s2 s3"
        show "wp (unwatch os epoll_fd (so_fd c1)) (\<lambda>_. Q ()) E s3"
          by (rule wp_unwatch [OF kept_good [OF s3]]) (use Q kept_trans s1(1) s2(2) s3 in blast)
      qed (use ok s2(1) in simp_all)
    qed (use ok in simp)
    then show "wp (load_client this) (\<lambda>c. wp (?rest c) Q E) E s1"
      by (simp add: wp_load_client c1 wp_bind wp_return)
  qed
  then show ?thesis by (simp only: client_HandleTimeout_def wp_bind wp_return)
qed

subsection \<open>The end of a CGI program\<close>

lemma wp_OnCgiExecutionFinished:
  assumes "good base s" and "heap s this = Some (Client c)"
    and Q: "\<And>s'. kept base s s' \<Longrightarrow> Q () s'"
  shows "wp (OnCgiExecutionFinished os epoll_fd this out) Q E s"
proof -
  let ?res = "case ParseCgiResponse out of
       None \<Rightarrow> act_undefined
     | Some (Inr res) \<Rightarrow> act_return res
     | Some (Inl e) \<Rightarrow> (case e of
            ResponseStatusException _ \<Rightarrow> run_io (io_lift (closing_response kInternalServerError))
          | _ \<Rightarrow> act_throw e)"
  have res: "wp ?res R E s'" if R: "\<And>res. built_response res \<Longrightarrow> R res s'" for R s'
  proof (cases "cgi_response out")
    case (Inl e)
    then obtain st where "e = ResponseStatusException st" using cgi_error_statuses [OF Inl] by auto
    moreover obtain res where "closing_response kInternalServerError = Inr res" "built_response res"
      by (rule closing_response_Inr)
    ultimately show ?thesis using Inl R by (simp add: ParseCgiResponse_eq wp_lift)
  next
    case (Inr res)
    then show ?thesis using R cgi_response_built [OF Inr] by (simp add: ParseCgiResponse_eq wp_return)
  qed
  have "wp (client_UpdateLastActivity os this) (\<lambda>_. wp ?res (\<lambda>res. wp (set_response os this res)
      (\<lambda>_. wp (watch_output os epoll_fd this) (\<lambda>_. Q ()) E) E) E) E s"
  proof (rule wp_client_UpdateLastActivity [OF assms(1,2)])
    fix s1 c1
    assume s1: "kept base s s1" "heap s1 = (heap s)(this \<mapsto> Client c1)"
    then have c1: "heap s1 this = Some (Client c1)" by simp
    show "wp ?res (\<lambda>res. wp (set_response os this res)
      (\<lambda>_. wp (watch_output os epoll_fd this) (\<lambda>_. Q ()) E) E) E s1"
      by (rule res, rule wp_set_watch [OF kept_good [OF s1(1)] c1]) (use Q kept_trans [OF s1(1)] in auto)
  qed
  then show ?thesis by (simp only: OnCgiExecutionFinished_def wp_bind wp_return)
qed

lemma wp_OnCgiExecutionError:
  assumes "good base s" and "heap s this = Some (Client c)"
    and Q: "\<And>s'. kept base s s' \<Longrightarrow> Q () s'"
  shows "wp (OnCgiExecutionError os epoll_fd this) Q E s"
  unfolding OnCgiExecutionError_def wp_bind wp_return
proof (rule wp_client_UpdateLastActivity [OF assms(1,2)])
  fix s1 c1
  assume s1: "kept base s s1" "heap s1 = (heap s)(this \<mapsto> Client c1)"
  then have c1: "heap s1 this = Some (Client c1)" by simp
  show "wp (set_response os this (HttpResponse_of kInternalServerError))
      (\<lambda>_. wp (watch_output os epoll_fd this) (\<lambda>_. Q ()) E) E s1"
    by (rule wp_set_watch [OF kept_good [OF s1(1)] c1])
       (use Q kept_trans [OF s1(1)] in \<open>auto intro: built_response.intros\<close>)
qed

lemma Waitpid_calm: "io_spec calm (\<lambda>_. True) (\<lambda>_. False) (call_waitpid os pid)"
  unfolding call_waitpid_def by (rule io_spec_sys) (simp_all add: calm_def plain_def quiet_def)

lemma Read_calm: "io_spec calm (\<lambda>_. True) (\<lambda>_. False) (sys (\<lambda>_. Read fd n) call)"
  by (rule io_spec_sys) (simp_all add: calm_def plain_def quiet_def)

lemma wp_cgi_finished:
  assumes "good base s" and "heap s this = Some (Cgi g)"
    and Q: "\<And>s'. kept base s s' \<Longrightarrow> Q () s'" and E: "\<And>e s'. kept base s s' \<Longrightarrow> E e s'"
  shows "wp (cgi_finished os epoll_fd this) Q E s"
proof -
  let ?told = "\<lambda>status. case cgs_owner g of
       None \<Rightarrow> act_return ()
     | Some p \<Rightarrow> (if status = Some 0 then OnCgiExecutionFinished os epoll_fd p (so_read_buffer g)
                 else OnCgiExecutionError os epoll_fd p)"
  have told: "wp (?told status) Q E s'" if k: "kept base s s'" for s' status
  proof (cases "cgs_owner g")
    case (Some p)
    obtain o1 where "heap s p = Some o1" "fst (obj_shape (Cgi g)) + fst (obj_shape o1) = 1"
      by (rule linked_D [OF heap_ok_D(1) [OF good_D(1) [OF assms(1)]] assms(2)]) (use Some in auto)
    then obtain c where c: "heap s p = Some (Client c)" by (cases o1) auto
    then obtain c' where c': "heap s' p = Some (Client c')" using kept_client [OF k c] by blast
    note ends = wp_OnCgiExecutionFinished [OF kept_good [OF k] c'] wp_OnCgiExecutionError [OF kept_good [OF k] c']
    have "wp (OnCgiExecutionFinished os epoll_fd p (so_read_buffer g)) Q E s'" "wp (OnCgiExecutionError os epoll_fd p) Q E s'"
      by (rule ends, use Q kept_trans [OF k] in blast)+
    then show ?thesis using Some by simp
  qed (simp add: wp_return Q k)
  have "wp (run_io (call_waitpid os (cgs_pid g))) (\<lambda>status. wp (store this (Cgi (g\<lparr>cgs_pid := -1\<rparr>)))
      (\<lambda>_. wp (unwatch os epoll_fd (so_fd g)) (\<lambda>r. wp (case r of
          Some e \<Rightarrow> act_throw (ResponseStatusException (MapErrnoToHttpStatus e)) | None \<Rightarrow> ?told status) Q E) E) E) E s"
  proof (rule wp_calm [OF assms(1) Waitpid_calm])
    fix status s1
    assume s1: "kept base s s1" "heap s1 = heap s"
    then have g1: "heap s1 this = Some (Cgi g)" using assms(2) by simp
    show "wp (store this (Cgi (g\<lparr>cgs_pid := -1\<rparr>)))
      (\<lambda>_. wp (unwatch os epoll_fd (so_fd g)) (\<lambda>r. wp (case r of
          Some e \<Rightarrow> act_throw (ResponseStatusException (MapErrnoToHttpStatus e)) | None \<Rightarrow> ?told status) Q E) E) E s1"
    proof (rule wp_store_kept [OF kept_good [OF s1(1)] g1])
      fix s2
      assume s2: "kept base s1 s2"
      show "wp (unwatch os epoll_fd (so_fd g)) (\<lambda>r. wp (case r of
          Some e \<Rightarrow> act_throw (ResponseStatusException (MapErrnoToHttpStatus e)) | None \<Rightarrow> ?told status) Q E) E s2"
      proof (rule wp_unwatch [OF kept_good [OF s2]])
        fix r s3
        assume "kept base s2 s3"
        then have k: "kept base s s3" using s1(1) s2 kept_trans by blast
        show "wp (case r of Some e \<Rightarrow> act_throw (ResponseStatusException (MapErrnoToHttpStatus e))
          | None \<Rightarrow> ?told status) Q E s3"
          using told [OF k] E [OF k] by (cases r) (simp_all add: wp_throw)
      qed
    qed simp_all
  qed simp
  then show ?thesis by (simp add: cgi_finished_def wp_bind wp_load_cgi assms(2))
qed

lemma wp_cgi_HandleEvent:
  assumes "good base s" and "heap s this = Some (Cgi g)"
    and Q: "\<And>r s'. handled base s r s' \<Longrightarrow> Q r s'"
  shows "wp (cgi_HandleEvent os epoll_fd this events) Q E s"
proof -
  let ?removed = "SocketResult_init\<lparr>sr_remove_socket := True\<rparr>"
  let ?exc = "\<lambda>e::exn. act_bind (load_cgi this) (\<lambda>g. act_bind (unwatch os epoll_fd (so_fd g)) (\<lambda>_. act_return ?removed))"
  have Q1: "Q SocketResult_init s'" "Q ?removed s'" if "kept base s s'" for s'
    using Q handled_none [OF that] by simp_all
  have exc: "wp (?exc e) Q E s'" if k: "kept base s s'" for e s'
  proof -
    obtain g' where "heap s' this = Some (Cgi g')" using kept_cgi [OF k assms(2)] by blast
    moreover have "wp (unwatch os epoll_fd fd) (\<lambda>_. Q ?removed) E s'" for fd
      by (rule wp_unwatch [OF kept_good [OF k]]) (use Q1(2) kept_trans [OF k] in blast)
    ultimately show ?thesis by (simp add: wp_bind wp_load_cgi wp_return)
  qed
  let ?read = "run_io (sys (\<lambda>_. Read (so_fd g) kBufferSize) (os_read os (so_fd g) kBufferSize))"
  let ?cont = "\<lambda>n. case n of
       Some (c # buf) \<Rightarrow> act_bind (store this (Cgi (g\<lparr>so_read_buffer := so_read_buffer g @ c # buf\<rparr>))) (\<lambda>_.
           act_return SocketResult_init)
     | _ \<Rightarrow> act_bind (cgi_finished os epoll_fd this) (\<lambda>_. act_return ?removed)"
  have "wp ?read (\<lambda>n. wp (?cont n) Q (\<lambda>e. wp (?exc e) Q E)) (\<lambda>e. wp (?exc e) Q E) s"
  proof (rule wp_calm [OF assms(1) Read_calm])
    fix n s1
    assume s1: "kept base s s1" "heap s1 = heap s"
    then have g1: "heap s1 this = Some (Cgi g)" using assms(2) by simp
    have "wp (store this (Cgi (g\<lparr>so_read_buffer := so_read_buffer g @ buf\<rparr>))) (\<lambda>_. Q SocketResult_init) E' s1" for buf E'
      by (rule wp_store_kept [OF kept_good [OF s1(1)] g1]) (use Q1(1) kept_trans [OF s1(1)] in auto)
    moreover have "wp (cgi_finished os epoll_fd this) (\<lambda>_. Q ?removed) (\<lambda>e. wp (?exc e) Q E) s1"
      by (rule wp_cgi_finished [OF kept_good [OF s1(1)] g1])
         (use Q1(2) exc kept_trans [OF s1(1)] in blast)+
    ultimately show "wp (?cont n) Q (\<lambda>e. wp (?exc e) Q E) s1"
      by (simp add: wp_bind wp_return split: option.split list.split)
  qed simp
  then show ?thesis using Q1(1) [OF kept_refl [OF assms(1)]]
    by (cases "events AND EPOLLIN = 0")
       (simp_all add: cgi_HandleEvent_def wp_bind wp_try wp_load_cgi wp_return assms(2))
qed

subsection \<open>A new connection\<close>

lemma ClientSocket_init_accounts:
  "accounts (\<lambda>c. so_fd c = fd \<and> fd \<noteq> -1) (\<lambda>_ _. 0) (\<lambda>x. - only_fd fd x) (ClientSocket_init os fd config ip)"
  unfolding ClientSocket_init_def
  by (rule accounts_bind [OF accounts_ASocket_init]) (simp add: accounts_return asocket.defs)

lemma ClientSocket_init_plain:
  "io_spec plain (\<lambda>c. cl_cgi_socket c = None \<and> so_write_buffer c = []) (\<lambda>_. True) (ClientSocket_init os fd config ip)"
proof -
  have "io_spec plain (\<lambda>s. so_write_buffer s = []) (\<lambda>_. True) (ASocket_init os fd)"
    by (rule io_spec_weaken [OF ASocket_init_spec]) (auto simp: on_fd_def plain_def)
  then show ?thesis unfolding ClientSocket_init_def
    by (rule io_spec_bind) (rule io_spec_return, simp add: asocket.defs)
qed

text \<open>The account and the class of the calls of one function together.\<close>

lemma wp_plain_account:
  assumes "log_ok base sh (calls s)" and "io_spec plain R0 E0 f" and "accounts R B B' f"
    and "\<And>x w cs. R x \<Longrightarrow> R0 x \<Longrightarrow> log_ok (\<lambda>fd. base fd + B x fd) sh (calls s @ cs) \<Longrightarrow> Q x (s\<lparr>world := w, calls := calls s @ cs\<rparr>)"
    and "\<And>e w cs. E0 e \<Longrightarrow> log_ok (\<lambda>fd. base fd + B' fd) sh (calls s @ cs) \<Longrightarrow> E e (s\<lparr>world := w, calls := calls s @ cs\<rparr>)"
  shows "wp (run_io f) Q E s"
proof -
  define m where "m = \<lparr>world = world s, calls = calls s\<rparr>"
  obtain r m' where f: "f m = (r, m')" by (cases "f m")
  obtain cs where cs: "calls m' = calls m @ cs" "list_all plain cs"
    using io_spec_D(1) [OF assms(2) f] by blast
  have "\<exists>cs. calls (snd (f m)) = calls m @ cs \<and>
      (case fst (f m) of Inr x \<Rightarrow> R x \<and> (\<forall>fd. fd_balance fd cs = B x fd) | Inl e \<Rightarrow> \<forall>fd. fd_balance fd cs = B' fd)"
    using assms(3) unfolding accounts_def by (rule spec)
  then have b: "case r of Inr x \<Rightarrow> R x \<and> (\<forall>fd. fd_balance fd cs = B x fd) | Inl e \<Rightarrow> \<forall>fd. fd_balance fd cs = B' fd"
    using f cs(1) by auto
  show ?thesis
  proof (cases r)
    case (Inl e)
    then show ?thesis using assms(5) [OF io_spec_D(3) [OF assms(2) f Inl] log_ok_plain [where d = B', OF assms(1) cs(2)]] b cs(1)
      by (simp add: wp_def run_io_def f [unfolded m_def] m_def)
  next
    case (Inr x)
    then show ?thesis using assms(4) [OF _ io_spec_D(2) [OF assms(2) f Inr] log_ok_plain [where d = "B x", OF assms(1) cs(2)]] b cs(1)
      by (simp add: wp_def run_io_def f [unfolded m_def] m_def)
  qed
qed

lemma Accept_plain: "io_spec plain (\<lambda>_. True) (\<lambda>_. False) (sys (Accept fd) call)"
  by (rule io_spec_sys) (simp_all add: plain_def)

lemma Accept_accounts:
  assumes "os_ok os"
  shows "accounts (\<lambda>r. \<forall>c addr. r = Some (c, addr) \<longrightarrow> 0 \<le> c)
     (\<lambda>r fd. case r of Some (c, addr) \<Rightarrow> only_fd c fd | None \<Rightarrow> 0) (\<lambda>_. 0) (sys (Accept v) (os_accept os v))"
  by (rule accounts_sys) (auto simp: only_fd_def dest: os_ok_D(2) [OF assms] split: option.splits)

lemma wp_server_HandleEvent:
  assumes "os_ok os" and "good base s" and "heap s this = Some (Server v)"
    and Q: "\<And>r s'. handled base s r s' \<Longrightarrow> Q r s'"
  shows "wp (server_HandleEvent os this events) Q E s"
proof -
  note log = good_D(2) [OF assms(2)] and heap = good_D(1) [OF assms(2)]
  have none: "Q SocketResult_init (s\<lparr>world := w, calls := calls s @ cs\<rparr>)"
    if "log_ok base (shape (heap s)) (calls s @ cs)" for w cs
    by (rule Q, rule handled_none) (use that heap in \<open>simp add: kept_def good_def\<close>)
  let ?new = "\<lambda>client_fd addr. act_bind (act_try (run_io (ClientSocket_init os client_fd (ss_config v) (Ipv4ToString addr))))
      (\<lambda>res. case res of
          Inl e \<Rightarrow> act_return SocketResult_init
        | Inr c \<Rightarrow> act_bind (create (Client c)) (\<lambda>p. act_return (SocketResult_init\<lparr>sr_new_socket := Some p\<rparr>)))"
  have "wp (run_io (sys (Accept (so_fd v)) (os_accept os (so_fd v)))) (\<lambda>r. wp (case r of
        None \<Rightarrow> act_return SocketResult_init | Some (client_fd, addr) \<Rightarrow> ?new client_fd addr) Q E) E s"
  proof (rule wp_plain_account [OF log Accept_plain Accept_accounts [OF assms(1)]])
    fix r :: "(int \<times> 32 word) option" and w cs
    let ?s1 = "s\<lparr>world := w, calls := calls s @ cs\<rparr>"
    assume r: "\<forall>c addr. r = Some (c, addr) \<longrightarrow> 0 \<le> c"
      and l1: "log_ok (\<lambda>fd. base fd + (case r of Some (c, addr) \<Rightarrow> only_fd c fd | None \<Rightarrow> 0)) (shape (heap s)) (calls s @ cs)"
    show "wp (case r of None \<Rightarrow> act_return SocketResult_init | Some (client_fd, addr) \<Rightarrow> ?new client_fd addr) Q E ?s1"
    proof (cases r)
      case None
      then show ?thesis using none l1 by (simp add: wp_return)
    next
      case (Some p)
      obtain fd addr where p: "p = (fd, addr)" by (cases p)
      have fd: "fd \<noteq> -1" using r Some p by auto
      have l1: "log_ok (\<lambda>x. base x + only_fd fd x) (shape (heap s)) (calls ?s1)" using l1 Some p by simp
      have "wp (run_io (ClientSocket_init os fd (ss_config v) (Ipv4ToString addr)))
         (\<lambda>c. wp (create (Client c)) (\<lambda>p. Q (SocketResult_init\<lparr>sr_new_socket := Some p\<rparr>)) E)
         (\<lambda>e. Q SocketResult_init) ?s1"
      proof (rule wp_plain_account [OF l1 ClientSocket_init_plain ClientSocket_init_accounts])
        fix c :: client_socket and w' cs'
        let ?s2 = "?s1\<lparr>world := w', calls := calls ?s1 @ cs'\<rparr>"
        assume c: "so_fd c = fd \<and> fd \<noteq> -1" "cl_cgi_socket c = None \<and> so_write_buffer c = []"
          and l2: "log_ok (\<lambda>x. base x + only_fd fd x + 0) (shape (heap s)) (calls ?s1 @ cs')"
        have g: "good (\<lambda>x. base x + (if x = obj_fd (Client c) then 1 else 0)) ?s2"
          using l2 heap c by (simp add: good_def only_fd_def)
        show "wp (create (Client c)) (\<lambda>p. Q (SocketResult_init\<lparr>sr_new_socket := Some p\<rparr>)) E ?s2"
          by (rule wp_create_good [OF g], insert c) (auto intro!: Q intro: handled_new)
      next
        fix e w' cs'
        assume "log_ok (\<lambda>x. base x + only_fd fd x + - only_fd fd x) (shape (heap s)) (calls ?s1 @ cs')"
        then show "Q SocketResult_init (?s1\<lparr>world := w', calls := calls ?s1 @ cs'\<rparr>)"
          using none [of "cs @ cs'" w'] by simp
      qed
      then show ?thesis by (simp add: Some p wp_bind wp_try wp_return)
    qed
  qed simp
  then show ?thesis using Q handled_none [OF kept_refl [OF assms(2)]]
    by (simp add: server_HandleEvent_def wp_bind wp_load wp_return assms(3))
qed

subsection \<open>Virtual functions and \<open>delete\<close>\<close>

lemma wp_HandleEvent:
  assumes "os_ok os" and "good base s" and "heap s p = Some obj" and "\<And>r s'. handled base s r s' \<Longrightarrow> Q r s'"
  shows "wp (HandleEvent os left epoll_fd p events) Q E s"
  using assms
  by (cases obj)
     (simp_all add: HandleEvent_def wp_bind wp_load wp_client_HandleEvent wp_cgi_HandleEvent wp_server_HandleEvent)

lemma wp_HandleTimeout:
  assumes "good base s" and "heap s p = Some obj" and "\<And>s'. kept base s s' \<Longrightarrow> Q () s'"
  shows "wp (HandleTimeout os epoll_fd p) Q E s"
  using assms kept_refl [OF assms(1)]
  by (cases obj) (simp_all add: HandleTimeout_def wp_bind wp_load wp_client_HandleTimeout wp_return)

text \<open>The heap when the destructor of the class has run.\<close>

definition unlinked :: "(nat \<Rightarrow> obj option) \<Rightarrow> obj \<Rightarrow> (nat \<Rightarrow> obj option)" where
  "unlinked h obj =
     (case obj_link obj of None \<Rightarrow> h | Some q \<Rightarrow> (case h q of None \<Rightarrow> h | Some obj' \<Rightarrow> h(q \<mapsto> unlink obj')))"

lemma unlinked_ok:
  assumes "heap_ok h n" and "h p = Some obj"
  shows "heap_ok ((unlinked h obj)(p := None)) n" and "shape (unlinked h obj) = shape h"
proof -
  show "heap_ok ((unlinked h obj)(p := None)) n"
  proof (cases "obj_link obj")
    case None
    then show ?thesis using heap_ok_delete [OF assms] by (simp add: unlinked_def)
  next
    case (Some q)
    obtain obj' where "h q = Some obj'" by (rule linked_D [OF heap_ok_D(1) [OF assms(1)] assms(2) Some])
    then show ?thesis using heap_ok_delete_linked [OF assms Some] Some by (simp add: unlinked_def)
  qed
  show "shape (unlinked h obj) = shape h"
    by (auto simp: unlinked_def shape_same split: option.split)
qed

lemma kill_calm:
  "io_spec calm (\<lambda>_. True) (\<lambda>_. False)
     (io_bind (sys (\<lambda>_. Kill pid) call) (\<lambda>_. io_bind (call_waitpid os pid) (\<lambda>_. io_return ())))"
  by (intro io_spec_step [OF io_spec_sys] io_spec_step [OF Waitpid_calm] io_spec_return)
     (simp_all add: calm_def plain_def quiet_def)

lemma log_ok_calm:
  assumes "log_ok base sh cs0" and "list_all calm cs"
  shows "log_ok base sh (cs0 @ cs)"
proof -
  have p: "list_all plain cs" "list_all quiet cs" using assms(2) by (auto simp: calm_def list_all_iff)
  then have "fd_balance fd cs = 0" for fd by (simp add: quiet_balance)
  from log_ok_plain [OF assms(1) p(1) this] show ?thesis by simp
qed

lemma wp_delete_socket:
  assumes "good base s" and "heap s p = Some obj"
    and Q: "\<And>s'. good base s' \<Longrightarrow> shape (heap s') = (shape (heap s))(p := None) \<Longrightarrow> prefix (calls s) (calls s') \<Longrightarrow> Q () s'"
  shows "wp (delete_socket os p) Q E s"
proof -
  note heap = good_D(1) [OF assms(1)] and log = good_D(2) [OF assms(1)]
  let ?h = "unlinked (heap s) obj"
  have finish: "wp (act_bind (run_io (Fd_destroy os (obj_fd obj))) (\<lambda>_. release p)) Q E s1"
    if "heap s1 = ?h" "next_address s1 = next_address s" "log_ok base (shape (heap s)) (calls s1)"
      "prefix (calls s) (calls s1)" for s1
  proof (rule wp_close_release [OF that(3) assms(2)])
    show "obj_fd obj \<noteq> -1" by (rule heap_ok_D(3) [OF heap assms(2)])
    show "shape (heap s1) = shape (heap s)" using unlinked_ok(2) [OF heap assms(2)] that(1) by simp
    show "heap_ok ((heap s1)(p := None)) (next_address s1)" using unlinked_ok(1) [OF heap assms(2)] that(1,2) by simp
  qed (use Q that(4) prefix_order.trans in blast)
  show ?thesis
  proof (cases obj)
    case (Client c)
    have "wp (ClientSocket_destroy p) (\<lambda>_. wp (act_bind (run_io (Fd_destroy os (obj_fd obj))) (\<lambda>_. release p)) Q E) E s"
    proof (cases "cl_cgi_socket c")
      case None
      then show ?thesis using assms(2) Client finish [of s] log
        by (simp add: ClientSocket_destroy_def wp_bind wp_load_client wp_return unlinked_def)
    next
      case (Some q)
      obtain obj' where q: "heap s q = Some obj'" "fst (obj_shape obj) + fst (obj_shape obj') = 1"
        by (rule linked_D [OF heap_ok_D(1) [OF heap] assms(2)]) (use Client Some in auto)
      then obtain g where g: "obj' = Cgi g" using Client by (cases obj') auto
      then show ?thesis using assms(2) Client Some q finish [of "s\<lparr>heap := ?h\<rparr>"] log
        by (simp add: ClientSocket_destroy_def OnSetOwner_def wp_bind wp_load wp_load_client wp_store unlinked_def)
    qed
    then show ?thesis using assms(2) Client by (simp add: delete_socket_def wp_bind wp_load)
  next
    case (Server v)
    then show ?thesis using assms(2) finish [of s] log
      by (simp add: delete_socket_def wp_bind wp_load wp_return unlinked_def)
  next
    case (Cgi g)
    let ?finish = "act_bind (run_io (Fd_destroy os (obj_fd obj))) (\<lambda>_. release p)"
    let ?kill = "if 0 < cgs_pid g then
         run_io (io_bind (sys (\<lambda>_. Kill (cgs_pid g)) (os_kill os (cgs_pid g))) (\<lambda>_.
           io_bind (call_waitpid os (cgs_pid g)) (\<lambda>_. io_return ())))
       else act_return ()"
    have kill: "wp ?kill (\<lambda>_. wp ?finish Q E) E s1"
      if "heap s1 = ?h" "next_address s1 = next_address s" "log_ok base (shape (heap s)) (calls s1)"
        "prefix (calls s) (calls s1)" for s1
    proof (cases "0 < cgs_pid g")
      case True
      have "wp (run_io (io_bind (sys (\<lambda>_. Kill (cgs_pid g)) (os_kill os (cgs_pid g))) (\<lambda>_.
           io_bind (call_waitpid os (cgs_pid g)) (\<lambda>_. io_return ())))) (\<lambda>_. wp ?finish Q E) E s1"
        by (rule wp_run_io [OF kill_calm], rule finish) (use that log_ok_calm in \<open>auto simp: prefix_def\<close>)
      then show ?thesis using True by simp
    next
      case False
      then show ?thesis using finish [OF that] by (simp add: wp_return)
    qed
    have "wp (CgiSocket_destroy os p) (\<lambda>_. wp ?finish Q E) E s"
    proof (cases "cgs_owner g")
      case None
      then show ?thesis using assms(2) Cgi kill [of s] log
        by (simp add: CgiSocket_destroy_def wp_bind wp_load_cgi wp_return unlinked_def)
    next
      case (Some q)
      obtain obj' where q: "heap s q = Some obj'" "obj_link obj' = Some p" "fst (obj_shape obj) + fst (obj_shape obj') = 1"
        by (rule linked_D [OF heap_ok_D(1) [OF heap] assms(2)]) (use Cgi Some in auto)
      then obtain c where c: "obj' = Client c" using Cgi by (cases obj') auto
      then show ?thesis using assms(2) Cgi Some q kill [of "s\<lparr>heap := ?h\<rparr>"] log
        by (simp add: CgiSocket_destroy_def RemoveCgiSocket_def wp_bind wp_load_cgi wp_load_client wp_store unlinked_def)
    qed
    then show ?thesis using assms(2) Cgi by (simp add: delete_socket_def wp_bind wp_load)
  qed
qed

end
