(* ===== verification/Event_Loop_Invariant.thy ===== *)
theory Event_Loop_Invariant
  imports Socket_Safety
begin

text \<open>
  The invariant of the event loop, from the construction of the server on: \<open>sockets_\<close> holds, by
  their descriptors, live objects, and all of them as long as the system never hands out a
  descriptor that is open. With it the loop and the timeouts are defined in every reachable
  state, start-up that fails and shutdown release everything, and what is ever sent is part of a
  response in proper form.
\<close>

subsection \<open>Descriptors that the system hands out\<close>

text \<open>No descriptor is opened while it is open.\<close>

definition fresh_log :: "syscall list \<Rightarrow> bool" where
  "fresh_log cs \<longleftrightarrow>
     list_all (\<lambda>cs'. list_all (\<lambda>fd. fd_balance fd cs' \<le> 1) (concat (map opened cs'))) (prefixes cs)"

lemma fresh_log_prefix: "fresh_log cs \<Longrightarrow> prefix cs' cs \<Longrightarrow> fresh_log cs'"
  unfolding fresh_log_def list_all_iff by (auto intro: prefix_order.trans)

lemma not_opened_balance: "fd \<notin> set (concat (map opened cs)) \<Longrightarrow> fd_balance fd cs \<le> 0"
proof (induction cs)
  case (Cons c cs)
  then have "count_list (opened c) fd = 0" by (simp add: count_list_0_iff)
  then show ?case using Cons by simp
qed simp

lemma fresh_log_balance: "fresh_log cs \<Longrightarrow> fd_balance fd cs \<le> 1"
proof (cases "fd \<in> set (concat (map opened cs))")
  case False
  then show ?thesis using not_opened_balance [OF False] by simp
qed (auto simp: fresh_log_def list_all_iff)

subsection \<open>The invariant\<close>

definition sockets_live :: "webserv \<Rightarrow> (nat \<Rightarrow> (nat \<times> int) option) \<Rightarrow> bool" where
  "sockets_live ws sh \<longleftrightarrow>
     map_wf (ws_sockets ws) \<and> (\<forall>fd p. map_get (ws_sockets ws) fd = Some p \<longrightarrow> p \<in> owners sh fd)"

definition sockets_complete :: "webserv \<Rightarrow> (nat \<Rightarrow> (nat \<times> int) option) \<Rightarrow> bool" where
  "sockets_complete ws sh \<longleftrightarrow> (\<forall>fd p. p \<in> owners sh fd \<longrightarrow> map_get (ws_sockets ws) fd = Some p)"

definition loop_ok :: "webserv \<Rightarrow> 'w server \<Rightarrow> bool" where
  "loop_ok ws s \<longleftrightarrow>
     good (only_fd (ws_epoll_fd ws)) s \<and> sockets_live ws (shape (heap s)) \<and>
     (fresh_log (calls s) \<longrightarrow> sockets_complete ws (shape (heap s)))"

text \<open>One step of the loop.\<close>

definition turned :: "webserv \<Rightarrow> 'w server \<Rightarrow> webserv \<Rightarrow> 'w server \<Rightarrow> bool" where
  "turned ws s ws' s' \<longleftrightarrow> loop_ok ws' s' \<and> prefix (calls s) (calls s') \<and> ws_epoll_fd ws' = ws_epoll_fd ws"

lemma turned_refl: "loop_ok ws s \<Longrightarrow> turned ws s ws s"
  by (simp add: turned_def)

lemma turned_trans: "turned ws s ws1 s1 \<Longrightarrow> turned ws1 s1 ws2 s2 \<Longrightarrow> turned ws s ws2 s2"
  by (auto simp: turned_def intro: prefix_order.trans)

lemma loop_ok_D:
  assumes "loop_ok ws s"
  shows "good (only_fd (ws_epoll_fd ws)) s" and "sockets_live ws (shape (heap s))"
    and "fresh_log (calls s) \<Longrightarrow> sockets_complete ws (shape (heap s))"
    and "map_wf (ws_sockets ws)"
    and "map_get (ws_sockets ws) fd = Some p \<Longrightarrow> p \<in> owners (shape (heap s)) fd"
  using assms by (auto simp: loop_ok_def sockets_live_def)

lemma loop_ok_I:
  assumes "good (only_fd (ws_epoll_fd ws)) s" and "map_wf m"
    and "\<And>fd p. map_get m fd = Some p \<Longrightarrow> p \<in> owners (shape (heap s)) fd"
    and "\<And>fd p. fresh_log (calls s) \<Longrightarrow> p \<in> owners (shape (heap s)) fd \<Longrightarrow> map_get m fd = Some p"
  shows "loop_ok (ws\<lparr>ws_sockets := m\<rparr>) s"
proof -
  have "sockets_live (ws\<lparr>ws_sockets := m\<rparr>) (shape (heap s))"
    using assms(2,3) by (auto simp: sockets_live_def)
  moreover have "fresh_log (calls s) \<longrightarrow> sockets_complete (ws\<lparr>ws_sockets := m\<rparr>) (shape (heap s))"
    using assms(4) by (auto simp: sockets_complete_def)
  ultimately show ?thesis unfolding loop_ok_def using assms(1) by simp
qed

lemma owners_obj: "p \<in> owners (shape h) fd \<longleftrightarrow> (\<exists>obj. h p = Some obj \<and> obj_fd obj = fd)"
  by (auto simp: owners_def shape_def obj_fd_shape) (metis prod.collapse)

lemma owners_one_fd: "p \<in> owners sh fd \<Longrightarrow> p \<in> owners sh fd' \<Longrightarrow> fd = fd'"
  by (auto simp: owners_def)

lemma kept_loop:
  assumes "kept (only_fd (ws_epoll_fd ws)) s s'" and "loop_ok ws s"
  shows "turned ws s ws s'"
  using assms by (auto simp: turned_def loop_ok_def kept_def intro: fresh_log_prefix)

text \<open>With a system that hands out no descriptor twice a descriptor has at most one owner.\<close>

lemma fresh_owners:
  assumes "good (only_fd e) s" and "fresh_log (calls s)" and "p \<in> owners (shape (heap s)) fd" and "q \<in> owners (shape (heap s)) fd"
  shows "p = q"
proof -
  let ?o = "owners (shape (heap s)) fd"
  have log: "finite (dom (shape (heap s)))" "fd_balance fd (calls s) = int (card ?o) + only_fd e fd"
    using good_D(2) [OF assms(1)] by (simp_all add: log_ok_def)
  have "fd_balance fd (calls s) \<le> 1" by (rule fresh_log_balance [OF assms(2)])
  then have "card ?o \<le> Suc 0" using log(2) by (simp add: only_fd_def split: if_splits)
  then show ?thesis using assms(3,4) owners_finite [OF log(1)] by (simp add: card_le_Suc0_iff_eq)
qed

subsection \<open>One socket more, one socket less\<close>

lemma loop_ok_add:
  assumes "loop_ok ws s" and "good (only_fd (ws_epoll_fd ws)) s1"
    and sh: "shape (heap s1) = (shape (heap s))(q \<mapsto> (k, fd))" and q: "shape (heap s) q = None"
    and "prefix (calls s) (calls s1)"
  shows "loop_ok (ws\<lparr>ws_sockets := map_put fd q (ws_sockets ws)\<rparr>) s1"
proof -
  let ?m = "ws_sockets ws"
  note own = owners_update [where sh = "shape (heap s)" and k = k and fd = fd, OF q]
  have live: "p \<in> owners (shape (heap s1)) x" if "map_get (map_put fd q ?m) x = Some p" for x p
    using that loop_ok_D(5) [OF assms(1), of x p] by (auto simp: sh own split: if_splits)
  have complete: "map_get (map_put fd q ?m) x = Some p"
    if fresh: "fresh_log (calls s1)" and p: "p \<in> owners (shape (heap s1)) x" for x p
  proof (cases "x = fd")
    case True
    have "q \<in> owners (shape (heap s1)) fd" by (simp add: sh own)
    then have "p = q" using fresh_owners [OF assms(2) fresh] p True by blast
    then show ?thesis using True by simp
  next
    case False
    then have "p \<in> owners (shape (heap s)) x" using p by (simp add: sh own)
    then show ?thesis
      using loop_ok_D(3) [OF assms(1) fresh_log_prefix [OF fresh assms(5)]] False by (simp add: sockets_complete_def)
  qed
  show ?thesis
    using assms(2) map_wf_put [OF loop_ok_D(4) [OF assms(1)]] live complete by (rule loop_ok_I)
qed

lemma loop_ok_delete:
  assumes "loop_ok ws s" and "p \<in> owners (shape (heap s)) fd" and "good (only_fd (ws_epoll_fd ws)) s1"
    and sh: "shape (heap s1) = (shape (heap s))(p := None)" and "prefix (calls s) (calls s1)"
  shows "loop_ok (ws\<lparr>ws_sockets := map_del fd (ws_sockets ws)\<rparr>) s1"
proof -
  let ?m = "ws_sockets ws"
  have wf: "map_wf ?m" by (rule loop_ok_D(4) [OF assms(1)])
  have live: "q \<in> owners (shape (heap s1)) x" if "map_get (map_del fd ?m) x = Some q" for x q
    using that loop_ok_D(5) [OF assms(1), of x q] owners_one_fd [OF assms(2), of x]
    by (auto simp: sh owners_delete map_get_del [OF wf] split: if_splits)
  have complete: "map_get (map_del fd ?m) x = Some q"
    if fresh: "fresh_log (calls s1)" and q: "q \<in> owners (shape (heap s1)) x" for x q
  proof -
    have c: "sockets_complete ws (shape (heap s))"
      by (rule loop_ok_D(3) [OF assms(1) fresh_log_prefix [OF fresh assms(5)]])
    then have "map_get ?m x = Some q" "map_get ?m fd = Some p" "q \<noteq> p"
      using q assms(2) by (auto simp: sockets_complete_def sh owners_delete)
    then show ?thesis by (auto simp: map_get_del [OF wf])
  qed
  show ?thesis
    using assms(3) map_wf_del [OF wf] live complete by (rule loop_ok_I)
qed

lemma wp_add_socket:
  fixes s s1 :: "'w server"
  assumes "loop_ok ws s" and "good (only_fd (ws_epoll_fd ws)) s1" and "prefix (calls s) (calls s1)"
    and sh: "shape (heap s1) = (shape (heap s))(q \<mapsto> (k, fd))" and q: "shape (heap s) q = None"
    and Q: "\<And>ws' s'. turned ws s ws' s' \<Longrightarrow> shape (heap s') = shape (heap s) \<or> shape (heap s') = shape (heap s1) \<Longrightarrow> Q ws' s'"
  shows "wp (add_socket os ws q) Q E s1"
proof -
  have "q \<in> owners (shape (heap s1)) fd" by (simp add: sh owners_def)
  then obtain obj where obj: "heap s1 q = Some obj" "obj_fd obj = fd" by (auto simp: owners_obj)
  let ?ws = "ws\<lparr>ws_sockets := map_put fd q (ws_sockets ws)\<rparr>"
  let ?rest = "\<lambda>r. if r \<noteq> None then
      act_bind (delete_socket os q) (\<lambda>_. act_return (?ws\<lparr>ws_sockets := map_del fd (ws_sockets ?ws)\<rparr>))
    else act_return ?ws"
  have ok1: "loop_ok ?ws s1" by (rule loop_ok_add [OF assms(1,2) sh q assms(3)])
  have "wp (run_io (call_epoll_ctl os (ws_epoll_fd ?ws) EPOLL_CTL_ADD fd EPOLLIN (Some q))) (\<lambda>r. wp (?rest r) Q E) E s1"
  proof (rule wp_epoll_ctl [OF assms(2)])
    fix r and s2 :: "'w server"
    assume s2: "kept (only_fd (ws_epoll_fd ws)) s1 s2" "heap s2 = heap s1"
    have "turned ?ws s1 ?ws s2" by (rule kept_loop [OF _ ok1]) (simp add: s2(1))
    then have t2: "turned ws s ?ws s2" "loop_ok ?ws s2"
      using assms(3) by (auto simp: turned_def intro: prefix_order.trans)
    have own: "q \<in> owners (shape (heap s2)) fd" using obj s2(2) by (auto simp: owners_obj)
    have "wp (delete_socket os q) (\<lambda>_. Q (?ws\<lparr>ws_sockets := map_del fd (ws_sockets ?ws)\<rparr>)) E s2"
    proof (rule wp_delete_socket [OF kept_good [OF s2(1)]])
      show "heap s2 q = Some obj" using obj(1) s2(2) by simp
      fix s3 :: "'w server"
      assume s3: "good (only_fd (ws_epoll_fd ws)) s3" "shape (heap s3) = (shape (heap s2))(q := None)" "prefix (calls s2) (calls s3)"
      have "loop_ok (?ws\<lparr>ws_sockets := map_del fd (ws_sockets ?ws)\<rparr>) s3"
        by (rule loop_ok_delete [OF t2(2) own _ s3(2,3)]) (simp add: s3(1))
      then have "turned ws s (?ws\<lparr>ws_sockets := map_del fd (ws_sockets ?ws)\<rparr>) s3"
        using t2(1) s3(3) by (auto simp: turned_def intro: prefix_order.trans)
      moreover have "shape (heap s3) = shape (heap s)" using s3(2) s2(2) sh q by (simp add: fun_eq_iff)
      ultimately show "Q (?ws\<lparr>ws_sockets := map_del fd (ws_sockets ?ws)\<rparr>) s3" using Q by blast
    qed
    moreover have "Q ?ws s2" using Q [OF t2(1)] s2(2) by simp
    ultimately show "wp (?rest r) Q E s2" by (cases r) (simp_all add: wp_bind wp_return)
  qed (use obj in auto)
  then show ?thesis by (simp only: add_socket_def Let_def wp_bind wp_load obj option.case)
qed

lemma wp_remove_socket:
  fixes s :: "'w server"
  assumes "loop_ok ws s" and "shape (heap s) p = Some (k, fd)"
    and Q: "\<And>ws' s'. turned ws s ws' s' \<Longrightarrow> shape (heap s') = (shape (heap s))(p := None) \<Longrightarrow> Q ws' s'"
  shows "wp (remove_socket os ws p) Q E s"
proof -
  have own: "p \<in> owners (shape (heap s)) fd" using assms(2) by (auto simp: owners_def)
  then obtain obj where obj: "heap s p = Some obj" "obj_fd obj = fd" by (auto simp: owners_obj)
  have "wp (delete_socket os p) (\<lambda>_. Q (ws\<lparr>ws_sockets := map_del fd (ws_sockets ws)\<rparr>)) E s"
  proof (rule wp_delete_socket [OF loop_ok_D(1) [OF assms(1)] obj(1)])
    fix s1 :: "'w server"
    assume s1: "good (only_fd (ws_epoll_fd ws)) s1" "shape (heap s1) = (shape (heap s))(p := None)" "prefix (calls s) (calls s1)"
    then have "turned ws s (ws\<lparr>ws_sockets := map_del fd (ws_sockets ws)\<rparr>) s1"
      using loop_ok_delete [OF assms(1) own s1] by (simp add: turned_def)
    then show "Q (ws\<lparr>ws_sockets := map_del fd (ws_sockets ws)\<rparr>) s1" using Q s1(2) by blast
  qed
  then show ?thesis by (simp add: remove_socket_def wp_bind wp_load wp_return obj)
qed

subsection \<open>The loop over the events\<close>

lemma handled_live:
  assumes "handled base s r s'" and "shape (heap s) p = Some x"
  shows "shape (heap s') p = Some x"
  using assms by (cases "sr_new_socket r") (auto simp: handled_def)

lemma wp_new_socket:
  fixes s s1 :: "'w server"
  assumes "loop_ok ws s" and "handled (only_fd (ws_epoll_fd ws)) s r s1"
    and Q: "\<And>ws' s'. turned ws s ws' s' \<Longrightarrow> (\<And>p x. shape (heap s) p = Some x \<Longrightarrow> shape (heap s') p = Some x) \<Longrightarrow> Q ws' s'"
  shows "wp (case sr_new_socket r of None \<Rightarrow> act_return ws | Some q \<Rightarrow> add_socket os ws q) Q E s1"
proof (cases "sr_new_socket r")
  case None
  then have k: "kept (only_fd (ws_epoll_fd ws)) s s1" using assms(2) by (simp add: handled_def kept_def)
  then have "turned ws s ws s1" by (rule kept_loop [OF _ assms(1)])
  then have "Q ws s1" by (rule Q) (use k in \<open>simp add: kept_def\<close>)
  then show ?thesis using None by (simp add: wp_return)
next
  case (Some q)
  obtain k fd where h: "good (only_fd (ws_epoll_fd ws)) s1" "prefix (calls s) (calls s1)"
      "shape (heap s1) = (shape (heap s))(q \<mapsto> (k, fd))" "shape (heap s) q = None"
    using assms(2) Some by (auto simp: handled_def)
  have "wp (add_socket os ws q) Q E s1"
    by (rule wp_add_socket [OF assms(1) h]) (rule Q, use h(3,4) in auto)
  then show ?thesis using Some by simp
qed

lemma wp_event_loop:
  fixes s :: "'w server"
  assumes "os_ok os" and "loop_ok ws s" and "distinct (map fst events)"
    and "\<And>p ev. (p, ev) \<in> set events \<Longrightarrow> shape (heap s) p \<noteq> None"
    and "\<And>ws' s'. turned ws s ws' s' \<Longrightarrow> Q ws' s'"
  shows "wp (event_loop os left ws events) Q E s"
  using assms(2-)
proof (induction events arbitrary: ws s Q)
  case Nil
  then show ?case by (simp add: wp_return turned_refl)
next
  case (Cons e rest)
  obtain p ev where e: "e = (p, ev)" by (cases e)
  obtain k fd where sh: "shape (heap s) p = Some (k, fd)" using Cons.prems(3) e by fastforce
  then obtain obj where obj: "heap s p = Some obj" by (auto simp: shape_def)
  have next': "wp (event_loop os left ws2 rest) Q E s2"
    if t: "turned ws s ws2 s2" and live: "\<And>q x. shape (heap s) q = Some x \<Longrightarrow> q \<noteq> p \<Longrightarrow> shape (heap s2) q = Some x" for ws2 and s2 :: "'w server"
  proof (rule Cons.IH)
    show "loop_ok ws2 s2" using t by (simp add: turned_def)
    show "distinct (map fst rest)" using Cons.prems(2) by simp
    fix q ev'
    assume "(q, ev') \<in> set rest"
    then have "shape (heap s) q \<noteq> None" "q \<noteq> p" using Cons.prems(2,3) e by force+
    then show "shape (heap s2) q \<noteq> None" using live by auto
  next
    fix ws' and s' :: "'w server"
    assume "turned ws2 s2 ws' s'"
    then show "Q ws' s'" using Cons.prems(4) turned_trans [OF t] by blast
  qed
  have removed: "wp (if b then remove_socket os ws1 p else act_return ws1) (\<lambda>ws2. wp (event_loop os left ws2 rest) Q E) E s1"
    if t: "turned ws s ws1 s1" and live: "\<And>q x. shape (heap s) q = Some x \<Longrightarrow> shape (heap s1) q = Some x"
    for b ws1 and s1 :: "'w server"
  proof (cases b)
    case True
    have "loop_ok ws1 s1" using t by (simp add: turned_def)
    then have "wp (remove_socket os ws1 p) (\<lambda>ws2. wp (event_loop os left ws2 rest) Q E) E s1"
      by (rule wp_remove_socket [OF _ live [OF sh]])
         (rule next', use turned_trans [OF t] live in auto)
    then show ?thesis using True by simp
  next
    case False
    then show ?thesis using next' [OF t] live by (simp add: wp_return)
  qed
  have "wp (HandleEvent os left (ws_epoll_fd ws) p ev)
     (\<lambda>r. wp (case sr_new_socket r of None \<Rightarrow> act_return ws | Some q \<Rightarrow> add_socket os ws q)
        (\<lambda>ws1. wp (if sr_remove_socket r then remove_socket os ws1 p else act_return ws1)
          (\<lambda>ws2. wp (event_loop os left ws2 rest) Q E) E) E) E s"
    by (rule wp_HandleEvent [OF assms(1) loop_ok_D(1) [OF Cons.prems(1)] obj])
       (rule wp_new_socket [OF Cons.prems(1)], assumption, rule removed)
  then show ?case by (simp only: e event_loop.simps wp_bind)
qed

subsection \<open>The timeouts\<close>

lemma wp_timeout_loop:
  fixes s :: "'w server"
  assumes "loop_ok ws s" and "distinct (map fst entries)"
    and "\<And>fd p. (fd, p) \<in> set entries \<Longrightarrow> p \<in> owners (shape (heap s)) fd"
    and "\<And>ws' s'. turned ws s ws' s' \<Longrightarrow> Q ws' s'"
  shows "wp (timeout_loop os threshold ws entries) Q E s"
  using assms
proof (induction entries arbitrary: ws s Q)
  case Nil
  then show ?case by (simp add: wp_return turned_refl)
next
  case (Cons e rest)
  obtain fd p where e: "e = (fd, p)" by (cases e)
  have own: "p \<in> owners (shape (heap s)) fd" using Cons.prems(3) e by simp
  then obtain obj where obj: "heap s p = Some obj" by (auto simp: owners_obj)
  let ?ws = "ws\<lparr>ws_sockets := map_del fd (ws_sockets ws)\<rparr>"
  have rest: "wp (timeout_loop os threshold ws2 rest) Q E s2"
    if t: "turned ws s ws2 s2" and live: "\<And>x q. q \<in> owners (shape (heap s)) x \<Longrightarrow> q \<noteq> p \<or> s2 = s \<Longrightarrow> q \<in> owners (shape (heap s2)) x"
    for ws2 and s2 :: "'w server"
  proof (rule Cons.IH)
    show "loop_ok ws2 s2" using t by (simp add: turned_def)
    show "distinct (map fst rest)" using Cons.prems(2) by simp
    fix x q
    assume q: "(x, q) \<in> set rest"
    then have "x \<noteq> fd" using Cons.prems(2) e by force
    moreover have "q \<in> owners (shape (heap s)) x" using Cons.prems(3) q by simp
    ultimately show "q \<in> owners (shape (heap s2)) x" using owners_one_fd [OF own] live by metis
  next
    fix ws' and s' :: "'w server"
    assume "turned ws2 s2 ws' s'"
    then show "Q ws' s'" using Cons.prems(4) turned_trans [OF t] by blast
  qed
  have stay: "wp (timeout_loop os threshold ws rest) Q E s"
    by (rule rest [OF turned_refl [OF Cons.prems(1)]])
  have gone: "wp (HandleTimeout os (ws_epoll_fd ws) p) (\<lambda>_. wp (delete_socket os p)
      (\<lambda>_. wp (timeout_loop os threshold ?ws rest) Q E) E) E s"
  proof (rule wp_HandleTimeout [OF loop_ok_D(1) [OF Cons.prems(1)] obj])
    fix s1 :: "'w server"
    assume s1: "kept (only_fd (ws_epoll_fd ws)) s s1"
    have t1: "turned ws s ws s1" "loop_ok ws s1" "shape (heap s1) = shape (heap s)"
      using kept_loop [OF s1 Cons.prems(1)] s1 by (simp_all add: turned_def kept_def)
    have "p \<in> owners (shape (heap s1)) fd" using own t1(3) by simp
    then obtain obj1 where obj1: "heap s1 p = Some obj1" by (auto simp: owners_obj)
    show "wp (delete_socket os p) (\<lambda>_. wp (timeout_loop os threshold ?ws rest) Q E) E s1"
    proof (rule wp_delete_socket [OF kept_good [OF s1] obj1])
      fix s2 :: "'w server"
      assume s2: "good (only_fd (ws_epoll_fd ws)) s2" "shape (heap s2) = (shape (heap s1))(p := None)" "prefix (calls s1) (calls s2)"
      have "loop_ok ?ws s2" by (rule loop_ok_delete [OF t1(2) _ s2]) (simp add: own t1(3))
      then have "turned ws s ?ws s2" using t1(1) s2(3) by (auto simp: turned_def intro: prefix_order.trans)
      then show "wp (timeout_loop os threshold ?ws rest) Q E s2"
      proof (rule rest)
        have "shape (heap s2) p = None" "shape (heap s) p \<noteq> None" using s2(2) own by (auto simp: owners_def)
        then have "s2 \<noteq> s" by auto
        then show "q \<in> owners (shape (heap s2)) x" if "q \<in> owners (shape (heap s)) x" "q \<noteq> p \<or> s2 = s" for x q
          using that s2(2) t1(3) by (simp add: owners_delete)
      qed
    qed
  qed
  show ?case using stay gone by (simp add: e wp_bind wp_load obj)
qed

lemma sockets_distinct: "map_wf m \<Longrightarrow> distinct (map fst m)"
  by (rule std_map.distinct_keys)

lemma wp_CheckTimeout:
  fixes s :: "'w server"
  assumes "loop_ok ws s" and "\<And>ws' s'. turned ws s ws' s' \<Longrightarrow> Q ws' s'"
  shows "wp (CheckTimeout os ws) Q E s"
  unfolding CheckTimeout_def wp_bind
proof (rule wp_calm [OF loop_ok_D(1) [OF assms(1)]])
  show "io_spec calm (\<lambda>_. True) (\<lambda>_. False) (call_time os)"
    unfolding call_time_def by (rule io_spec_sys) (simp_all add: calm_def plain_def quiet_def)
  fix now and s1 :: "'w server"
  assume s1: "kept (only_fd (ws_epoll_fd ws)) s s1" "heap s1 = heap s"
  have t: "turned ws s ws s1" by (rule kept_loop [OF s1(1) assms(1)])
  then have ok: "loop_ok ws s1" by (simp add: turned_def)
  show "wp (timeout_loop os (now - kRequestTimeoutSeconds) ws (ws_sockets ws)) Q E s1"
  proof (rule wp_timeout_loop [OF ok sockets_distinct [OF loop_ok_D(4) [OF ok]]])
    fix fd p
    assume "(fd, p) \<in> set (ws_sockets ws)"
    then show "p \<in> owners (shape (heap s1)) fd"
      using loop_ok_D(5) [OF ok] map_get_wf [OF loop_ok_D(4) [OF ok]] by blast
  qed (use assms(2) turned_trans [OF t] in blast)
qed simp

subsection \<open>Shutdown\<close>

lemma wp_delete_sockets:
  fixes s :: "'w server"
  assumes "good base s" and "distinct (map fst entries)"
    and "\<And>fd p. (fd, p) \<in> set entries \<Longrightarrow> p \<in> owners (shape (heap s)) fd"
    and "\<And>s'. good base s' \<Longrightarrow> prefix (calls s) (calls s') \<Longrightarrow>
      (\<And>p. shape (heap s') p = (if p \<in> snd ` set entries then None else shape (heap s) p)) \<Longrightarrow> Q () s'"
  shows "wp (delete_sockets os entries) Q E s"
  using assms
proof (induction entries arbitrary: s)
  case Nil
  then show ?case by (simp add: wp_return)
next
  case (Cons e rest)
  obtain fd p where e: "e = (fd, p)" by (cases e)
  have own: "p \<in> owners (shape (heap s)) fd" using Cons.prems(3) e by simp
  then obtain obj where obj: "heap s p = Some obj" by (auto simp: owners_obj)
  have "wp (delete_socket os p) (\<lambda>_. wp (delete_sockets os rest) Q E) E s"
  proof (rule wp_delete_socket [OF Cons.prems(1) obj])
    fix s1 :: "'w server"
    assume s1: "good base s1" "shape (heap s1) = (shape (heap s))(p := None)" "prefix (calls s) (calls s1)"
    show "wp (delete_sockets os rest) Q E s1"
    proof (rule Cons.IH [OF s1(1)])
      show "distinct (map fst rest)" using Cons.prems(2) by simp
      fix x q
      assume q: "(x, q) \<in> set rest"
      then have "x \<noteq> fd" using Cons.prems(2) e by force
      moreover have "q \<in> owners (shape (heap s)) x" using Cons.prems(3) q by simp
      ultimately show "q \<in> owners (shape (heap s1)) x"
        using owners_one_fd [OF own] by (auto simp: s1(2) owners_delete)
    next
      fix s' :: "'w server"
      assume "good base s'" "prefix (calls s1) (calls s')"
        "\<And>q. shape (heap s') q = (if q \<in> snd ` set rest then None else shape (heap s1) q)"
      then show "Q () s'" using Cons.prems(4) [of s'] s1(2,3) e by (auto intro: prefix_order.trans)
    qed
  qed
  then show ?case by (simp add: e wp_bind wp_load obj)
qed

definition released :: "'w server \<Rightarrow> bool" where
  "released s \<longleftrightarrow> heap s = Map.empty \<and> (\<forall>fd. fd_balance fd (calls s) = 0)"

lemma wp_ClearResources:
  fixes s :: "'w server"
  assumes "loop_ok ws s"
    and "\<And>s'. good (only_fd (ws_epoll_fd ws)) s' \<Longrightarrow> prefix (calls s) (calls s') \<Longrightarrow>
      (fresh_log (calls s) \<Longrightarrow> heap s' = Map.empty) \<Longrightarrow> Q (ws\<lparr>ws_sockets := []\<rparr>) s'"
  shows "wp (ClearResources os ws) Q E s"
  unfolding ClearResources_def wp_bind wp_return
proof (rule wp_delete_sockets [OF loop_ok_D(1) [OF assms(1)] sockets_distinct [OF loop_ok_D(4) [OF assms(1)]]])
  note entries = map_get_wf [OF loop_ok_D(4) [OF assms(1)]]
  show "p \<in> owners (shape (heap s)) fd" if "(fd, p) \<in> set (ws_sockets ws)" for fd p
    using that loop_ok_D(5) [OF assms(1)] entries by blast
  fix s' :: "'w server"
  assume s': "good (only_fd (ws_epoll_fd ws)) s'" "prefix (calls s) (calls s')"
    "\<And>p. shape (heap s') p = (if p \<in> snd ` set (ws_sockets ws) then None else shape (heap s) p)"
  have "heap s' = Map.empty" if "fresh_log (calls s)"
  proof
    fix p
    have "shape (heap s') p = None"
    proof (cases "shape (heap s) p")
      case (Some x)
      then have "p \<in> owners (shape (heap s)) (snd x)" by (auto simp: owners_def) (metis prod.collapse)
      then have "(snd x, p) \<in> set (ws_sockets ws)"
        using loop_ok_D(3) [OF assms(1) that] entries by (auto simp: sockets_complete_def)
      then show ?thesis using s'(3) [of p] by force
    qed (use s'(3) [of p] in simp)
    then show "heap s' p = None" by (simp add: shape_def)
  qed
  then show "Q (ws\<lparr>ws_sockets := []\<rparr>) s'" using assms(2) s'(1,2) by blast
qed

lemma good_empty_balance:
  assumes "good base s" and "heap s = Map.empty"
  shows "fd_balance fd (calls s) = base fd"
  using good_D(2) [OF assms(1)] assms(2) by (simp add: log_ok_def owners_def shape_def)

lemma wp_destroy_account:
  assumes "\<And>w cs. (\<And>x. fd_balance x cs = - only_fd fd x) \<Longrightarrow> Q () (s\<lparr>world := w, calls := calls s @ cs\<rparr>)"
  shows "wp (run_io (Fd_destroy os fd)) Q E s"
proof (cases "fd = -1")
  case True
  then show ?thesis using assms [of "[]" "world s"]
    by (simp add: wp_def run_io_def Fd_destroy_def Fd_Reset_def io_run only_fd_def)
next
  case False
  then show ?thesis by (rule wp_Fd_destroy) (rule assms, use False in \<open>simp add: only_fd_def\<close>)
qed

text \<open>The sockets, then the descriptor of \<open>epoll\<close>.\<close>

lemma wp_clear_close:
  fixes s :: "'w server"
  assumes "loop_ok ws s"
    and "\<And>s'. prefix (calls s) (calls s') \<Longrightarrow> (fresh_log (calls s) \<Longrightarrow> released s') \<Longrightarrow> Q s'"
  shows "wp (ClearResources os ws) (\<lambda>ws1. wp (run_io (Fd_destroy os (ws_epoll_fd ws1))) (\<lambda>_. Q) E) E s"
proof (rule wp_ClearResources [OF assms(1)])
  fix s1 :: "'w server"
  assume s1: "good (only_fd (ws_epoll_fd ws)) s1" "prefix (calls s) (calls s1)" "fresh_log (calls s) \<Longrightarrow> heap s1 = Map.empty"
  have "wp (run_io (Fd_destroy os (ws_epoll_fd ws))) (\<lambda>_. Q) E s1"
  proof (rule wp_destroy_account)
    fix w cs
    assume cs: "\<And>fd. fd_balance fd cs = - only_fd (ws_epoll_fd ws) fd"
    show "Q (s1\<lparr>world := w, calls := calls s1 @ cs\<rparr>)"
    proof (rule assms(2))
      show "prefix (calls s) (calls (s1\<lparr>world := w, calls := calls s1 @ cs\<rparr>))"
        using s1(2) by (auto simp: prefix_def)
      assume "fresh_log (calls s)"
      then show "released (s1\<lparr>world := w, calls := calls s1 @ cs\<rparr>)"
        using good_empty_balance [OF s1(1) s1(3)] s1(3) cs by (simp add: released_def)
    qed
  qed
  then show "wp (run_io (Fd_destroy os (ws_epoll_fd (ws\<lparr>ws_sockets := []\<rparr>)))) (\<lambda>_. Q) E s1" by simp
qed

end
