(* ===== verification/Event_Loop_Safety.thy ===== *)
theory Event_Loop_Safety
  imports Event_Loop_Invariant
begin

text \<open>
  The construction of the server, its reachable states, and what holds in them.
\<close>

subsection \<open>The sockets that listen\<close>

lemma start_listening_calm:
  "io_spec calm (\<lambda>v. so_fd v = so_fd s \<and> ss_config v = config) (\<lambda>_. True) (start_listening os config s)"
  unfolding start_listening_def
  by (intro io_spec_step [OF io_spec_sys] io_spec_step [OF io_spec_if] io_spec_return io_spec_throw)
     (simp_all add: calm_def plain_def quiet_def asocket.defs)

lemma CreateServerSocketFd_plain: "io_spec plain (\<lambda>fd. fd \<noteq> -1) (\<lambda>_. True) (CreateServerSocketFd os)"
  unfolding CreateServerSocketFd_def
proof (rule io_spec_step [OF io_spec_sys])
  show "io_spec plain (\<lambda>fd. fd \<noteq> -1) (\<lambda>_. True)
      (if fd = -1 then io_throw (RuntimeError ''socket() failed. '') else io_return fd)" for fd
    by (simp add: io_spec_throw io_spec_return)
qed (simp_all add: plain_def)

lemma CreateServerSocketFd_accounts:
  "accounts (\<lambda>fd. fd \<noteq> -1) (\<lambda>fd x. only_fd fd x) (\<lambda>_. 0) (CreateServerSocketFd os)"
  unfolding CreateServerSocketFd_def
proof (rule accounts_bind [where Q = "\<lambda>_. True" and A = "\<lambda>fd x. only_fd fd x"])
  show "accounts (\<lambda>_. True) (\<lambda>fd x. only_fd fd x) (\<lambda>_. 0) (sys Socket (os_socket os))"
    by (rule accounts_sys) (auto simp: only_fd_def)
  show "accounts (\<lambda>fd. fd \<noteq> -1) (\<lambda>y x. only_fd y x - only_fd fd x) (\<lambda>x. 0 - only_fd fd x)
      (if fd = -1 then io_throw (RuntimeError ''socket() failed. '') else io_return fd)" for fd
    by (simp add: accounts_throw accounts_return only_fd_def)
qed

lemma ServerSocket_init_plain: "io_spec plain (\<lambda>v. ss_config v = config) (\<lambda>_. True) (ServerSocket_init os config)"
  unfolding ServerSocket_init_def
proof (rule io_spec_bind [OF CreateServerSocketFd_plain])
  fix fd :: int
  have "io_spec plain (\<lambda>s. so_fd s = fd) (\<lambda>_. True) (ASocket_init os fd)"
    by (rule io_spec_weaken [OF ASocket_init_spec]) (auto simp: on_fd_def plain_def)
  then show "io_spec plain (\<lambda>v. ss_config v = config) (\<lambda>_. True)
      (io_bind (ASocket_init os fd) (\<lambda>s. io_unwind (start_listening os config s) (Fd_destroy os (so_fd s))))"
    by (rule io_spec_bind)
       (intro io_unwind_spec io_spec_weaken [OF start_listening_calm] Fd_destroy_spec, simp_all add: calm_def plain_def)
qed

lemma ServerSocket_init_accounts:
  "accounts (\<lambda>v. so_fd v \<noteq> -1) (\<lambda>v x. only_fd (so_fd v) x) (\<lambda>_. 0) (ServerSocket_init os config)"
  unfolding ServerSocket_init_def
proof (rule accounts_bind [OF CreateServerSocketFd_accounts], rule accounts_bind)
  fix fd :: int
  show "accounts (\<lambda>s. so_fd s = fd \<and> fd \<noteq> -1) (\<lambda>_ _. 0) (\<lambda>x. 0 - only_fd fd x) (ASocket_init os fd)"
    using accounts_ASocket_init by simp
  fix s :: asocket
  assume s: "so_fd s = fd \<and> fd \<noteq> -1"
  have "accounts (\<lambda>v. so_fd v = so_fd s \<and> ss_config v = config) (\<lambda>_ _. 0) (\<lambda>_. 0) (start_listening os config s)"
    by (rule accounts_quiet [OF io_spec_weaken [OF start_listening_calm]]) (auto simp: calm_def)
  then have "accounts (\<lambda>v. so_fd v = so_fd s \<and> ss_config v = config) (\<lambda>_ _. 0) (\<lambda>x. - only_fd fd x)
      (io_unwind (start_listening os config s) (Fd_destroy os (so_fd s)))"
    by (rule accounts_unwind) (use accounts_destroy s in simp)
  then show "accounts (\<lambda>v. so_fd v \<noteq> -1) (\<lambda>v x. only_fd (so_fd v) x - only_fd fd x - 0) (\<lambda>x. 0 - only_fd fd x - 0)
      (io_unwind (start_listening os config s) (Fd_destroy os (so_fd s)))"
    by (rule accounts_weaken) (use s in auto)
qed

text \<open>A socket that was made listens at its port.\<close>

definition listens :: "server_config \<Rightarrow> int \<Rightarrow> syscall list \<Rightarrow> bool" where
  "listens config fd cs \<longleftrightarrow> Bind fd (sc_port config) \<in> set cs \<and> Listen fd \<in> set cs"

lemma start_listening_listens:
  assumes "start_listening os config s m = (Inr v, m')"
  shows "listens config (so_fd v) (calls m')"
proof -
  have "so_fd (asocket.extend s \<lparr>ss_config = config\<rparr>) = so_fd s" by (simp add: asocket.defs)
  then show ?thesis using assms
    by (auto simp: start_listening_def io_run listens_def split: prod.splits if_splits)
qed

lemma ServerSocket_init_listens:
  assumes "ServerSocket_init os config m = (Inr v, m')"
  shows "listens config (so_fd v) (calls m')"
  using assms start_listening_listens
  by (auto simp: ServerSocket_init_def io_run io_unwind_def split: prod.splits sum.splits)

lemma wp_ServerSocket_init:
  assumes "log_ok base sh (calls s)"
    and Q: "\<And>v w cs. so_fd v \<noteq> -1 \<Longrightarrow> ss_config v = config \<Longrightarrow>
      log_ok (\<lambda>fd. base fd + only_fd (so_fd v) fd) sh (calls s @ cs) \<Longrightarrow> listens config (so_fd v) (calls s @ cs) \<Longrightarrow>
      Q v (s\<lparr>world := w, calls := calls s @ cs\<rparr>)"
    and E: "\<And>e w cs. log_ok base sh (calls s @ cs) \<Longrightarrow> E e (s\<lparr>world := w, calls := calls s @ cs\<rparr>)"
  shows "wp (run_io (ServerSocket_init os config)) Q E s"
proof -
  have "wp (run_io (ServerSocket_init os config)) (\<lambda>v s1. listens config (so_fd v) (calls s1) \<longrightarrow> Q v s1) E s"
    by (rule wp_plain_account [OF assms(1) ServerSocket_init_plain ServerSocket_init_accounts]) (auto intro: Q E)
  moreover have "listens config (so_fd v) (calls s1)" if "run_io (ServerSocket_init os config) s = Some (Inr v, s1)" for v s1
    using that ServerSocket_init_listens by (fastforce simp: run_io_def split: prod.splits)
  ultimately show ?thesis by (auto simp: wp_def split: option.splits sum.splits)
qed

subsection \<open>Construction\<close>

text \<open>
  A server for the configuration: an object, bound to the port and listening, that is registered
  for reading.
\<close>

definition serves :: "int \<Rightarrow> 'w server \<Rightarrow> server_config \<Rightarrow> bool" where
  "serves epoll_fd s config \<longleftrightarrow>
     (\<exists>p v. heap s p = Some (Server v) \<and> ss_config v = config \<and> listens config (so_fd v) (calls s) \<and>
        Epoll_ctl epoll_fd EPOLL_CTL_ADD (so_fd v) EPOLLIN (Some p) None \<in> set (calls s))"

lemma serves_mono:
  assumes "serves e s config" and "prefix (calls s) (calls s')" and "\<And>p obj. heap s p = Some obj \<Longrightarrow> heap s' p = Some obj"
  shows "serves e s' config"
proof -
  obtain p v where "heap s p = Some (Server v)" "ss_config v = config" "listens config (so_fd v) (calls s)"
      "Epoll_ctl e EPOLL_CTL_ADD (so_fd v) EPOLLIN (Some p) None \<in> set (calls s)"
    using assms(1) unfolding serves_def by blast
  moreover have "set (calls s) \<subseteq> set (calls s')" by (rule set_mono_prefix [OF assms(2)])
  ultimately show ?thesis using assms(3) unfolding serves_def listens_def by blast
qed

definition grown :: "webserv \<Rightarrow> 'w server \<Rightarrow> webserv \<Rightarrow> 'w server \<Rightarrow> bool" where
  "grown ws s ws' s' \<longleftrightarrow> turned ws s ws' s' \<and> ws_port_to_server_configs ws' = ws_port_to_server_configs ws \<and>
     (\<forall>p obj. heap s p = Some obj \<longrightarrow> heap s' p = Some obj)"

lemma grown_trans: "grown ws s ws1 s1 \<Longrightarrow> grown ws1 s1 ws2 s2 \<Longrightarrow> grown ws s ws2 s2"
  unfolding grown_def using turned_trans by metis

lemma serves_grown: "grown ws s ws' s' \<Longrightarrow> serves e s config \<Longrightarrow> serves e s' config"
  by (erule serves_mono) (auto simp: grown_def turned_def)

text \<open>The steps for one configuration after its socket was made.\<close>

lemma wp_listen_step:
  fixes s s1 :: "'w server"
  assumes ok: "loop_ok ws s" and s1: "heap s1 = heap s" "next_address s1 = next_address s" "prefix (calls s) (calls s1)"
    and v: "so_fd v \<noteq> -1" "ss_config v = config" "listens config (so_fd v) (calls s1)"
    and log: "log_ok (\<lambda>fd. only_fd (ws_epoll_fd ws) fd + only_fd (so_fd v) fd) (shape (heap s)) (calls s1)"
    and Q: "\<And>p ws' r s'. ws' = ws\<lparr>ws_sockets := map_put (so_fd v) p (ws_sockets ws)\<rparr> \<Longrightarrow> grown ws s ws' s' \<Longrightarrow>
      (r = None \<Longrightarrow> serves (ws_epoll_fd ws) s' config) \<Longrightarrow> Q p r s'"
  shows "wp (create (Server v)) (\<lambda>p.
      wp (run_io (call_epoll_ctl os (ws_epoll_fd ws) EPOLL_CTL_ADD (so_fd v) EPOLLIN (Some p))) (Q p) E) E s1"
proof (rule wp_create_good [where base = "only_fd (ws_epoll_fd ws)"])
  show "good (\<lambda>x. only_fd (ws_epoll_fd ws) x + (if x = obj_fd (Server v) then 1 else 0)) s1"
    using log v(1) s1(1,2) good_D(1) [OF loop_ok_D(1) [OF ok]] by (simp add: good_def only_fd_def)
  fix p and s2 :: "'w server"
  assume s2: "good (only_fd (ws_epoll_fd ws)) s2" "heap s1 p = None" "heap s2 = (heap s1)(p \<mapsto> Server v)" "calls s2 = calls s1"
  let ?ws = "ws\<lparr>ws_sockets := map_put (so_fd v) p (ws_sockets ws)\<rparr>"
  have sh: "shape (heap s2) = (shape (heap s))(p \<mapsto> (2, so_fd v))" "shape (heap s) p = None"
    using s2(2,3) s1(1) by (simp_all add: shape_update) (simp add: shape_def)
  have ok2: "loop_ok ?ws s2" by (rule loop_ok_add [OF ok s2(1) sh]) (simp add: s2(4) s1(3))
  have obj: "heap s2 p = Some (Server v)" by (simp add: s2(3))
  show "wp (run_io (call_epoll_ctl os (ws_epoll_fd ws) EPOLL_CTL_ADD (so_fd v) EPOLLIN (Some p))) (Q p) E s2"
  proof -
    have "wp (run_io (call_epoll_ctl os (ws_epoll_fd ws) EPOLL_CTL_ADD (so_fd v) EPOLLIN (Some p)))
        (\<lambda>r s3. Epoll_ctl (ws_epoll_fd ws) EPOLL_CTL_ADD (so_fd v) EPOLLIN (Some p) r \<in> set (calls s3) \<longrightarrow> Q p r s3) E s2"
    proof (rule wp_epoll_ctl [OF s2(1)], goal_cases)
      case (2 r s3)
      have "turned ?ws s2 ?ws s3" by (rule kept_loop [OF _ ok2]) (simp add: 2(1))
      then have "grown ws s ?ws s3"
        using 2(2) s2(2,3,4) s1 by (auto simp: grown_def turned_def intro: prefix_order.trans)
      moreover have "prefix (calls s1) (calls s3)" using 2(1) s2(4) by (simp add: kept_def)
      then have "listens config (so_fd v) (calls s3)" using v(3) by (auto simp: listens_def dest: set_mono_prefix)
      moreover have "heap s3 p = Some (Server v)" using 2(2) obj by simp
      ultimately show ?case
        using v(2) by (intro impI Q [OF refl]) (simp, unfold serves_def, blast)
    qed (use obj in auto)
    then show ?thesis
      by (cases "os_epoll_ctl os (ws_epoll_fd ws) EPOLL_CTL_ADD (so_fd v) EPOLLIN (Some p) (world s2)")
         (simp add: wp_def run_io_def call_epoll_ctl_def sys_def)
  qed
qed (use v(1) in simp_all)

lemma wp_listen_loop:
  fixes s :: "'w server"
  assumes "loop_ok ws s"
    and "\<And>ws' r s'. grown ws s ws' s' \<Longrightarrow> (r = None \<Longrightarrow> list_all (serves (ws_epoll_fd ws) s') configs) \<Longrightarrow> Q (ws', r) s'"
  shows "wp (listen_loop os ws configs) Q E s"
  using assms
proof (induction configs arbitrary: ws s Q)
  case Nil
  then show ?case by (simp add: wp_return grown_def turned_refl)
next
  case (Cons config configs)
  have stop: "Q (ws, Some e) (s\<lparr>world := w, calls := calls s @ cs\<rparr>)"
    if "log_ok (only_fd (ws_epoll_fd ws)) (shape (heap s)) (calls s @ cs)" for e w cs
  proof (rule Cons.prems(2))
    let ?s = "s\<lparr>world := w, calls := calls s @ cs\<rparr>"
    have "kept (only_fd (ws_epoll_fd ws)) s ?s"
      using that good_D(1) [OF loop_ok_D(1) [OF Cons.prems(1)]] by (simp add: kept_def good_def)
    then show "grown ws s ws ?s" using kept_loop [OF _ Cons.prems(1)] by (simp add: grown_def)
  qed simp
  let ?next = "\<lambda>v p r. if r \<noteq> None
      then act_return (ws\<lparr>ws_sockets := map_put (so_fd v) p (ws_sockets ws)\<rparr>, Some (RuntimeError ''epoll_ctl() failed. ''))
      else listen_loop os (ws\<lparr>ws_sockets := map_put (so_fd v) p (ws_sockets ws)\<rparr>) configs"
  have next': "wp (?next v p r) Q E s'"
    if ws': "ws' = ws\<lparr>ws_sockets := map_put (so_fd v) p (ws_sockets ws)\<rparr>" and g: "grown ws s ws' s'"
      and serves: "r = None \<Longrightarrow> serves (ws_epoll_fd ws) s' config" for v p r ws' and s' :: "'w server"
  proof (cases "r = None")
    case True
    have "wp (listen_loop os ws' configs) Q E s'"
    proof (rule Cons.IH)
      show "loop_ok ws' s'" using g by (simp add: grown_def turned_def)
      fix ws2 and r2 :: "exn option" and s2 :: "'w server"
      assume s2: "grown ws' s' ws2 s2" "r2 = None \<Longrightarrow> list_all (serves (ws_epoll_fd ws') s2) configs"
      have "ws_epoll_fd ws' = ws_epoll_fd ws" using ws' by simp
      then show "Q (ws2, r2) s2"
        using Cons.prems(2) [OF grown_trans [OF g s2(1)]] s2 serves_grown [OF s2(1) serves [OF True]] by auto
    qed
    then show ?thesis using True ws' by simp
  next
    case False
    then show ?thesis using Cons.prems(2) [OF g, of "Some e" for e] ws' by (simp add: wp_return)
  qed
  have "wp (run_io (ServerSocket_init os config)) (\<lambda>v. wp (create (Server v)) (\<lambda>p.
      wp (run_io (call_epoll_ctl os (ws_epoll_fd ws) EPOLL_CTL_ADD (so_fd v) EPOLLIN (Some p)))
        (\<lambda>r. wp (?next v p r) Q E) E) E) (\<lambda>e. Q (ws, Some e)) s"
  proof (rule wp_ServerSocket_init [OF good_D(2) [OF loop_ok_D(1) [OF Cons.prems(1)]]])
    fix v :: server_socket and w cs
    assume v: "so_fd v \<noteq> -1" "ss_config v = config"
      "log_ok (\<lambda>fd. only_fd (ws_epoll_fd ws) fd + only_fd (so_fd v) fd) (shape (heap s)) (calls s @ cs)"
      "listens config (so_fd v) (calls s @ cs)"
    show "wp (create (Server v)) (\<lambda>p.
      wp (run_io (call_epoll_ctl os (ws_epoll_fd ws) EPOLL_CTL_ADD (so_fd v) EPOLLIN (Some p)))
        (\<lambda>r. wp (?next v p r) Q E) E) E (s\<lparr>world := w, calls := calls s @ cs\<rparr>)"
      by (rule wp_listen_step [OF Cons.prems(1)], (use v in simp_all)[7], rule next')
  qed (rule stop)
  then show ?case by (simp add: wp_bind wp_try wp_return Let_def)
qed

lemma init_loop_get:
  "map_get (init_loop m configs) port =
     (case map_get m port of Some c \<Rightarrow> Some c | None \<Rightarrow> find (\<lambda>c. sc_port c = port) configs)"
  by (induction configs arbitrary: m) (auto simp: map_has_def split: option.split)

lemma init_loop_wf: "map_wf m \<Longrightarrow> map_wf (init_loop m configs)"
  by (induction configs arbitrary: m) auto

lemma LoadFile_calm: "io_spec calm (\<lambda>_. True) (\<lambda>_. True) (LoadFileOrThrowRuntime os filename)"
  unfolding LoadFileOrThrowRuntime_def
  by (intro io_spec_step [OF call_stat_spec] io_spec_step [OF io_spec_sys] io_spec_case_sum io_spec_if io_spec_throw
      io_spec_return) (simp_all add: calm_def plain_def quiet_def)

lemma good_initial: "good (\<lambda>_. 0) (initial_server w)"
  by (simp add: good_def heap_ok_def log_ok_def initial_server_def linked_def shape_def owners_def registered_def dom_def)

lemma kept_initial: "kept (\<lambda>_. 0) (initial_server w) s \<Longrightarrow> heap s = heap (initial_server w) \<Longrightarrow> released s"
  using good_empty_balance [of "\<lambda>_. 0" s] by (simp add: released_def kept_def initial_server_def)

lemma Epoll_create_spec:
  "io_spec plain (\<lambda>_. True) (\<lambda>_. False) (sys Epoll_create call)"
  "accounts (\<lambda>_. True) (\<lambda>fd x. only_fd fd x) (\<lambda>_. 0) (sys Epoll_create call)"
  by (rule io_spec_sys; simp add: plain_def) (rule accounts_sys; simp add: only_fd_def)

lemma wp_lift_Inl: "r = Inl e \<Longrightarrow> E e s \<Longrightarrow> wp (run_io (io_lift r)) Q E s"
  by (simp add: wp_def run_io_def io_lift_def)

definition started :: "webserv \<Rightarrow> 'w server \<Rightarrow> bool" where
  "started ws s \<longleftrightarrow> loop_ok ws s \<and> ws_epoll_fd ws \<noteq> -1 \<and> map_wf (ws_port_to_server_configs ws) \<and>
     list_all (serves (ws_epoll_fd ws) s) (map snd (ws_port_to_server_configs ws))"

lemma wp_Webserv_init:
  fixes w :: 'w
  assumes Q: "\<And>ws s. started ws s \<Longrightarrow> Q ws s" and E: "\<And>e s. (fresh_log (calls s) \<Longrightarrow> released s) \<Longrightarrow> E e s"
  shows "wp (Webserv_init os getcwd config_file) Q E (initial_server w)"
  unfolding Webserv_init_def wp_bind Let_def
proof (rule wp_calm [OF good_initial LoadFile_calm])
  fix content and s :: "'w server"
  assume s: "kept (\<lambda>_. 0) (initial_server w) s" "heap s = heap (initial_server w)"
  have empty: "heap s = Map.empty" using s(2) by (simp add: initial_server_def)
  note good = kept_good [OF s(1)]
  let ?listen = "\<lambda>configs e. act_bind
      (listen_loop os (InitServersFromConfigs configs Webserv_empty\<lparr>ws_epoll_fd := e\<rparr>)
        (map snd (ws_port_to_server_configs (InitServersFromConfigs configs Webserv_empty))))
      (\<lambda>(ws1, r). case r of None \<Rightarrow> act_return ws1
         | Some e \<Rightarrow> act_bind (ClearResources os ws1) (\<lambda>ws2. act_bind (run_io (Fd_destroy os (ws_epoll_fd ws2))) (\<lambda>_. act_throw e)))"
  have listen: "wp (?listen configs e) Q E s1"
    if e: "e \<noteq> -1" and s1: "heap s1 = Map.empty" "good (only_fd e) s1" for configs e and s1 :: "'w server"
    unfolding wp_bind
  proof (rule wp_listen_loop)
    let ?ws = "InitServersFromConfigs configs Webserv_empty\<lparr>ws_epoll_fd := e\<rparr>"
    show "loop_ok ?ws s1"
      using s1 by (simp add: loop_ok_def sockets_live_def sockets_complete_def owners_def shape_def
          InitServersFromConfigs_def Webserv_empty_def)
    fix ws1 and r :: "exn option" and s2 :: "'w server"
    assume g: "grown ?ws s1 ws1 s2"
      and serves: "r = None \<Longrightarrow> list_all (serves (ws_epoll_fd ?ws) s2)
        (map snd (ws_port_to_server_configs (InitServersFromConfigs configs Webserv_empty)))"
    have ok: "loop_ok ws1 s2" and same: "ws_epoll_fd ws1 = e"
        "ws_port_to_server_configs ws1 = init_loop [] configs"
      using g by (simp_all add: grown_def turned_def InitServersFromConfigs_def)
    show "wp (case (ws1, r) of (ws1, r) \<Rightarrow> case r of None \<Rightarrow> act_return ws1
         | Some e \<Rightarrow> act_bind (ClearResources os ws1) (\<lambda>ws2. act_bind (run_io (Fd_destroy os (ws_epoll_fd ws2))) (\<lambda>_. act_throw e)))
        Q E s2"
    proof (cases r)
      case None
      then have "started ws1 s2"
        using ok same serves e init_loop_wf [of "[]"] by (simp add: started_def InitServersFromConfigs_def)
      then show ?thesis using None Q by (simp add: wp_return)
    next
      case (Some x)
      have "wp (ClearResources os ws1) (\<lambda>ws2. wp (run_io (Fd_destroy os (ws_epoll_fd ws2))) (\<lambda>_. E x) E) E s2"
        by (rule wp_clear_close [OF ok]) (use E fresh_log_prefix in blast)
      then show ?thesis using Some by (simp add: wp_bind wp_throw)
    qed
  qed
  have create: "wp (run_io (sys Epoll_create (os_epoll_create os)))
      (\<lambda>e. wp (if e = -1 then act_throw (RuntimeError ''epoll_create() failed. '') else ?listen configs e) Q E) E s" for configs
  proof (rule wp_plain_account [OF good_D(2) [OF good] Epoll_create_spec])
    fix e w' cs
    let ?s = "s\<lparr>world := w', calls := calls s @ cs\<rparr>"
    assume "log_ok (\<lambda>fd. 0 + only_fd e fd) (shape (heap s)) (calls s @ cs)"
    then have good1: "good (only_fd e) ?s" using good_D(1) [OF good] by (simp add: good_def eta_contract_eq)
    show "wp (if e = -1 then act_throw (RuntimeError ''epoll_create() failed. '') else ?listen configs e) Q E ?s"
    proof (cases "e = -1")
      case True
      have "released ?s" using good_empty_balance [OF good1] empty True by (simp add: released_def only_fd_def)
      then show ?thesis using True E by (simp add: wp_throw)
    next
      case False
      then show ?thesis using listen [OF False _ good1] empty by simp
    qed
  qed simp
  show "wp (run_io (io_lift (ConfigParser_Parse getcwd content)))
      (\<lambda>configs. wp (run_io (sys Epoll_create (os_epoll_create os)))
      (\<lambda>e. wp (if e = -1 then act_throw (RuntimeError ''epoll_create() failed. '') else ?listen configs e) Q E) E) E s"
  proof (cases "ConfigParser_Parse getcwd content")
    case (Inr configs)
    then show ?thesis by (rule wp_lift) (rule create)
  next
    case (Inl x)
    have "E x s" using E kept_initial [OF s] by blast
    with Inl show ?thesis by (rule wp_lift_Inl)
  qed
next
  fix e and s :: "'w server"
  assume s: "kept (\<lambda>_. 0) (initial_server w) s" "heap s = heap (initial_server w)"
  show "E e s" by (rule E) (rule kept_initial [OF s])
qed

end
