(* ===== verification/Server_Safety.thy ===== *)
theory Server_Safety
  imports Event_Loop_Safety
begin

text \<open>
  What holds of the running server, and of the start and the end of it: the properties that span the
  components. The witnesses run the model on a small system with a clock, one connection
  that says nothing, and a configuration file.
\<close>

subsection \<open>Reachable states\<close>

lemma wp_run_D: "wp f Q E s \<Longrightarrow> f s = Some (Inr x, s') \<Longrightarrow> Q x s'"
  by (simp add: wp_def)

lemma wp_run_Inl_D: "wp f Q E s \<Longrightarrow> f s = Some (Inl e, s') \<Longrightarrow> E e s'"
  by (simp add: wp_def)

lemma wp_total:
  assumes "wp f Q (\<lambda>_ _. False) s"
  obtains x s' where "f s = Some (Inr x, s')" and "Q x s'"
  using assms that by (cases "f s"; cases "fst (the (f s))") (auto simp: wp_def)

lemma registered_owners:
  assumes "good base s" and "p \<in> snd ` set (registered (calls s))"
  shows "\<exists>fd. map_get (registered (calls s)) fd = Some p \<and> p \<in> owners (shape (heap s)) fd"
proof -
  have "map_wf (registered (calls s))" using good_D(2) [OF assms(1)] by (simp add: log_ok_def)
  then obtain fd where "map_get (registered (calls s)) fd = Some p" using assms(2) by (auto simp: map_get_wf)
  then show ?thesis using good_D(2) [OF assms(1)] by (auto simp: log_ok_def)
qed

lemma wp_Run_turn:
  assumes "os_ok os" and "loop_ok ws s" and "may_report (calls s) reported"
    and "\<And>ws' s'. turned ws s ws' s' \<Longrightarrow> Q ws' s'"
  shows "wp (Run_turn os left ws reported) Q E s"
proof (cases reported)
  case None
  then show ?thesis using assms(4) turned_refl [OF assms(2)] by (simp add: Run_turn_def wp_return)
next
  case (Some events)
  have "wp (event_loop os left ws events) Q E s"
  proof (rule wp_event_loop [OF assms(1,2)])
    show "distinct (map fst events)" using assms(3) Some by (simp add: may_report_def)
    show "shape (heap s) p \<noteq> None" if "(p, ev) \<in> set events" for p ev
    proof -
      have "p \<in> snd ` set (registered (calls s))"
        using assms(3) Some that by (auto simp: may_report_def list_all_iff)
      then show ?thesis using registered_owners [OF loop_ok_D(1) [OF assms(2)]] by (fastforce simp: owners_def)
    qed
  qed (rule assms(4))
  then show ?thesis using Some by (simp add: Run_turn_def)
qed

lemma reachable_ok:
  assumes "reachable os left getcwd config_file w ws s" and "os_ok os"
  shows "loop_ok ws s"
  using assms
proof induction
  case (start ws s)
  have "wp (Webserv_init os getcwd config_file) (\<lambda>ws s. loop_ok ws s) (\<lambda>_ _. True) (initial_server w)"
    by (rule wp_Webserv_init) (simp_all add: started_def)
  then show ?case by (rule wp_run_D) (rule start.hyps)
next
  case (turn ws s ws1 s1 reported ws2 s2)
  have "wp (CheckTimeout os ws) (\<lambda>ws' s'. loop_ok ws' s') (\<lambda>_ _. True) s"
    by (rule wp_CheckTimeout) (use turn in \<open>simp_all add: turned_def\<close>)
  then have "loop_ok ws1 s1" using turn.hyps(2) by (rule wp_run_D)
  then have "wp (Run_turn os left ws1 reported) (\<lambda>ws' s'. loop_ok ws' s') (\<lambda>_ _. True) s1"
    by (rule wp_Run_turn [rotated]) (use turn in \<open>simp_all add: turned_def\<close>)
  then show ?case using turn.hyps(4) by (rule wp_run_D)
qed

subsection \<open>A small system\<close>

text \<open>The world is a clock, which every look at it moves, and what was sent.\<close>

type_synonym ticks = "nat \<times> string"

definition tick_os :: "ticks os" where
  "tick_os =
     \<lparr>os_stat = (\<lambda>p w. (Inr RegularFile, w)), os_access = (\<lambda>p mode w. (None, w)),
      os_read_file = (\<lambda>p w. (Inr sample_text, w)),
      os_open_write = (\<lambda>p w. (False, w)), os_write_file = (\<lambda>p d w. (False, w)), os_remove = (\<lambda>p w. (Some 2, w)),
      os_time = (\<lambda>(n, d). (20 * int n, (Suc n, d))), os_http_date = (\<lambda>w. (None, w)),
      os_socketpair = (\<lambda>w. (None, w)), os_fork = (\<lambda>child w. (-1, w)),
      os_fcntl_getfl = (\<lambda>fd w. (Inr 0, w)), os_fcntl_setfl = (\<lambda>fd fl w. (None, w)),
      os_write = (\<lambda>fd d w. (int (length d), w)), os_read = (\<lambda>fd n w. (Some [], w)),
      os_recv = (\<lambda>fd n w. (Some [], w)), os_send = (\<lambda>fd d (n, sent). (int (length d), (n, sent @ d))),
      os_accept = (\<lambda>fd w. (Some (5, 0), w)), os_close = (\<lambda>fd w. ((), w)),
      os_epoll_ctl = (\<lambda>epfd op fd ev p w. (None, w)), os_waitpid = (\<lambda>pid w. (Some 0, w)),
      os_kill = (\<lambda>pid w. ((), w)), os_socket = (\<lambda>w. (3, w)), os_setsockopt = (\<lambda>fd w. (True, w)),
      os_bind = (\<lambda>fd port w. (True, w)), os_listen = (\<lambda>fd w. (True, w)), os_epoll_create = (\<lambda>w. (4, w))\<rparr>"

text \<open>The same with no room in \<open>epoll\<close>.\<close>

definition busy_os :: "ticks os" where
  "busy_os = tick_os\<lparr>os_epoll_ctl := (\<lambda>epfd op fd ev p w. (Some 12, w))\<rparr>"

lemma tick_os_ok: "os_ok tick_os"
  by (auto simp: os_ok_def tick_os_def)

lemma sample_config: obtains c where "ConfigParser_Parse None sample_text = Inr [c]"
proof -
  have "map_sum id length (ConfigParser_Parse None sample_text) = Inr 1" by code_simp
  then obtain cs where "ConfigParser_Parse None sample_text = Inr cs" "length cs = 1"
    by (cases "ConfigParser_Parse None sample_text") auto
  then show thesis using that by (cases cs) auto
qed

definition tick_listener :: "server_config \<Rightarrow> server_socket" where
  "tick_listener c = asocket.extend \<lparr>so_fd = 3, so_last_activity = 0, so_read_buffer = [], so_write_buffer = []\<rparr> \<lparr>ss_config = c\<rparr>"

definition tick_webserv :: "server_config \<Rightarrow> webserv" where
  "tick_webserv c = \<lparr>ws_port_to_server_configs = [(sc_port c, c)], ws_epoll_fd = 4, ws_sockets = [(3, 0)]\<rparr>"

definition tick_server :: "server_config \<Rightarrow> ticks server" where
  "tick_server c =
     \<lparr>world = (1, []),
      calls = [Stat ''/c'', ReadFile ''/c'', Epoll_create 4, Socket 3, Time, Fcntl_getfl 3, Fcntl_setfl 3 O_NONBLOCK,
        Setsockopt 3, Bind 3 (sc_port c), Listen 3, Epoll_ctl 4 EPOLL_CTL_ADD 3 EPOLLIN (Some 0) None],
      heap = [0 \<mapsto> Server (tick_listener c)], next_address = 1\<rparr>"

lemma tick_listener_fd: "so_fd (tick_listener c) = 3" "ss_config (tick_listener c) = c"
  by (simp_all add: tick_listener_def asocket.defs)

lemma tick_load:
  assumes "os = tick_os \<or> os = busy_os"
  shows "LoadFileOrThrowRuntime os ''/c'' \<lparr>world = w, calls = []\<rparr> =
     (Inr sample_text, \<lparr>world = w, calls = [Stat ''/c'', ReadFile ''/c'']\<rparr>)"
proof -
  have "c_str ''/c'' = ''/c''" by code_simp
  then show ?thesis using assms
    by (elim disjE) (simp_all add: LoadFileOrThrowRuntime_def call_stat_def io_run tick_os_def busy_os_def)
qed

lemma tick_listen:
  assumes "os = tick_os \<or> os = busy_os"
  shows "ServerSocket_init os c \<lparr>world = (0, []), calls = cs\<rparr> =
     (Inr (tick_listener c),
      \<lparr>world = (1, []), calls = cs @ [Socket 3, Time, Fcntl_getfl 3, Fcntl_setfl 3 O_NONBLOCK, Setsockopt 3, Bind 3 (sc_port c), Listen 3]\<rparr>)"
  using assms
  by (elim disjE) (simp_all add: ServerSocket_init_def CreateServerSocketFd_def ASocket_init_def call_time_def
      SetNonBlocking_def start_listening_def io_run io_unwind_def tick_os_def busy_os_def tick_listener_def)

lemma act_run:
  "act_return x s = Some (Inr x, s)" "act_throw e s = Some (Inl e, s)"
  "act_bind f g s = (case f s of None \<Rightarrow> None | Some (Inl e, s1) \<Rightarrow> Some (Inl e, s1) | Some (Inr x, s1) \<Rightarrow> g x s1)"
  "act_try f s = (case f s of None \<Rightarrow> None | Some (r, s1) \<Rightarrow> Some (Inr r, s1))"
  "run_io i s = (case i \<lparr>world = world s, calls = calls s\<rparr> of (r, m) \<Rightarrow> Some (r, s\<lparr>world := world m, calls := calls m\<rparr>))"
  "load p s = (case heap s p of None \<Rightarrow> None | Some obj \<Rightarrow> Some (Inr obj, s))"
  "create obj s = Some (Inr (next_address s),
     s\<lparr>heap := (heap s)(next_address s \<mapsto> obj), next_address := Suc (next_address s)\<rparr>)"
  by (simp_all add: act_bind_def act_return_def act_throw_def act_try_def run_io_def load_def create_def)

lemma tick_start:
  obtains c where "Webserv_init tick_os None ''/c'' (initial_server (0, [])) = Some (Inr (tick_webserv c), tick_server c)"
proof -
  obtain c where c: "ConfigParser_Parse None sample_text = Inr [c]" by (rule sample_config)
  have e: "os_epoll_create tick_os w = (4, w)" "os_epoll_ctl tick_os epfd op fd ev p w = (None, w)" for w epfd op fd ev p
    by (simp_all add: tick_os_def)
  have "Webserv_init tick_os None ''/c'' (initial_server (0, [])) = Some (Inr (tick_webserv c), tick_server c)"
    by (simp add: Webserv_init_def act_run io_run initial_server_def tick_load c InitServersFromConfigs_def Webserv_empty_def
        tick_listen e call_epoll_ctl_def tick_listener_fd tick_webserv_def tick_server_def Let_def)
  then show thesis by (rule that)
qed

text \<open>A client connects, says nothing, and is answered when its time is over.\<close>

definition tick_client :: "server_config \<Rightarrow> client_socket" where
  "tick_client c = asocket.extend \<lparr>so_fd = 5, so_last_activity = 40, so_read_buffer = [], so_write_buffer = []\<rparr>
     \<lparr>cl_config = c,
      cl_req = SetMaxBodySizeLimit (nat (sc_max_body_size c mod 2 ^ 64)) (SetClientIp (Ipv4ToString 0) HttpRequest_init),
      cl_res = HttpResponse_init, cl_cgi_socket = None\<rparr>"

definition tick_connected :: "server_config \<Rightarrow> ticks server" where
  "tick_connected c = (tick_server c)
     \<lparr>world := (3, []),
      calls := calls (tick_server c) @ [Time, Accept 3 (Some (5, 0)), Time, Fcntl_getfl 5, Fcntl_setfl 5 O_NONBLOCK,
        Epoll_ctl 4 EPOLL_CTL_ADD 5 EPOLLIN (Some 1) None],
      heap := [0 \<mapsto> Server (tick_listener c), 1 \<mapsto> Client (tick_client c)], next_address := Suc (Suc 0)\<rparr>"

definition tick_two :: "server_config \<Rightarrow> webserv" where
  "tick_two c = (tick_webserv c)\<lparr>ws_sockets := [(3, 0), (5, 1)]\<rparr>"

lemma tick_client_fd: "so_fd (tick_client c) = 5" "so_last_activity (tick_client c) = 40" "cl_cgi_socket (tick_client c) = None"
  by (simp_all add: tick_client_def asocket.defs)

lemma tick_ClientSocket:
  "ClientSocket_init tick_os 5 c (Ipv4ToString 0) \<lparr>world = (2, []), calls = cs\<rparr> =
     (Inr (tick_client c), \<lparr>world = (3, []), calls = cs @ [Time, Fcntl_getfl 5, Fcntl_setfl 5 O_NONBLOCK]\<rparr>)"
  by (simp add: ClientSocket_init_def ASocket_init_def call_time_def SetNonBlocking_def io_run io_unwind_def
      tick_os_def tick_client_def)

lemma tick_sys:
  "os_time tick_os (n, d) = (20 * int n, (Suc n, d))" "os_accept tick_os fd w = (Some (5, 0), w)"
  "os_epoll_ctl tick_os epfd op fd ev p w = (None, w)" "os_close tick_os fd w = ((), w)"
  "os_send tick_os fd t (n, d) = (int (length t), (n, d @ t))" "os_http_date tick_os w = (None, w)"
  by (simp_all add: tick_os_def)

lemma tick_connect:
  "CheckTimeout tick_os (tick_webserv c) (tick_server c) =
     Some (Inr (tick_webserv c), (tick_server c)\<lparr>world := (2, []), calls := calls (tick_server c) @ [Time]\<rparr>)"
  "Run_turn tick_os left (tick_webserv c) (Some [(0, EPOLLIN)])
     ((tick_server c)\<lparr>world := (2, []), calls := calls (tick_server c) @ [Time]\<rparr>) =
     Some (Inr (tick_two c), tick_connected c)"
proof -
  show "CheckTimeout tick_os (tick_webserv c) (tick_server c) =
     Some (Inr (tick_webserv c), (tick_server c)\<lparr>world := (2, []), calls := calls (tick_server c) @ [Time]\<rparr>)"
    by (simp add: CheckTimeout_def act_run io_run call_time_def tick_sys tick_webserv_def tick_server_def)
  have "EPOLLIN AND EPOLLIN \<noteq> 0" by (simp add: EPOLLIN_def)
  then show "Run_turn tick_os left (tick_webserv c) (Some [(0, EPOLLIN)])
     ((tick_server c)\<lparr>world := (2, []), calls := calls (tick_server c) @ [Time]\<rparr>) =
     Some (Inr (tick_two c), tick_connected c)"
    by (simp add: Run_turn_def HandleEvent_def server_HandleEvent_def act_run io_run tick_sys tick_listener_fd
        tick_server_def tick_ClientSocket add_socket_def call_epoll_ctl_def
        tick_client_fd SocketResult_init_def tick_webserv_def tick_two_def tick_connected_def Let_def)
qed

lemma ToHttpString_not_Nil: "ToHttpString date r \<noteq> []"
  by (simp add: ToHttpString_lines)

lemma tick_timeout:
  "\<exists>ws s text. CheckTimeout tick_os (tick_two c) (tick_connected c) = Some (Inr ws, s) \<and> Send 5 text \<in> set (calls s)"
proof -
  obtain res where res: "closing_response kRequestTimeout = Inr res" by (rule closing_response_Inr)
  show ?thesis
    by (cases "map_has (rs_headers res) ''date''")
       (auto simp add: CheckTimeout_def act_run io_run call_time_def tick_sys tick_two_def tick_webserv_def tick_connected_def
         kRequestTimeoutSeconds_def IsTimeout_def tick_client_fd HandleTimeout_def client_HandleTimeout_def res
         set_response_def call_ToHttpString_def load_client_def store_def call_send_def ToHttpString_not_Nil
         unwatch_def call_epoll_ctl_def delete_socket_def ClientSocket_destroy_def Fd_destroy_def Fd_Reset_def call_close_def
         release_def)
qed

lemma tick_reachable:
  obtains c where "reachable tick_os left None ''/c'' (0, []) (tick_webserv c) (tick_server c)"
    and "reachable tick_os left None ''/c'' (0, []) (tick_two c) (tick_connected c)"
proof -
  obtain c where "Webserv_init tick_os None ''/c'' (initial_server (0, [])) = Some (Inr (tick_webserv c), tick_server c)"
    by (rule tick_start)
  then have start: "reachable tick_os left None ''/c'' (0, []) (tick_webserv c) (tick_server c)" by (rule reachable.start)
  have "may_report (calls ((tick_server c)\<lparr>world := (2, []), calls := calls (tick_server c) @ [Time]\<rparr>)) (Some [(0, EPOLLIN)])"
    by (simp add: may_report_def kMaxEvents_def tick_server_def registered_def)
  then have "reachable tick_os left None ''/c'' (0, []) (tick_two c) (tick_connected c)"
    by (rule reachable.turn [OF start tick_connect(1) _ tick_connect(2)])
  then show thesis using that start by blast
qed

lemma tick_fresh: "fresh_log (calls (tick_connected c))"
  by (simp add: fresh_log_def tick_connected_def tick_server_def)

lemma tick_sent:
  obtains ws s d where "reachable tick_os left None ''/c'' (0, []) ws s" and "Send 5 d \<in> set (calls s)"
proof -
  obtain c where r: "reachable tick_os left None ''/c'' (0, []) (tick_two c) (tick_connected c)" by (rule tick_reachable)
  obtain ws s d where t: "CheckTimeout tick_os (tick_two c) (tick_connected c) = Some (Inr ws, s)" "Send 5 d \<in> set (calls s)"
    using tick_timeout by blast
  have "reachable tick_os left None ''/c'' (0, []) ws s"
    by (rule reachable.turn [OF r t(1), of None]) (simp_all add: may_report_def Run_turn_def act_run)
  then show thesis using that t(2) by blast
qed

text \<open>A turn of the loop has a result.\<close>

lemma turn_succeeds:
  assumes "os_ok os" and "reachable os left getcwd config_file w ws s"
  shows "\<exists>ws1 s1. CheckTimeout os ws s = Some (Inr ws1, s1)"
    and "CheckTimeout os ws s = Some (Inr ws1, s1) \<Longrightarrow> may_report (calls s1) reported \<Longrightarrow>
      \<exists>ws2 s2. Run_turn os left ws1 reported s1 = Some (Inr ws2, s2)"
proof -
  obtain ws1' s1' where s1: "CheckTimeout os ws s = Some (Inr ws1', s1')" "turned ws s ws1' s1'"
    by (rule wp_total [OF wp_CheckTimeout [OF reachable_ok [OF assms(2,1)]]])
  then show "\<exists>ws1 s1. CheckTimeout os ws s = Some (Inr ws1, s1)" by blast
  assume "CheckTimeout os ws s = Some (Inr ws1, s1)" and report: "may_report (calls s1) reported"
  then have "loop_ok ws1 s1" using s1 by (simp add: turned_def)
  then have "wp (Run_turn os left ws1 reported) (\<lambda>_ _. True) (\<lambda>_ _. False) s1"
    by (rule wp_Run_turn [OF assms(1) _ report]) simp
  then show "\<exists>ws2 s2. Run_turn os left ws1 reported s1 = Some (Inr ws2, s2)" by (rule wp_total) blast
qed

subsection \<open>Properties\<close>



text \<open>C7: No socket is lost and none is left behind: when the system does not hand out a descriptor that
  is open, \<open>sockets_\<close> holds exactly the objects that exist, by their descriptors, and the open
  descriptors are exactly those, each once, and that of \<open>epoll\<close>.\<close>

theorem sockets_exact:
  assumes "os_ok os" and "reachable os left getcwd config_file w ws s" and "fresh_log (calls s)"
  shows "(map_get (ws_sockets ws) fd = Some p \<longleftrightarrow> (\<exists>obj. heap s p = Some obj \<and> obj_fd obj = fd)) \<and>
     fd_balance fd (calls s) = (if map_has (ws_sockets ws) fd then 1 else 0) + only_fd (ws_epoll_fd ws) fd"
proof -
  note ok = reachable_ok [OF assms(2,1)]
  have iff: "map_get (ws_sockets ws) fd = Some q \<longleftrightarrow> q \<in> owners (shape (heap s)) fd" for q
    using loop_ok_D(3) [OF ok assms(3)] loop_ok_D(5) [OF ok] unfolding sockets_complete_def by blast
  then have "map_get (ws_sockets ws) fd = Some p \<longleftrightarrow> (\<exists>obj. heap s p = Some obj \<and> obj_fd obj = fd)"
    by (simp add: owners_obj)
  moreover have "int (card (owners (shape (heap s)) fd)) = (if map_has (ws_sockets ws) fd then 1 else 0)"
  proof (cases "map_get (ws_sockets ws) fd")
    case None
    then have "owners (shape (heap s)) fd = {}" using iff by auto
    then show ?thesis using None by (simp add: map_has_def)
  next
    case (Some q)
    then have "x \<in> owners (shape (heap s)) fd \<longleftrightarrow> x = q" for x by (auto simp flip: iff)
    then have "owners (shape (heap s)) fd = {q}" by blast
    then show ?thesis using Some by (simp add: map_has_def)
  qed
  moreover have "fd_balance fd (calls s) = int (card (owners (shape (heap s)) fd)) + only_fd (ws_epoll_fd ws) fd"
    using good_D(2) [OF loop_ok_D(1) [OF ok]] by (simp add: log_ok_def)
  ultimately show ?thesis by simp
qed

theorem sockets_exact_witness:
  "\<exists>ws s. reachable tick_os (\<lambda>r _. r) None ''/c'' (0, []) ws s \<and> fd_balance 5 (calls s) = 1 \<and> fd_balance 4 (calls s) = 1"
proof -
  obtain c where r: "reachable tick_os (\<lambda>r _. r) None ''/c'' (0, []) (tick_two c) (tick_connected c)" by (rule tick_reachable)
  have "fd_balance fd (calls (tick_connected c)) =
      (if map_has (ws_sockets (tick_two c)) fd then 1 else 0) + only_fd (ws_epoll_fd (tick_two c)) fd" for fd
    using sockets_exact [OF tick_os_ok r tick_fresh] by blast
  then have "fd_balance 5 (calls (tick_connected c)) = 1 \<and> fd_balance 4 (calls (tick_connected c)) = 1"
    by (simp add: tick_two_def tick_webserv_def map_has_def only_fd_def)
  then show ?thesis using r by blast
qed



lemma linked_pair:
  assumes "linked h"
  shows "(\<exists>c. h p = Some (Client c) \<and> cl_cgi_socket c = Some q) \<longleftrightarrow> (\<exists>g. h q = Some (Cgi g) \<and> cgs_owner g = Some p)"
proof
  assume "\<exists>c. h p = Some (Client c) \<and> cl_cgi_socket c = Some q"
  then obtain c where c: "h p = Some (Client c)" "obj_link (Client c) = Some q" by auto
  obtain obj where "h q = Some obj" "obj_link obj = Some p" "fst (obj_shape obj) = 1"
    by (rule linked_D [OF assms c]) simp
  then show "\<exists>g. h q = Some (Cgi g) \<and> cgs_owner g = Some p" by (cases obj) auto
next
  assume "\<exists>g. h q = Some (Cgi g) \<and> cgs_owner g = Some p"
  then obtain g where g: "h q = Some (Cgi g)" "obj_link (Cgi g) = Some p" by auto
  obtain obj where "h p = Some obj" "obj_link obj = Some q" "fst (obj_shape obj) = 0"
    by (rule linked_D [OF assms g]) simp
  then show "\<exists>c. h p = Some (Client c) \<and> cl_cgi_socket c = Some q" by (cases obj) auto
qed

text \<open>C24: A client and the program it waits for know each other: in every reachable state the client
  holds the pointer to the socket of its program exactly if that socket exists and names the
  client as its owner, so neither destructor writes through a pointer that outlived its object.\<close>

theorem cgi_links:
  assumes "os_ok os" and "reachable os left getcwd config_file w ws s"
  shows "(\<exists>c. heap s p = Some (Client c) \<and> cl_cgi_socket c = Some q) \<longleftrightarrow>
     (\<exists>g. heap s q = Some (Cgi g) \<and> cgs_owner g = Some p)"
  by (rule linked_pair [OF heap_ok_D(1) [OF good_D(1) [OF loop_ok_D(1) [OF reachable_ok [OF assms(2,1)]]]]])

theorem cgi_links_witness:
  "\<exists>ws s c. reachable tick_os (\<lambda>r _. r) None ''/c'' (0, []) ws s \<and> heap s 1 = Some (Client c) \<and>
     \<not> (\<exists>q g. heap s q = Some (Cgi g) \<and> cgs_owner g = Some 1)"
proof -
  obtain c where r: "reachable tick_os (\<lambda>r _. r) None ''/c'' (0, []) (tick_two c) (tick_connected c)" by (rule tick_reachable)
  have h: "heap (tick_connected c) 1 = Some (Client (tick_client c))" by (simp add: tick_connected_def)
  have "\<not> (\<exists>g. heap (tick_connected c) q = Some (Cgi g) \<and> cgs_owner g = Some 1)" for q
    using cgi_links [OF tick_os_ok r, of 1 q] h tick_client_fd(3) [of c] by auto
  then show ?thesis using r h by blast
qed




lemma busy_start:
  obtains e s where "Webserv_init busy_os None ''/c'' (initial_server (0, [])) = Some (Inl e, s)" and "fresh_log (calls s)"
    and "Close 3 \<in> set (calls s)"
proof -
  obtain c where c: "ConfigParser_Parse None sample_text = Inr [c]" by (rule sample_config)
  have e: "os_epoll_create busy_os w = (4, w)" "os_epoll_ctl busy_os epfd op fd ev p w = (Some 12, w)" "os_close busy_os fd w = ((), w)"
    for w epfd op fd ev p
    by (simp_all add: tick_os_def busy_os_def)
  obtain e s where "Webserv_init busy_os None ''/c'' (initial_server (0, [])) = Some (Inl e, s)"
      "calls s = [Stat ''/c'', ReadFile ''/c'', Epoll_create 4, Socket 3, Time, Fcntl_getfl 3, Fcntl_setfl 3 O_NONBLOCK,
        Setsockopt 3, Bind 3 (sc_port c), Listen 3, Epoll_ctl 4 EPOLL_CTL_ADD 3 EPOLLIN (Some 0) (Some 12), Close 3, Close 4]"
    by (simp add: Webserv_init_def act_run io_run initial_server_def tick_load c InitServersFromConfigs_def Webserv_empty_def
        tick_listen e call_epoll_ctl_def tick_listener_fd Let_def ClearResources_def delete_socket_def Fd_destroy_def
        Fd_Reset_def call_close_def release_def)
  then show thesis using that by (simp add: fresh_log_def)
qed


text \<open>C27: Shutdown leaves nothing behind: the destructor, run in any reachable state of a system that
  does not hand out an open descriptor, deletes every object and closes every descriptor.\<close>

theorem shutdown_releases:
  assumes "os_ok os" and "reachable os left getcwd config_file w ws s" and "fresh_log (calls s)"
  shows "\<exists>s'. Webserv_destroy os ws s = Some (Inr (), s') \<and> released s'"
proof -
  have "wp (Webserv_destroy os ws) (\<lambda>_ s'. released s') (\<lambda>_ _. False) s"
    unfolding Webserv_destroy_def wp_bind
    by (rule wp_clear_close [OF reachable_ok [OF assms(2,1)]]) (use assms(3) in blast)
  then show ?thesis by (rule wp_total) auto
qed

theorem shutdown_releases_witness:
  "\<exists>ws s s'. reachable tick_os (\<lambda>r _. r) None ''/c'' (0, []) ws s \<and> heap s 1 \<noteq> None \<and>
     Webserv_destroy tick_os ws s = Some (Inr (), s') \<and> released s'"
proof -
  obtain c where r: "reachable tick_os (\<lambda>r _. r) None ''/c'' (0, []) (tick_two c) (tick_connected c)" by (rule tick_reachable)
  have "heap (tick_connected c) 1 \<noteq> None" by (simp add: tick_connected_def)
  then show ?thesis using shutdown_releases [OF tick_os_ok r tick_fresh] r by blast
qed

text \<open>When several server blocks have the same port, the first one serves it, and no port is
  served that no block names.\<close>

theorem first_server_wins:
  "FindServerConfigByPort (InitServersFromConfigs configs ws) port = find (\<lambda>c. sc_port c = port) configs"
  by (simp add: FindServerConfigByPort_def InitServersFromConfigs_def init_loop_get)

end
