(* ===== verification/Client_Answers.thy ===== *)
theory Client_Answers
  imports Server_Safety
begin

text \<open>
  What reaches the client: a response in its buffer is sent to the end as long as the network takes
  bytes, and the end of a CGI program puts its output, or an error, into the buffer of the
  client that waits for it.
\<close>

subsection \<open>Delivery\<close>

text \<open>
  The network takes at least one byte at a time; \<open>sent\<close> is what it has taken, and only \<open>send\<close>
  adds to it.
\<close>

definition network :: "'w os \<Rightarrow> ('w \<Rightarrow> string) \<Rightarrow> bool" where
  "network os sent \<longleftrightarrow>
     (\<forall>fd d w. d \<noteq> [] \<longrightarrow>
        0 < fst (os_send os fd d w) \<and> fst (os_send os fd d w) \<le> int (length d) \<and>
        sent (snd (os_send os fd d w)) = sent w @ take (nat (fst (os_send os fd d w))) d) \<and>
     (\<forall>w. sent (snd (os_time os w)) = sent w) \<and>
     (\<forall>epfd op fd ev p w. sent (snd (os_epoll_ctl os epfd op fd ev p w)) = sent w)"

lemma network_D:
  assumes "network os sent"
  shows "d \<noteq> [] \<Longrightarrow> os_send os fd d w = (n, w') \<Longrightarrow> 0 < n \<and> n \<le> int (length d) \<and> sent w' = sent w @ take (nat n) d"
    and "os_time os w = (t, w') \<Longrightarrow> sent w' = sent w"
    and "os_epoll_ctl os epfd op fd ev p w = (r, w') \<Longrightarrow> sent w' = sent w"
  using assms unfolding network_def by (metis fst_conv snd_conv)+

text \<open>The events of a client that may write, until it is done.\<close>

fun write_events ::
  "'w os \<Rightarrow> (http_request \<Rightarrow> string \<Rightarrow> http_request) \<Rightarrow> int \<Rightarrow> nat \<Rightarrow> nat \<Rightarrow> ('w, bool) act" where
  "write_events os left epoll_fd this 0 = act_return False"
| "write_events os left epoll_fd this (Suc n) =
     act_bind (client_HandleEvent os left epoll_fd this EPOLLOUT) (\<lambda>r.
       if sr_remove_socket r then act_return True else write_events os left epoll_fd this n)"

lemma write_event:
  fixes s :: "'w server"
  assumes net: "network os sent" and c: "heap s this = Some (Client c)" and buf: "so_write_buffer c \<noteq> []"
  obtains n s' where "client_HandleEvent os left epoll_fd this EPOLLOUT s =
        Some (Inr (SocketResult_init\<lparr>sr_remove_socket := length (so_write_buffer c) \<le> n\<rparr>), s')"
    and "0 < n" and "n \<le> length (so_write_buffer c)"
    and "sent (world s') = sent (world s) @ take n (so_write_buffer c)"
    and "\<exists>c'. heap s' this = Some (Client c') \<and> so_write_buffer c' = drop n (so_write_buffer c) \<and>
      so_fd c' = so_fd c \<and> cl_cgi_socket c' = cl_cgi_socket c"
proof -
  have no_in: "EPOLLOUT AND EPOLLIN = 0" and out: "EPOLLOUT AND EPOLLOUT \<noteq> 0"
    by (simp_all add: EPOLLIN_def EPOLLOUT_def)
  let ?buf = "so_write_buffer c"
  obtain t w1 where t: "os_time os (world s) = (t, w1)" by (cases "os_time os (world s)")
  obtain k w2 where k: "os_send os (so_fd c) ?buf w1 = (k, w2)" by (cases "os_send os (so_fd c) ?buf w1")
  have k': "0 < k" "k \<le> int (length ?buf)" "sent w2 = sent w1 @ take (nat k) ?buf" using network_D(1) [OF net buf k] by simp_all
  have w1: "sent w1 = sent (world s)" by (rule network_D(2) [OF net t])
  have more: "nat k < length ?buf \<longleftrightarrow> k \<noteq> int (length ?buf)" using k' by auto
  show thesis
  proof (cases "nat k < length ?buf")
    case True
    show thesis
      by (rule that [of "nat k"])
         ((use c buf k' w1 True no_in out in \<open>simp_all add: client_HandleEvent_def client_UpdateLastActivity_def
            UpdateLastActivity_def call_time_def load_client_def store_def act_run io_run t k HandleEpollOut_def
            call_send_def SocketResult_init_def substr_def\<close>), simp_all add: k' w1)
  next
    case False
    then have whole: "k = int (length ?buf)" using more by simp
    obtain r w3 where r: "os_epoll_ctl os epoll_fd EPOLL_CTL_DEL (so_fd c) 0 None w2 = (r, w3)"
      by (cases "os_epoll_ctl os epoll_fd EPOLL_CTL_DEL (so_fd c) 0 None w2")
    have w3: "sent w3 = sent w2" by (rule network_D(3) [OF net r])
    show thesis
      by (rule that [of "nat k"])
         ((use c buf k' w1 w3 whole no_in out in \<open>simp_all add: client_HandleEvent_def client_UpdateLastActivity_def
            UpdateLastActivity_def call_time_def load_client_def store_def act_run io_run t k r HandleEpollOut_def
            call_send_def SocketResult_init_def client_exception_def unwatch_def call_epoll_ctl_def\<close>), simp_all add: k' w1 w3 whole)
  qed
qed

lemma delivered:
  fixes s :: "'w server"
  assumes "network os sent" and "heap s this = Some (Client c)" and "so_write_buffer c \<noteq> []"
    and "length (so_write_buffer c) \<le> n"
  shows "\<exists>s'. write_events os left epoll_fd this n s = Some (Inr True, s') \<and>
     sent (world s') = sent (world s) @ so_write_buffer c"
  using assms(2-)
proof (induction n arbitrary: s c)
  case (Suc n)
  obtain k s1 where step: "client_HandleEvent os left epoll_fd this EPOLLOUT s =
        Some (Inr (SocketResult_init\<lparr>sr_remove_socket := length (so_write_buffer c) \<le> k\<rparr>), s1)"
      and k: "0 < k" "k \<le> length (so_write_buffer c)" "sent (world s1) = sent (world s) @ take k (so_write_buffer c)"
      and c1: "\<exists>c'. heap s1 this = Some (Client c') \<and> so_write_buffer c' = drop k (so_write_buffer c)"
    by (rule write_event [OF assms(1) Suc.prems(1,2)]) blast
  show ?case
  proof (cases "length (so_write_buffer c) \<le> k")
    case True
    then show ?thesis using step k by (simp add: act_run)
  next
    case False
    obtain c' where c': "heap s1 this = Some (Client c')" "so_write_buffer c' = drop k (so_write_buffer c)" using c1 by blast
    have "\<exists>s'. write_events os left epoll_fd this n s1 = Some (Inr True, s') \<and>
       sent (world s') = sent (world s1) @ so_write_buffer c'"
      by (rule Suc.IH [OF c'(1)]) (use False k(1) c'(2) Suc.prems(3) in auto)
    moreover have "take k (so_write_buffer c) @ so_write_buffer c' = so_write_buffer c" by (simp add: c'(2))
    ultimately show ?thesis using step k(3) False by (auto simp: act_run)
  qed
qed simp

text \<open>A response is delivered: while the network takes at least one byte at a time, as many
  events as the response has bytes are enough to send all of it, in order and once, and then the
  connection is given up.\<close>

theorem response_is_delivered:
  fixes s :: "'w server"
  assumes "network os sent" and "heap s this = Some (Client c)" and "so_write_buffer c \<noteq> []"
    and "length (so_write_buffer c) \<le> n"
  shows "\<exists>s'. write_events os left epoll_fd this n s = Some (Inr True, s') \<and>
     sent (world s') = sent (world s) @ so_write_buffer c"
  by (rule delivered [OF assms])

definition slow_os :: "ticks os" where
  "slow_os = tick_os\<lparr>os_send := (\<lambda>fd d (n, sent). (1, (n, sent @ take 1 d)))\<rparr>"

lemma slow_network: "network slow_os snd"
  by (auto simp: network_def slow_os_def tick_os_def Suc_le_eq)

theorem response_is_delivered_witness:
  "\<exists>s'. write_events slow_os (\<lambda>r _. r) 4 1 2
       ((tick_connected ServerConfig_init)\<lparr>heap := [1 \<mapsto> Client ((tick_client ServerConfig_init)\<lparr>so_write_buffer := ''hi''\<rparr>)]\<rparr>) = Some (Inr True, s') \<and>
     snd (world s') = ''hi''"
proof -
  let ?s = "(tick_connected ServerConfig_init)\<lparr>heap := [1 \<mapsto> Client ((tick_client ServerConfig_init)\<lparr>so_write_buffer := ''hi''\<rparr>)]\<rparr>"
  have "heap ?s 1 = Some (Client ((tick_client ServerConfig_init)\<lparr>so_write_buffer := ''hi''\<rparr>))" by simp
  from response_is_delivered [OF slow_network this, of 2 "\<lambda>r _. r" 4] show ?thesis
    by (simp add: tick_connected_def)
qed

subsection \<open>The end of a CGI program\<close>

lemma set_response_run:
  fixes s :: "'w server"
  assumes "heap s this = Some (Client c)"
  obtains date w cs where "set_response os this res s = Some (Inr (), s\<lparr>world := w, calls := calls s @ cs,
      heap := (heap s)(this \<mapsto> Client (c\<lparr>cl_res := res, so_write_buffer := ToHttpString date res\<rparr>))\<rparr>)"
proof (cases "map_has (rs_headers res) ''date''")
  case True
  then show thesis using assms that [where w = "world s" and cs = "[]" and date = None]
    by (simp add: set_response_def call_ToHttpString_def load_client_def store_def act_run io_run)
next
  case False
  obtain d w where "os_http_date os (world s) = (d, w)" by (cases "os_http_date os (world s)")
  then show thesis using False assms that [where w = w and cs = "[Date]" and date = d]
    by (simp add: set_response_def call_ToHttpString_def load_client_def store_def act_run io_run)
qed

text \<open>The client holds a response and waits for permission to write it.\<close>

definition answered :: "int \<Rightarrow> nat \<Rightarrow> http_response \<Rightarrow> 'w server \<Rightarrow> bool" where
  "answered epoll_fd p res s \<longleftrightarrow>
     (\<exists>c date r. heap s p = Some (Client c) \<and> cl_res c = res \<and> so_write_buffer c = ToHttpString date res \<and>
        last (calls s) = Epoll_ctl epoll_fd EPOLL_CTL_MOD (so_fd c) EPOLLOUT (Some p) r)"

lemma set_watch_run:
  fixes s :: "'w server"
  assumes "heap s p = Some (Client c)"
  obtains s' where "act_bind (set_response os p res) (\<lambda>_. act_bind (watch_output os epoll_fd p) (\<lambda>_. act_return ())) s =
      Some (Inr (), s')"
    and "answered epoll_fd p res s' \<and>
      (\<exists>c'. heap s' p = Some (Client c') \<and> so_fd c' = so_fd c \<and> cl_cgi_socket c' = cl_cgi_socket c)"
    and "\<And>x. x \<noteq> p \<Longrightarrow> heap s' x = heap s x"
proof -
  obtain date w cs where set: "set_response os p res s = Some (Inr (), s\<lparr>world := w, calls := calls s @ cs,
      heap := (heap s)(p \<mapsto> Client (c\<lparr>cl_res := res, so_write_buffer := ToHttpString date res\<rparr>))\<rparr>)"
    by (rule set_response_run [OF assms])
  obtain r w' where r: "os_epoll_ctl os epoll_fd EPOLL_CTL_MOD (so_fd c) EPOLLOUT (Some p) w = (r, w')"
    by (cases "os_epoll_ctl os epoll_fd EPOLL_CTL_MOD (so_fd c) EPOLLOUT (Some p) w")
  show thesis
    by (rule that, simp add: act_run io_run set watch_output_def load_client_def call_epoll_ctl_def r)
       (auto simp: answered_def)
qed

lemma UpdateLastActivity_run:
  fixes s :: "'w server"
  assumes "heap s p = Some (Client c)"
  obtains w t where "client_UpdateLastActivity os p s = Some (Inr (), s\<lparr>world := w, calls := calls s @ [Time],
      heap := (heap s)(p \<mapsto> Client (c\<lparr>so_last_activity := t\<rparr>))\<rparr>)"
  using assms that
  by (cases "os_time os (world s)")
     (simp add: client_UpdateLastActivity_def UpdateLastActivity_def call_time_def load_client_def store_def act_run io_run)

text \<open>The response that the output and the exit status of a program stand for.\<close>

definition cgi_answer :: "int option \<Rightarrow> string \<Rightarrow> exn + http_response" where
  "cgi_answer status out =
     (if status = Some 0 then
        (case ParseCgiResponse out of Some (Inr res) \<Rightarrow> Inr res | _ \<Rightarrow> closing_response kInternalServerError)
      else Inr (HttpResponse_of kInternalServerError))"

lemma owner_told:
  fixes s :: "'w server"
  assumes "heap s p = Some (Client c)"
  obtains res s' where "cgi_answer status out = Inr res"
    and "(if status = Some 0 then OnCgiExecutionFinished os epoll_fd p out else OnCgiExecutionError os epoll_fd p) s =
      Some (Inr (), s')"
    and "answered epoll_fd p res s' \<and>
      (\<exists>c'. heap s' p = Some (Client c') \<and> so_fd c' = so_fd c \<and> cl_cgi_socket c' = cl_cgi_socket c)"
    and "\<And>x. x \<noteq> p \<Longrightarrow> heap s' x = heap s x"
proof -
  obtain w t where up: "client_UpdateLastActivity os p s = Some (Inr (), s\<lparr>world := w, calls := calls s @ [Time],
      heap := (heap s)(p \<mapsto> Client (c\<lparr>so_last_activity := t\<rparr>))\<rparr>)" (is "_ = Some (_, ?s)")
    by (rule UpdateLastActivity_run [OF assms])
  have c: "heap ?s p = Some (Client (c\<lparr>so_last_activity := t\<rparr>))" by simp
  obtain bad where bad: "closing_response kInternalServerError = Inr bad" by (rule closing_response_Inr)
  define res where "res = (if status = Some 0 then
      (case cgi_response out of Inr r \<Rightarrow> r | Inl _ \<Rightarrow> bad) else HttpResponse_of kInternalServerError)"
  have answer: "cgi_answer status out = Inr res"
    by (simp add: cgi_answer_def res_def ParseCgiResponse_eq bad split: sum.split)
  obtain s' where s': "act_bind (set_response os p res) (\<lambda>_. act_bind (watch_output os epoll_fd p) (\<lambda>_. act_return ())) ?s =
      Some (Inr (), s')"
      "answered epoll_fd p res s' \<and> (\<exists>c'. heap s' p = Some (Client c') \<and> so_fd c' = so_fd c \<and> cl_cgi_socket c' = cl_cgi_socket c)"
      "\<And>x. x \<noteq> p \<Longrightarrow> heap s' x = heap ?s x"
    by (rule set_watch_run [OF c]) auto
  have "(if status = Some 0 then OnCgiExecutionFinished os epoll_fd p out else OnCgiExecutionError os epoll_fd p) s =
      Some (Inr (), s')"
  proof (cases "status = Some 0")
    case False
    then show ?thesis using s'(1) by (simp add: OnCgiExecutionError_def act_run(3) [of "client_UpdateLastActivity os p"] up res_def)
  next
    case True
    show ?thesis
    proof (cases "cgi_response out")
      case (Inr r)
      then show ?thesis using s'(1) True
        by (simp add: OnCgiExecutionFinished_def act_run(1,3) up res_def ParseCgiResponse_eq)
    next
      case (Inl e)
      obtain st where "e = ResponseStatusException st" using cgi_error_statuses [OF Inl] by auto
      then show ?thesis using s'(1) True Inl
        by (simp add: OnCgiExecutionFinished_def act_run(1,3,5) io_run up res_def ParseCgiResponse_eq bad)
    qed
  qed
  then show thesis using that [OF answer _ s'(2)] s'(3) by simp
qed

text \<open>The end of a CGI program reaches its client. When the program has closed its output, the
  server waits for it, forgets its process, takes its socket out of \<open>epoll\<close> and has it removed,
  and the client that owns it gets the response that the output stands for (status 500 when the output is not
  a response or the program failed) and is registered for writing.\<close>

lemma cgi_end_answers:
  fixes s :: "'w server"
  assumes "heap s q = Some (Cgi g)" and "cgs_owner g = Some p" and "heap s p = Some (Client c)"
    and "\<And>w. fst (os_read os (so_fd g) kBufferSize w) = Some []"
    and "\<And>w. fst (os_waitpid os (cgs_pid g) w) = status"
    and "\<And>w. fst (os_epoll_ctl os epoll_fd EPOLL_CTL_DEL (so_fd g) 0 None w) = None"
  shows "\<exists>res s' g'. cgi_answer status (so_read_buffer g) = Inr res \<and>
     cgi_HandleEvent os epoll_fd q EPOLLIN s = Some (Inr \<lparr>sr_new_socket = None, sr_remove_socket = True\<rparr>, s') \<and>
     answered epoll_fd p res s' \<and>
     (\<exists>c'. heap s' p = Some (Client c') \<and> so_fd c' = so_fd c \<and> cl_cgi_socket c' = cl_cgi_socket c) \<and>
     heap s' q = Some (Cgi g') \<and> cgs_pid g' = -1 \<and> so_fd g' = so_fd g \<and> cgs_owner g' = Some p"
proof -
  obtain w1 where rd: "os_read os (so_fd g) kBufferSize (world s) = (Some [], w1)"
    using assms(4) [of "world s"] by (cases "os_read os (so_fd g) kBufferSize (world s)") simp
  obtain w2 where wt: "os_waitpid os (cgs_pid g) w1 = (status, w2)"
    using assms(5) [of w1] by (cases "os_waitpid os (cgs_pid g) w1") simp
  obtain w3 where ep: "os_epoll_ctl os epoll_fd EPOLL_CTL_DEL (so_fd g) 0 None w2 = (None, w3)"
    using assms(6) [of w2] by (cases "os_epoll_ctl os epoll_fd EPOLL_CTL_DEL (so_fd g) 0 None w2") simp
  let ?g = "Cgi (g\<lparr>cgs_pid := -1\<rparr>)"
  define s1 where "s1 = s\<lparr>heap := (heap s)(q \<mapsto> ?g), world := w3, calls := calls s @ [Read (so_fd g) kBufferSize,
      Waitpid (cgs_pid g), Epoll_ctl epoll_fd EPOLL_CTL_DEL (so_fd g) 0 None None]\<rparr>"
  have pq: "p \<noteq> q" using assms(1,3) by auto
  have c: "heap s1 p = Some (Client c)" using assms(3) pq by (simp add: s1_def)
  obtain res s' where told: "cgi_answer status (so_read_buffer g) = Inr res"
      "(if status = Some 0 then OnCgiExecutionFinished os epoll_fd p (so_read_buffer g) else OnCgiExecutionError os epoll_fd p) s1 =
        Some (Inr (), s')"
      "answered epoll_fd p res s' \<and> (\<exists>c'. heap s' p = Some (Client c') \<and> so_fd c' = so_fd c \<and> cl_cgi_socket c' = cl_cgi_socket c)"
      "\<And>x. x \<noteq> p \<Longrightarrow> heap s' x = heap s1 x"
    by (rule owner_told [where status = status and out = "so_read_buffer g" and os = os and epoll_fd = epoll_fd, OF c]) blast
  have "EPOLLIN AND EPOLLIN \<noteq> 0" by (simp add: EPOLLIN_def)
  then have "cgi_HandleEvent os epoll_fd q EPOLLIN s = Some (Inr \<lparr>sr_new_socket = None, sr_remove_socket = True\<rparr>, s')"
    using told(2) assms(1,2)
    by (cases "status = Some 0")
       (simp_all add: cgi_HandleEvent_def cgi_finished_def act_run io_run load_cgi_def store_def rd call_waitpid_def wt
         unwatch_def call_epoll_ctl_def ep SocketResult_init_def s1_def [symmetric])
  moreover have "heap s' q = Some ?g" using told(4) pq by (simp add: s1_def)
  moreover have "cgs_pid (g\<lparr>cgs_pid := -1\<rparr>) = -1" "so_fd (g\<lparr>cgs_pid := -1\<rparr>) = so_fd g" "cgs_owner (g\<lparr>cgs_pid := -1\<rparr>) = Some p"
    using assms(2) by simp_all
  ultimately show ?thesis using told(1,3) by blast
qed

end
