(* ===== verification/End_To_End.thy ===== *)
theory End_To_End
  imports Client_Answers Http_Request_Parse
begin

text \<open>
  From the bytes that a client sends to the response that waits to be sent: one event of a
  connection, through the parser, the handler and the rendering of the response, with the
  theorems of these components put together.
\<close>

subsection \<open>One event with a message that the parser takes or refuses\<close>

text \<open>The machine that the handler sees: the clock was read and the bytes were received.\<close>

definition received :: "'w os \<Rightarrow> int \<Rightarrow> 'w server \<Rightarrow> string option \<times> 'w machine" where
  "received os fd s =
     (case os_time os (world s) of (t, w1) \<Rightarrow>
        case os_recv os fd kBufferSize w1 of (r, w2) \<Rightarrow>
          (r, \<lparr>world = w2, calls = calls s @ [Time, Recv fd kBufferSize]\<rparr>))"

text \<open>Registration for writing succeeds.\<close>

definition watches :: "'w os \<Rightarrow> int \<Rightarrow> int \<Rightarrow> nat \<Rightarrow> bool" where
  "watches os epoll_fd fd p \<longleftrightarrow>
     (\<forall>w. fst (os_epoll_ctl os epoll_fd EPOLL_CTL_MOD fd EPOLLOUT (Some p) w) = None)"

lemma watches_D:
  assumes "watches os epoll_fd fd p"
  obtains w' where "os_epoll_ctl os epoll_fd EPOLL_CTL_MOD fd EPOLLOUT (Some p) w = (None, w')"
  using assms unfolding watches_def
  by (cases "os_epoll_ctl os epoll_fd EPOLL_CTL_MOD fd EPOLLOUT (Some p) w") (metis fst_conv)

lemma load_client_run: "heap s p = Some (Client c) \<Longrightarrow> load_client p s = Some (Inr c, s)"
  by (simp add: load_client_def act_run)

text \<open>The state in which the request is parsed.\<close>

lemma input_run:
  fixes s :: "'w server"
  assumes c: "heap s p = Some (Client c)" and rc: "received os (so_fd c) s = (Some data, m)" and "data \<noteq> []"
  obtains c1 where "so_fd c1 = so_fd c" and "cl_req c1 = cl_req c" and "cl_config c1 = cl_config c"
    and "cl_cgi_socket c1 = cl_cgi_socket c"
    and "client_HandleEvent os left epoll_fd p EPOLLIN s =
      (case act_bind (parse_request left p data) (\<lambda>req.
           if IsDone req then answer_request os epoll_fd p else act_return SocketResult_init)
           (s\<lparr>heap := (heap s)(p \<mapsto> Client c1), world := world m, calls := calls m\<rparr>) of
         None \<Rightarrow> None
       | Some (Inl e, s1) \<Rightarrow> client_exception os epoll_fd p SocketResult_init e s1
       | Some (Inr r, s1) \<Rightarrow> Some (Inr r, s1))"
proof -
  have ev: "EPOLLIN \<noteq> 0" "EPOLLIN AND EPOLLOUT = 0" by (simp_all add: EPOLLIN_def EPOLLOUT_def)
  obtain t w1 where t: "os_time os (world s) = (t, w1)" by (cases "os_time os (world s)")
  obtain w2 where r: "os_recv os (so_fd c) kBufferSize w1 = (Some data, w2)"
      and m: "m = \<lparr>world = w2, calls = calls s @ [Time, Recv (so_fd c) kBufferSize]\<rparr>"
    using rc by (cases "os_recv os (so_fd c) kBufferSize w1") (simp add: received_def t)
  let ?c = "c\<lparr>so_last_activity := t\<rparr>"
  let ?s1 = "s\<lparr>heap := (heap s)(p \<mapsto> Client ?c), world := w1, calls := calls s @ [Time]\<rparr>"
  let ?rest = "act_bind (parse_request left p data) (\<lambda>req.
      if IsDone req then answer_request os epoll_fd p else act_return SocketResult_init)"
  have up: "client_UpdateLastActivity os p s = Some (Inr (), ?s1)"
    by (simp add: client_UpdateLastActivity_def UpdateLastActivity_def call_time_def load_client_def store_def act_run io_run t c)
  have "HandleEpollIn os left epoll_fd p ?s1 = ?rest (?s1\<lparr>world := world m, calls := calls m\<rparr>)"
    by (simp add: HandleEpollIn_def act_run(3) [of "load_client p"] act_run(3) [of "run_io f" for f]
        load_client_run [of _ p ?c] act_run(1,5) io_run r m assms(3) cong: if_cong)
  then have "client_HandleEvent os left epoll_fd p EPOLLIN s =
      (case ?rest (?s1\<lparr>world := world m, calls := calls m\<rparr>) of
         None \<Rightarrow> None
       | Some (Inl e, s1) \<Rightarrow> client_exception os epoll_fd p SocketResult_init e s1
       | Some (Inr r, s1) \<Rightarrow> Some (Inr r, s1))"
    by (simp add: client_HandleEvent_def act_run(3) [of "client_UpdateLastActivity os p"] up ev act_run(3) [of "act_try f" for f]
        act_run(1,4) split: option.split prod.split sum.split)
  then show thesis by (intro that [of ?c]) simp_all
qed

lemma parse_request_run:
  "heap s p = Some (Client c) \<Longrightarrow> HttpRequest_Parse (cl_req c) data = Some (Inr r) \<Longrightarrow>
     parse_request left p data s = Some (Inr r, s\<lparr>heap := (heap s)(p \<mapsto> Client (c\<lparr>cl_req := r\<rparr>))\<rparr>)"
  "heap s p = Some (Client c) \<Longrightarrow> HttpRequest_Parse (cl_req c) data = Some (Inl e) \<Longrightarrow>
     parse_request left p data s =
       Some (Inl e, s\<lparr>heap := (heap s)(p \<mapsto> Client (c\<lparr>cl_req := failed_parse left (cl_req c) data\<rparr>))\<rparr>)"
  by (simp_all add: parse_request_def act_run load_client_run store_def)

text \<open>
  A complete request, up to the point where the answer of the handler is in the buffer of the
  client; \<open>answer_rest\<close> is what is left of the event.
\<close>

definition answer_rest :: "'w os \<Rightarrow> int \<Rightarrow> nat \<Rightarrow> exec_result \<Rightarrow> ('w, socket_result) act" where
  "answer_rest os epoll_fd p result =
     (if er_is_async result then
        (case er_new_socket result of
           None \<Rightarrow> act_return SocketResult_init
         | Some g \<Rightarrow>
             act_bind (adopt_cgi_socket p g) (\<lambda>q. act_return (SocketResult_init\<lparr>sr_new_socket := Some q\<rparr>)))
      else
        act_bind (set_response os p (er_response result)) (\<lambda>_.
        act_bind (watch_output os epoll_fd p) (\<lambda>r.
          case r of
            Some e \<Rightarrow> act_throw (ResponseStatusException (MapErrnoToHttpStatus e))
          | None \<Rightarrow> act_return SocketResult_init)))"

lemma request_handled:
  fixes s :: "'w server"
  assumes c: "heap s p = Some (Client c)" and rc: "received os (so_fd c) s = (Some data, m)" and "data \<noteq> []"
    and parse: "HttpRequest_Parse (cl_req c) data = Some (Inr r)" and "IsDone r"
    and run: "RequestHandler_Run os (RequestHandler_init (cl_config c) r) m = (er, m')"
  obtains s1 c1 where "heap s1 p = Some (Client c1)" and "so_fd c1 = so_fd c" and "cl_cgi_socket c1 = cl_cgi_socket c"
    and "next_address s1 = next_address s"
    and "\<And>x s2. answer_rest os epoll_fd p er s1 = Some (Inr x, s2) \<Longrightarrow>
      client_HandleEvent os left epoll_fd p EPOLLIN s = Some (Inr x, s2)"
proof -
  obtain c1 where c1: "so_fd c1 = so_fd c" "cl_req c1 = cl_req c" "cl_config c1 = cl_config c" "cl_cgi_socket c1 = cl_cgi_socket c"
    and ev: "client_HandleEvent os left epoll_fd p EPOLLIN s =
      (case act_bind (parse_request left p data) (\<lambda>req.
           if IsDone req then answer_request os epoll_fd p else act_return SocketResult_init)
           (s\<lparr>heap := (heap s)(p \<mapsto> Client c1), world := world m, calls := calls m\<rparr>) of
         None \<Rightarrow> None
       | Some (Inl e, s1) \<Rightarrow> client_exception os epoll_fd p SocketResult_init e s1
       | Some (Inr r, s1) \<Rightarrow> Some (Inr r, s1))"
    by (rule input_run [OF c rc \<open>data \<noteq> []\<close>]) blast
  let ?s1 = "s\<lparr>heap := (heap s)(p \<mapsto> Client c1), world := world m, calls := calls m\<rparr>"
  let ?c2 = "c1\<lparr>cl_req := r\<rparr>"
  define s2 where "s2 = ?s1\<lparr>heap := (heap ?s1)(p \<mapsto> Client ?c2)\<rparr>"
  have parsed: "parse_request left p data ?s1 = Some (Inr r, s2)"
    unfolding s2_def by (rule parse_request_run) (use parse c1 in simp_all)
  have c2: "heap s2 p = Some (Client ?c2)" by (simp add: s2_def)
  have "RequestHandler_Run os (RequestHandler_init (cl_config c) r) \<lparr>world = world m, calls = calls m\<rparr> = (er, m')"
    using run by (cases m) simp
  then have hand: "run_io (call_handler os (cl_config ?c2) (cl_req ?c2)) s2 =
      Some (Inr er, s2\<lparr>world := world m', calls := calls m'\<rparr>)" (is "_ = Some (_, ?s3)")
    using c1 by (simp add: act_run call_handler_def s2_def io_run)
  have c3: "heap ?s3 p = Some (Client ?c2)" using c2 by simp
  obtain date w cs where set: "set_response os p (er_response er) ?s3 = Some (Inr (), ?s3\<lparr>world := w, calls := calls ?s3 @ cs,
      heap := (heap ?s3)(p \<mapsto> Client (?c2\<lparr>cl_res := er_response er, so_write_buffer := ToHttpString date (er_response er)\<rparr>))\<rparr>)"
      (is "_ = Some (_, ?s4)")
    by (rule set_response_run [OF c3])
  have "answer_request os epoll_fd p s2 = answer_rest os epoll_fd p er ?s4"
    unfolding answer_request_def answer_rest_def [symmetric]
    by (simp only: act_run(3) [of "load_client p"] load_client_run [OF c2] act_run(3) [of "run_io f" for f] hand
        act_run(3) [of "set_response os p res" for res] set option.case sum.case prod.case)
  then have ev: "answer_rest os epoll_fd p er ?s4 = Some (Inr x, t) \<Longrightarrow> client_HandleEvent os left epoll_fd p EPOLLIN s = Some (Inr x, t)"
    for x t using \<open>IsDone r\<close>
    by (simp only: ev act_run(3) [of "parse_request left p data"] parsed if_True option.case sum.case prod.case)
  show thesis
    by (rule that [of ?s4 "?c2\<lparr>cl_res := er_response er, so_write_buffer := ToHttpString date (er_response er)\<rparr>", OF _ _ _ _ ev])
       (use c1 in \<open>simp_all add: s2_def\<close>)
qed

text \<open>The answer does not need a program.\<close>

lemma request_answered:
  fixes s :: "'w server"
  assumes c: "heap s p = Some (Client c)" and rc: "received os (so_fd c) s = (Some data, m)" and "data \<noteq> []"
    and parse: "HttpRequest_Parse (cl_req c) data = Some (Inr r)" and "IsDone r"
    and run: "RequestHandler_Run os (RequestHandler_init (cl_config c) r) m = (er, m')"
    and sync: "\<not> er_is_async er" and watch: "watches os epoll_fd (so_fd c) p"
  shows "\<exists>s'. client_HandleEvent os left epoll_fd p EPOLLIN s = Some (Inr SocketResult_init, s') \<and>
     answered epoll_fd p (er_response er) s' \<and>
     (\<exists>c'. heap s' p = Some (Client c') \<and> so_fd c' = so_fd c \<and> cl_cgi_socket c' = cl_cgi_socket c)"
proof -
  obtain s1 c1 where c1: "heap s1 p = Some (Client c1)" "so_fd c1 = so_fd c" "cl_cgi_socket c1 = cl_cgi_socket c"
    and ev: "\<And>x s2. answer_rest os epoll_fd p er s1 = Some (Inr x, s2) \<Longrightarrow>
      client_HandleEvent os left epoll_fd p EPOLLIN s = Some (Inr x, s2)"
    by (rule request_handled [OF assms(1-6), where epoll_fd = epoll_fd and left = left]) blast
  obtain date w cs where set: "set_response os p (er_response er) s1 = Some (Inr (), s1\<lparr>world := w, calls := calls s1 @ cs,
      heap := (heap s1)(p \<mapsto> Client (c1\<lparr>cl_res := er_response er, so_write_buffer := ToHttpString date (er_response er)\<rparr>))\<rparr>)"
      (is "_ = Some (_, ?s2)")
    by (rule set_response_run [OF c1(1)])
  obtain w3 where w3: "os_epoll_ctl os epoll_fd EPOLL_CTL_MOD (so_fd c) EPOLLOUT (Some p) (world ?s2) = (None, w3)"
    by (rule watches_D [OF watch])
  let ?s3 = "?s2\<lparr>world := w3, calls := calls ?s2 @ [Epoll_ctl epoll_fd EPOLL_CTL_MOD (so_fd c) EPOLLOUT (Some p) None]\<rparr>"
  have watched: "watch_output os epoll_fd p ?s2 = Some (Inr None, ?s3)"
    using w3 c1 by (simp add: watch_output_def act_run load_client_def call_epoll_ctl_def io_run)
  have "answer_rest os epoll_fd p er s1 = Some (Inr SocketResult_init, ?s3)"
    by (simp only: answer_rest_def act_run(3) [of "set_response os p res" for res] set sync if_False
        act_run(3) [of "watch_output os epoll_fd p"] watched option.case sum.case prod.case act_run(1))
  then have "client_HandleEvent os left epoll_fd p EPOLLIN s = Some (Inr SocketResult_init, ?s3)" by (rule ev)
  moreover have "answered epoll_fd p (er_response er) ?s3" using c1 by (auto simp: answered_def)
  moreover have "\<exists>c'. heap ?s3 p = Some (Client c') \<and> so_fd c' = so_fd c \<and> cl_cgi_socket c' = cl_cgi_socket c"
    using c1 by simp
  ultimately show ?thesis by blast
qed

text \<open>The answer starts a program: its socket is the object at the next address.\<close>

lemma program_started:
  fixes s :: "'w server"
  assumes c: "heap s p = Some (Client c)" and rc: "received os (so_fd c) s = (Some data, m)" and "data \<noteq> []"
    and parse: "HttpRequest_Parse (cl_req c) data = Some (Inr r)" and "IsDone r"
    and run: "RequestHandler_Run os (RequestHandler_init (cl_config c) r) m = (er, m')"
    and async: "er_is_async er" "er_new_socket er = Some g" and new: "next_address s \<noteq> p"
  shows "\<exists>s' c'. client_HandleEvent os left epoll_fd p EPOLLIN s =
       Some (Inr (SocketResult_init\<lparr>sr_new_socket := Some (next_address s)\<rparr>), s') \<and>
     heap s' (next_address s) = Some (Cgi (g\<lparr>cgs_owner := Some p\<rparr>)) \<and>
     heap s' p = Some (Client c') \<and> cl_cgi_socket c' = Some (next_address s) \<and> so_fd c' = so_fd c"
proof -
  let ?q = "next_address s"
  obtain s1 c1 where c1: "heap s1 p = Some (Client c1)" "so_fd c1 = so_fd c" and q: "next_address s1 = ?q"
    and ev: "\<And>x s2. answer_rest os epoll_fd p er s1 = Some (Inr x, s2) \<Longrightarrow>
      client_HandleEvent os left epoll_fd p EPOLLIN s = Some (Inr x, s2)"
    by (rule request_handled [OF assms(1-6), where epoll_fd = epoll_fd and left = left]) blast
  let ?s2 = "s1\<lparr>heap := (heap s1)(?q \<mapsto> Cgi (g\<lparr>cgs_owner := Some p\<rparr>), p \<mapsto> Client (c1\<lparr>cl_cgi_socket := Some ?q\<rparr>)),
    next_address := Suc ?q\<rparr>"
  have adopted: "adopt_cgi_socket p g s1 = Some (Inr ?q, ?s2)"
    using new c1 by (simp add: adopt_cgi_socket_def OnSetOwner_def act_run create_def load_def load_client_def store_def q)
  have "answer_rest os epoll_fd p er s1 = Some (Inr (SocketResult_init\<lparr>sr_new_socket := Some ?q\<rparr>), ?s2)"
    by (simp only: answer_rest_def async if_True act_run(3) [of "adopt_cgi_socket p g"] adopted option.case sum.case
        prod.case act_run(1))
  then have "client_HandleEvent os left epoll_fd p EPOLLIN s = Some (Inr (SocketResult_init\<lparr>sr_new_socket := Some ?q\<rparr>), ?s2)"
    by (rule ev)
  then show ?thesis using new c1(2) by fastforce
qed

text \<open>A message that the parser refuses.\<close>

lemma refusal_answered:
  fixes s :: "'w server"
  assumes c: "heap s p = Some (Client c)" and rc: "received os (so_fd c) s = (Some data, m)" and "data \<noteq> []"
    and parse: "HttpRequest_Parse (cl_req c) data = Some (Inl (ResponseStatusException st))"
    and watch: "watches os epoll_fd (so_fd c) p"
  shows "\<exists>s' res. client_HandleEvent os left epoll_fd p EPOLLIN s = Some (Inr SocketResult_init, s') \<and>
     closing_response st = Inr res \<and> answered epoll_fd p res s'"
proof -
  obtain c1 where c1: "so_fd c1 = so_fd c" "cl_req c1 = cl_req c" "cl_config c1 = cl_config c"
    and ev: "client_HandleEvent os left epoll_fd p EPOLLIN s =
      (case act_bind (parse_request left p data) (\<lambda>req.
           if IsDone req then answer_request os epoll_fd p else act_return SocketResult_init)
           (s\<lparr>heap := (heap s)(p \<mapsto> Client c1), world := world m, calls := calls m\<rparr>) of
         None \<Rightarrow> None
       | Some (Inl e, s1) \<Rightarrow> client_exception os epoll_fd p SocketResult_init e s1
       | Some (Inr r, s1) \<Rightarrow> Some (Inr r, s1))"
    by (rule input_run [OF c rc \<open>data \<noteq> []\<close>]) blast
  let ?s1 = "s\<lparr>heap := (heap s)(p \<mapsto> Client c1), world := world m, calls := calls m\<rparr>"
  let ?c2 = "c1\<lparr>cl_req := failed_parse left (cl_req c1) data\<rparr>"
  define s2 where "s2 = ?s1\<lparr>heap := (heap ?s1)(p \<mapsto> Client ?c2)\<rparr>"
  have parsed: "parse_request left p data ?s1 = Some (Inl (ResponseStatusException st), s2)"
    unfolding s2_def by (rule parse_request_run) (use parse c1 in simp_all)
  have c2: "heap s2 p = Some (Client ?c2)" by (simp add: s2_def)
  obtain res where res: "closing_response st = Inr res" by (rule closing_response_Inr)
  obtain date w cs where set: "set_response os p res s2 = Some (Inr (), s2\<lparr>world := w, calls := calls s2 @ cs,
      heap := (heap s2)(p \<mapsto> Client (?c2\<lparr>cl_res := res, so_write_buffer := ToHttpString date res\<rparr>))\<rparr>)"
      (is "_ = Some (_, ?s3)")
    by (rule set_response_run [OF c2])
  obtain w4 where w4: "os_epoll_ctl os epoll_fd EPOLL_CTL_MOD (so_fd c) EPOLLOUT (Some p) (world ?s3) = (None, w4)"
    by (rule watches_D [OF watch])
  let ?s4 = "?s3\<lparr>world := w4, calls := calls ?s3 @ [Epoll_ctl epoll_fd EPOLL_CTL_MOD (so_fd c) EPOLLOUT (Some p) None]\<rparr>"
  have watched: "watch_output os epoll_fd p ?s3 = Some (Inr None, ?s4)"
    using w4 c1 by (simp add: watch_output_def act_run load_client_def call_epoll_ctl_def io_run)
  have "run_io (io_lift (closing_response st)) s2 = Some (Inr res, s2)" by (simp add: act_run io_run res)
  then have "client_exception os epoll_fd p SocketResult_init (ResponseStatusException st) s2 = Some (Inr SocketResult_init, ?s4)"
    by (simp only: client_exception_def exn.case act_run(3) [of "run_io f" for f] act_run(3) [of "set_response os p res"]
        act_run(3) [of "watch_output os epoll_fd p"] set watched option.case sum.case prod.case) (simp add: act_run(1))
  then have "client_HandleEvent os left epoll_fd p EPOLLIN s = Some (Inr SocketResult_init, ?s4)"
    by (simp only: ev act_run(3) [of "parse_request left p data"] parsed option.case sum.case prod.case)
  moreover have "answered epoll_fd p res ?s4" using c1 by (auto simp: answered_def)
  ultimately show ?thesis using res by blast
qed

subsection \<open>A request in pieces\<close>

lemma last_piece:
  assumes "limit < 2 ^ 63" and "feed HttpRequest_Parse (fresh_request limit ip) ps = Some (Inr r1)" and "\<not> IsDone r1"
  shows "HttpRequest_Parse r1 d = HttpRequest_Parse (fresh_request limit ip) (concat ps @ d)"
  using request_stream.feed_parse [of "fresh_request limit ip" ps r1 d] fresh_request_wf [OF assms(1)] assms(2,3)
  by (simp add: HttpRequest_Parse_def IsDone_def)

lemma last_piece_done:
  assumes "limit < 2 ^ 63" and "feed HttpRequest_Parse (fresh_request limit ip) ps = Some (Inr r1)" and "\<not> IsDone r1"
    and "request_bytes limit m path query v kvs name port n keep body rest (concat ps @ d)"
  shows "HttpRequest_Parse r1 d = Some (Inr (the_request limit ip m path query v kvs name port n keep body rest))"
    and "IsDone (the_request limit ip m path query v kvs name port n keep body rest)"
proof -
  have "HttpRequest_Parse (fresh_request limit ip) (concat ps @ d) =
        Some (Inr (the_request limit ip m path query v kvs name port n keep body rest)) \<and>
      IsDone (the_request limit ip m path query v kvs name port n keep body rest)"
    using request_language_lemma [OF assms(1), of ip "concat ps @ d"] assms(4) by blast
  then show "HttpRequest_Parse r1 d = Some (Inr (the_request limit ip m path query v kvs name port n keep body rest))"
    and "IsDone (the_request limit ip m path query v kvs name port n keep body rest)"
    using last_piece [OF assms(1-3), of d] by simp_all
qed

subsection \<open>A file\<close>

lemma run_get_sync:
  assumes "file_system os view" and "target conf req l p" and "rq_method req = kGet" and "method_allowed l kGet"
    and "\<not> loc_cgi_enabled l" and "\<not> ends_with_slash (rq_uri req)" and "view (world m) p \<noteq> Some Other_node"
  shows "\<not> er_is_async (fst (RequestHandler_Run os (RequestHandler_init conf req) m))"
proof -
  obtain rh lm where rh: "lm_loc lm = l" "rh_req rh = req" "rh_filesystem_path rh = p"
      and run: "RequestHandler_Run os (RequestHandler_init conf req) m =
        (case dispatch os rh lm m of (Inr er, m') \<Rightarrow> (er, m') | (Inl e, m') \<Rightarrow> (exception_result e, m'))"
    using Run_method [OF assms(2) assms(4) [folded assms(3)]] by blast
  then have run: "RequestHandler_Run os (RequestHandler_init conf req) m =
      (case HandleGet os rh lm m of (Inr er, m') \<Rightarrow> (er, m') | (Inl e, m') \<Rightarrow> (exception_result e, m'))"
    by (simp add: dispatch_def assms(3))
  have valid: "valid_path (loc_root (lm_loc lm)) (rh_filesystem_path rh)"
    using target_valid [OF assms(2)] rh by simp
  note rhs = assms(5,6) [folded rh(1) rh(2)]
  show ?thesis
  proof (cases "view (world m) p")
    case None
    obtain m' where "HandleGet os rh lm m = (Inl (ResponseStatusException kNotFound), m')"
      using HandleGet_absent [OF assms(1) valid rhs(2,1)] None rh(3) by metis
    then show ?thesis using run by (simp add: exception_result_def ExecResult_of_response_def)
  next
    case (Some node)
    then obtain content where "view (world m) p = Some (File content)" using assms(7) by (cases node) auto
    then obtain res m' where "HandleGet os rh lm m = (Inr (ExecResult_of_response (SetStatus kOk (SetBody content res))), m')"
      using HandleGet_file [OF assms(1) valid rhs(2,1)] rh(3) by metis
    then show ?thesis using run by (simp add: ExecResult_of_response_def)
  qed
qed

lemma ToHttpString_nonempty: "ToHttpString date res \<noteq> []"
  by (simp add: ToHttpString_def)

text \<open>A response that is held and then sent.\<close>

definition sends :: "'w os \<Rightarrow> (http_request \<Rightarrow> string \<Rightarrow> http_request) \<Rightarrow> ('w \<Rightarrow> string) \<Rightarrow> int \<Rightarrow> nat \<Rightarrow> http_response \<Rightarrow> 'w server \<Rightarrow> bool" where
  "sends os left sent epoll_fd p res s \<longleftrightarrow>
     (\<exists>date n s'. write_events os left epoll_fd p n s = Some (Inr True, s') \<and>
        sent (world s') = sent (world s) @ ToHttpString date res)"

lemma answered_sends:
  fixes s :: "'w server"
  assumes "network os sent" and "answered epoll_fd p res s"
  shows "sends os left sent epoll_fd p res s"
proof -
  obtain c date where c: "heap s p = Some (Client c)" "so_write_buffer c = ToHttpString date res"
    using assms(2) by (auto simp: answered_def)
  then have "so_write_buffer c \<noteq> []" by (simp add: ToHttpString_nonempty)
  from delivered [OF assms(1) c(1) this order_refl] show ?thesis unfolding sends_def c(2) by blast
qed


subsection \<open>Silence\<close>

lemma send_loop_all:
  assumes "network os sent"
  obtains m' where "send_loop os fd buffer m = (Inr [], m')" and "sent (world m') = sent (world m) @ buffer"
proof -
  have "\<exists>m'. send_loop os fd buffer m = (Inr [], m') \<and> sent (world m') = sent (world m) @ buffer"
    using assms
  proof (induction os fd buffer m rule: send_loop.induct)
    case (1 os fd buffer m)
    show ?case
    proof (cases "buffer = []")
      case True
      then show ?thesis by simp
    next
      case False
      obtain k w where k: "os_send os fd buffer (world m) = (k, w)" by (cases "os_send os fd buffer (world m)")
      note sent = network_D(1) [OF 1(2) False k]
      obtain m1 where send: "call_send os fd buffer m = (Inr k, m1)" and w: "world m1 = w"
        by (simp add: call_send_def io_run k)
      show ?thesis
      proof (cases "nat k < length buffer")
        case True
        have "\<exists>m'. send_loop os fd (substr buffer (nat k) (length buffer)) m1 = (Inr [], m') \<and>
            sent (world m') = sent (world m1) @ substr buffer (nat k) (length buffer)"
          by (rule "1.IH" [OF False send [symmetric] refl _ True 1(2)]) (use sent in simp)
        moreover have "take (nat k) buffer @ substr buffer (nat k) (length buffer) = buffer" by (simp add: substr_def)
        ultimately show ?thesis
          using True sent w by (subst send_loop.simps) (auto simp: False send simp del: send_loop.simps)
      next
        case whole: False
        then show ?thesis
          using sent w by (subst send_loop.simps) (simp add: False send del: send_loop.simps)
      qed
    qed
  qed
  then show thesis using that by blast
qed

lemma set_response_quiet:
  fixes s :: "'w server"
  assumes "heap s p = Some (Client c)" and "\<And>w. sent (snd (os_http_date os w)) = sent w"
  obtains date w cs where "set_response os p res s = Some (Inr (), s\<lparr>world := w, calls := calls s @ cs,
      heap := (heap s)(p \<mapsto> Client (c\<lparr>cl_res := res, so_write_buffer := ToHttpString date res\<rparr>))\<rparr>)"
    and "sent w = sent (world s)"
proof (cases "map_has (rs_headers res) ''date''")
  case True
  then show thesis using assms(1) that [where w = "world s" and cs = "[]" and date = None]
    by (simp add: set_response_def call_ToHttpString_def load_client_def store_def act_run io_run)
next
  case False
  obtain d w where d: "os_http_date os (world s) = (d, w)" by (cases "os_http_date os (world s)")
  then have "sent w = sent (world s)" using assms(2) [of "world s"] by simp
  then show thesis using False assms(1) d that [where w = w and cs = "[Date]" and date = d]
    by (simp add: set_response_def call_ToHttpString_def load_client_def store_def act_run io_run)
qed

subsection \<open>An example\<close>

text \<open>Files, and what was sent.\<close>

definition on_files :: "(files \<Rightarrow> 'a \<times> files) \<Rightarrow> files \<times> string \<Rightarrow> 'a \<times> (files \<times> string)" where
  "on_files f w = (case f (fst w) of (r, fs) \<Rightarrow> (r, (fs, snd w)))"

definition wire_os :: "string \<Rightarrow> (files \<times> string) os" where
  "wire_os data =
     \<lparr>os_stat = (\<lambda>p. on_files (os_stat memory_os p)), os_access = (\<lambda>p mode. on_files (os_access memory_os p mode)),
      os_read_file = (\<lambda>p. on_files (os_read_file memory_os p)), os_open_write = (\<lambda>p. on_files (os_open_write memory_os p)),
      os_write_file = (\<lambda>p d. on_files (os_write_file memory_os p d)), os_remove = (\<lambda>p. on_files (os_remove memory_os p)),
      os_time = (\<lambda>w. (0, w)), os_http_date = (\<lambda>w. (None, w)),
      os_socketpair = (\<lambda>w. (Some (7, 8), w)), os_fork = (\<lambda>child w. (100, w)),
      os_fcntl_getfl = (\<lambda>fd w. (Inr 0, w)), os_fcntl_setfl = (\<lambda>fd fl w. (None, w)),
      os_write = (\<lambda>fd d w. (int (length d), w)), os_read = (\<lambda>fd n w. (Some [], w)),
      os_recv = (\<lambda>fd n w. (Some data, w)), os_send = (\<lambda>fd d w. (int (length d), (fst w, snd w @ d))),
      os_accept = (\<lambda>fd w. (None, w)), os_close = (\<lambda>fd w. ((), w)),
      os_epoll_ctl = (\<lambda>epfd op fd ev p w. (None, w)), os_waitpid = (\<lambda>pid w. (Some 0, w)),
      os_kill = (\<lambda>pid w. ((), w)), os_socket = (\<lambda>w. (3, w)), os_setsockopt = (\<lambda>fd w. (True, w)),
      os_bind = (\<lambda>fd port w. (True, w)), os_listen = (\<lambda>fd w. (True, w)), os_epoll_create = (\<lambda>w. (4, w))\<rparr>"

lemma wire_os_sel [simp]:
  "os_time (wire_os data) w = (0, w)" "os_recv (wire_os data) fd k w = (Some data, w)"
  "os_epoll_ctl (wire_os data) epfd op fd ev p w = (None, w)"
  by (simp_all add: wire_os_def)

lemma wire_files: "file_system (wire_os data) fst"
  by (auto simp: file_system_def wire_os_def on_files_def memory_os_def mem_stat_def mem_read_file_def mem_write_file_def
       ENOENT_def split: option.splits node.splits if_splits prod.splits)

lemma wire_network: "network (wire_os data) snd"
  by (auto simp: network_def wire_os_def)

lemma wire_watches: "watches (wire_os data) epoll_fd fd p"
  by (simp add: watches_def)

text \<open>A connection whose request has begun with \<open>r\<close>, at address 1.\<close>

definition wire_server :: "http_request \<Rightarrow> (files \<times> string) server" where
  "wire_server r =
     \<lparr>world = ([''/w/a.txt'' \<mapsto> File ''hi''], []), calls = [],
      heap = [1 \<mapsto> Client ((tick_client site_config)\<lparr>cl_req := r\<rparr>)], next_address = 2\<rparr>"

definition wire_machine :: "(files \<times> string) machine" where
  "wire_machine = \<lparr>world = ([''/w/a.txt'' \<mapsto> File ''hi''], []), calls = [Time, Recv 5 kBufferSize]\<rparr>"

lemma wire_client: "heap (wire_server r) 1 = Some (Client ((tick_client site_config)\<lparr>cl_req := r\<rparr>))"
  by (simp add: wire_server_def)

lemma wire_received: "received (wire_os data) (so_fd ((tick_client site_config)\<lparr>cl_req := r\<rparr>)) (wire_server r) = (Some data, wire_machine)"
  by (simp add: received_def wire_server_def wire_machine_def tick_client_fd)

abbreviation get_fields :: "(string \<times> string) list" where
  "get_fields \<equiv> [(''Host'', ''h:80'')]"

abbreviation get_data :: string where
  "get_data \<equiv> head_text kGet ''/a.txt'' None ''HTTP/1.1'' get_fields"

lemma get_bytes: "request_bytes 100 kGet ''/a.txt'' None ''HTTP/1.1'' get_fields ''h'' 80 0 True [] [] get_data"
proof -
  have "valid_head kGet ''/a.txt'' None ''HTTP/1.1'' get_fields"
    by (simp add: valid_head_def known_method_def known_version_def uri_bytes_def kMaxUriSize_def
        kMaxHeaderSize_def valid_header_def header_line_def IsVisibleAscii_def IsValidHeaderChar_def char_le_iff)
  moreover have "distinct_names get_fields" by (simp add: distinct_names_def)
  moreover have "header_of get_fields ''host'' = Some ''h:80''"
      "header_of get_fields ''content-length'' = None" "header_of get_fields ''transfer-encoding'' = None"
      "header_of get_fields ''connection'' = None"
    by code_simp+
  moreover have "StrToUnsignedShort ''80'' = Some 80"
  proof -
    have "dec 80 = ''80''" by code_simp
    then show ?thesis using StrToUnsignedShort_dec [of 80] by simp
  qed
  then have "host_parts ''h:80'' ''h'' 80" using host_parts_colon [of "''h''" "''80''" "''h''" 80] by simp
  moreover have "body_bytes 0 100 [] [] []" by (simp add: body_bytes_def)
  ultimately show ?thesis by (auto simp: request_bytes_def framing_def connection_option_simps)
qed


lemma get_nonempty: "get_data \<noteq> []"
  by (simp add: head_text_def)

lemma get_whole:
  "request_bytes 100 kGet ''/a.txt'' None ''HTTP/1.1'' get_fields ''h'' 80 0 True [] [] (concat [] @ get_data)"
  using get_bytes by simp

abbreviation get_request :: http_request where
  "get_request \<equiv> the_request 100 [] kGet ''/a.txt'' None ''HTTP/1.1'' get_fields ''h'' 80 0 True [] []"

lemma wire_config: "cl_config ((tick_client site_config)\<lparr>cl_req := r\<rparr>) = site_config"
  by (simp add: tick_client_def asocket.defs)

lemma get_target: "target site_config get_request site_location ''/w/a.txt''"
  by (simp add: target_def the_request_def site_find site_path)

lemma wire_limit: "(100::nat) < 2 ^ 63"
  by simp

lemma wire_feed:
  "feed HttpRequest_Parse (fresh_request 100 []) [] =
     Some (Inr (cl_req ((tick_client site_config)\<lparr>cl_req := fresh_request 100 []\<rparr>)))"
  by simp

lemma wire_fresh: "\<not> IsDone (cl_req ((tick_client site_config)\<lparr>cl_req := fresh_request 100 []\<rparr>))"
  by (simp add: IsDone_def)

subsection \<open>Properties\<close>

text \<open>C3: From the bytes of a request for a file to the bytes of its content. However the request was cut into
  pieces, the event that brings the last one is handled without an exception, and while the network
  takes bytes the client is sent one response: status 200 with the content of the file and the
  type of its extension, or status 404 when there is no such file.\<close>

theorem file_is_sent:
  fixes s :: "'w server"
  assumes "limit < 2 ^ 63" and "network os sent" and "file_system os view"
    and "heap s p = Some (Client c)" and "received os (so_fd c) s = (Some data, m)" and "data \<noteq> []"
    and "feed HttpRequest_Parse (fresh_request limit ip) ps = Some (Inr (cl_req c))" and "\<not> IsDone (cl_req c)"
    and "request_bytes limit kGet path query v kvs name port n keep body rest (concat ps @ data)"
    and "target (cl_config c) (the_request limit ip kGet path query v kvs name port n keep body rest) l f"
    and "method_allowed l kGet" and "\<not> loc_cgi_enabled l" and "\<not> ends_with_slash path"
    and "watches os epoll_fd (so_fd c) p" and "view (world m) f \<noteq> Some Other_node"
  shows "\<exists>s' res. client_HandleEvent os left epoll_fd p EPOLLIN s = Some (Inr SocketResult_init, s') \<and>
     sends os left sent epoll_fd p res s' \<and>
     (case view (world m) f of
        Some (File content) \<Rightarrow>
          GetStatus res = kOk \<and> rs_body res = content \<and>
          map_get (rs_headers res) ''content-type'' = Some (DetectMimeTypeFromPath f)
      | _ \<Rightarrow> GetStatus res = kNotFound)"
proof -
  let ?r = "the_request limit ip kGet path query v kvs name port n keep body rest"
  obtain er m' where run: "RequestHandler_Run os (RequestHandler_init (cl_config c) ?r) m = (er, m')"
    by (cases "RequestHandler_Run os (RequestHandler_init (cl_config c) ?r) m")
  have "rq_method ?r = kGet" and "\<not> ends_with_slash (rq_uri ?r)" using assms(13) by (simp_all add: the_request_def)
  note get = assms(3,10) this(1) assms(11,12) this(2)
  note parsed = last_piece_done [OF assms(1,7,8,9)]
  have "\<not> er_is_async er" using run_get_sync [OF get assms(15)] run by simp
  then obtain s' where "client_HandleEvent os left epoll_fd p EPOLLIN s = Some (Inr SocketResult_init, s')"
      and "answered epoll_fd p (er_response er) s'"
    using request_answered [OF assms(4-6) parsed run _ assms(14)] by blast
  moreover note answered_sends [OF assms(2) this(2), where left = left]
  moreover have "case view (world m) f of
      Some (File content) \<Rightarrow> GetStatus (er_response er) = kOk \<and> rs_body (er_response er) = content \<and>
        map_get (rs_headers (er_response er)) ''content-type'' = Some (DetectMimeTypeFromPath f)
    | _ \<Rightarrow> GetStatus (er_response er) = kNotFound"
    using run_get [OF get, of m] run assms(15) by (cases "view (world m) f") (auto split: node.splits)
  ultimately show ?thesis by blast
qed

theorem file_is_sent_witness:
  "\<exists>s' res. client_HandleEvent (wire_os get_data) (\<lambda>r _. r) 4 1 EPOLLIN (wire_server (fresh_request 100 [])) =
       Some (Inr SocketResult_init, s') \<and>
     sends (wire_os get_data) (\<lambda>r _. r) snd 4 1 res s' \<and> GetStatus res = kOk \<and> rs_body res = ''hi''"
proof -
  have target: "target (cl_config ((tick_client site_config)\<lparr>cl_req := fresh_request 100 []\<rparr>)) get_request site_location ''/w/a.txt''"
    by (simp only: wire_config get_target)
  show ?thesis
    using file_is_sent [where left = "\<lambda>r _. r" and epoll_fd = 4, OF wire_limit wire_network wire_files wire_client wire_received
        get_nonempty wire_feed wire_fresh get_whole target site_allowed site_sel(4) _ wire_watches]
    by (simp add: ends_with_slash_def wire_machine_def) blast
qed

text \<open>Any other request, as far as the handler answers it itself: the event that brings its last piece
  gives the parser's request to the handler once, and the client is sent the response of the handler.\<close>

theorem request_is_answered:
  fixes s :: "'w server"
  assumes "limit < 2 ^ 63" and "network os sent"
    and "heap s p = Some (Client c)" and "received os (so_fd c) s = (Some data, m)" and "data \<noteq> []"
    and "feed HttpRequest_Parse (fresh_request limit ip) ps = Some (Inr (cl_req c))" and "\<not> IsDone (cl_req c)"
    and "request_bytes limit meth path query v kvs name port n keep body rest (concat ps @ data)"
    and "RequestHandler_Run os (RequestHandler_init (cl_config c)
           (the_request limit ip meth path query v kvs name port n keep body rest)) m = (er, m')"
    and "\<not> er_is_async er" and "watches os epoll_fd (so_fd c) p"
  shows "\<exists>s'. client_HandleEvent os left epoll_fd p EPOLLIN s = Some (Inr SocketResult_init, s') \<and>
     answered epoll_fd p (er_response er) s' \<and> sends os left sent epoll_fd p (er_response er) s'"
  using request_answered [OF assms(3-5) last_piece_done [OF assms(1,6-8)] assms(9-11), of left]
    answered_sends [OF assms(2), where left = left] by blast

text \<open>C8: A message that breaks a rule is answered too: when the bytes received so far, cut as they may be,
  are refused by the parser, the client is sent a response of the status that the parser chose,
  with \<open>Connection: close\<close>, and no exception leaves the event.\<close>

theorem bad_request_is_answered:
  fixes s :: "'w server"
  assumes "limit < 2 ^ 63" and "network os sent"
    and "heap s p = Some (Client c)" and "received os (so_fd c) s = (Some data, m)" and "data \<noteq> []"
    and "feed HttpRequest_Parse (fresh_request limit ip) ps = Some (Inr (cl_req c))" and "\<not> IsDone (cl_req c)"
    and "HttpRequest_Parse (fresh_request limit ip) (concat ps @ data) = Some (Inl e)"
    and "watches os epoll_fd (so_fd c) p"
  shows "\<exists>st s' res. e = ResponseStatusException st \<and>
     client_HandleEvent os left epoll_fd p EPOLLIN s = Some (Inr SocketResult_init, s') \<and>
     closing_response st = Inr res \<and> GetStatus res = st \<and> answered epoll_fd p res s' \<and>
     sends os left sent epoll_fd p res s'"
proof -
  obtain st where e: "e = ResponseStatusException st"
    using HttpRequest_Parse_total [of "fresh_request limit ip" "concat ps @ data"] assms(8) by auto
  have "HttpRequest_Parse (cl_req c) data = Some (Inl (ResponseStatusException st))"
    using last_piece [OF assms(1,6,7), of data] assms(8) e by simp
  then obtain s' res where "client_HandleEvent os left epoll_fd p EPOLLIN s = Some (Inr SocketResult_init, s')"
      and res: "closing_response st = Inr res" and a: "answered epoll_fd p res s'"
    using refusal_answered [OF assms(3-5) _ assms(9)] by blast
  moreover have "GetStatus res = st" using res closing_response_Inr [of st] by (metis sum.inject(2))
  ultimately show ?thesis using e answered_sends [OF assms(2) a, where left = left] by blast
qed

lemma refused_run: "HttpRequest_Parse (fresh_request 100 []) (CRLF @ CRLF) = Some (Inl (ResponseStatusException kNotImplemented))"
proof -
  have "AdvanceHeader (append_data (CRLF @ CRLF) (fresh_request 100 [])) = Inl (ResponseStatusException kNotImplemented)"
    by (simp add: AdvanceHeader_def FindEndOfHeader_def ConsumeHead_def ConsumeMethod_def deref_def)
  then show ?thesis by (simp add: HttpRequest_Parse_def Parse_def request_parser.run_header)
qed

theorem bad_request_is_answered_witness:
  "\<exists>s' res. client_HandleEvent (wire_os (CRLF @ CRLF)) (\<lambda>r _. r) 4 1 EPOLLIN (wire_server (fresh_request 100 [])) =
       Some (Inr SocketResult_init, s') \<and>
     sends (wire_os (CRLF @ CRLF)) (\<lambda>r _. r) snd 4 1 res s' \<and> GetStatus res = kNotImplemented"
proof -
  have data: "CRLF @ CRLF \<noteq> []" by simp
  have refused: "HttpRequest_Parse (fresh_request 100 []) (concat [] @ CRLF @ CRLF) = Some (Inl (ResponseStatusException kNotImplemented))"
    using refused_run by simp
  show ?thesis
    using bad_request_is_answered [where left = "\<lambda>r _. r" and epoll_fd = 4,
        OF wire_limit wire_network wire_client wire_received data wire_feed wire_fresh refused wire_watches]
    by auto
qed

theorem request_is_answered_witness:
  "case RequestHandler_Run (wire_os get_data) (RequestHandler_init site_config get_request) wire_machine of (er, m') \<Rightarrow>
     \<exists>s'. client_HandleEvent (wire_os get_data) (\<lambda>r _. r) 4 1 EPOLLIN (wire_server (fresh_request 100 [])) =
       Some (Inr SocketResult_init, s') \<and> answered 4 1 (er_response er) s'"
proof -
  let ?c = "(tick_client site_config)\<lparr>cl_req := fresh_request 100 []\<rparr>"
  obtain er m' where run: "RequestHandler_Run (wire_os get_data) (RequestHandler_init site_config get_request) wire_machine = (er, m')"
    by (cases "RequestHandler_Run (wire_os get_data) (RequestHandler_init site_config get_request) wire_machine")
  have "\<not> er_is_async er"
    using run_get_sync [OF wire_files get_target _ site_allowed site_sel(4), where m = wire_machine, of get_data] run
    by (simp add: wire_machine_def ends_with_slash_def the_request_def)
  moreover have "RequestHandler_Run (wire_os get_data) (RequestHandler_init (cl_config ?c) get_request) wire_machine = (er, m')"
    using run by (simp add: wire_config)
  ultimately show ?thesis
    using request_is_answered [where left = "\<lambda>r _. r" and epoll_fd = 4, OF wire_limit wire_network wire_client wire_received
        get_nonempty wire_feed wire_fresh get_whole _ _ wire_watches] run
    by auto
qed


text \<open>A site whose location runs programs.\<close>

definition py_site_location :: location where
  "py_site_location = Location_init\<lparr>loc_root := ''/w'', loc_cgi_enabled := True, loc_cgi_allowed_extensions := [''.py'']\<rparr>"

definition py_site :: server_config where
  "py_site = ServerConfig_init\<lparr>sc_locations := [py_site_location]\<rparr>"

abbreviation run_data :: string where
  "run_data \<equiv> head_text kGet ''/a.py'' None ''HTTP/1.1'' get_fields"

abbreviation run_request :: http_request where
  "run_request \<equiv> the_request 100 [] kGet ''/a.py'' None ''HTTP/1.1'' get_fields ''h'' 80 0 True [] []"

lemma py_site_sel:
  "loc_root py_site_location = ''/w''" "\<not> loc_has_redirect py_site_location" "\<not> loc_has_allowed_methods py_site_location"
  "loc_cgi_enabled py_site_location" "loc_cgi_allowed_extensions py_site_location = [''.py'']"
  by (simp_all add: py_site_location_def Location_init_def)

lemma py_site_find: "FindLocationForUri py_site ''/a.py'' = Inr \<lparr>lm_loc = py_site_location, lm_remainder = ''/a.py''\<rparr>"
  by code_simp

lemma py_site_path: "ValidateAndNormalizePath ''/w/a.py'' ''/w'' = Inr ''/w/a.py''"
  by code_simp

lemma py_site_info: "CreatePathInfo ''/w/a.py'' [''.py''] = Some []"
  by code_simp

lemma py_site_target: "target py_site run_request py_site_location ''/w/a.py''"
  by (simp add: target_def the_request_def py_site_find py_site_path py_site_sel)


abbreviation run_socket :: cgi_socket where
  "run_socket \<equiv> \<lparr>so_fd = 7, so_last_activity = 0, so_read_buffer = [], so_write_buffer = [], cgs_pid = 100, cgs_owner = None\<rparr>"

lemma py_site_run:
  "fst (CgiExecutor_Run (wire_os data) (CgiExecutor_init run_request py_site_location ''/w/a.py'') m) =
     Inr (ExecResult_of_socket run_socket)"
proof -
  let ?ce = "CgiExecutor_init run_request py_site_location ''/w/a.py''"
  have "ce_script_path ?ce = ''/w/a.py''"
    by (simp add: CgiExecutor_init_def InitializeMetaVars_def Let_def py_site_sel py_site_info substr_def)
  moreover have "GetMetaVar ?ce ''REQUEST_METHOD'' = Inr (MethodToString kGet)"
    by (simp add: GetMetaVar_def CgiExecutor_init_meta the_request_def)
  moreover have "MethodToString kGet \<noteq> ''POST''" by simp
  ultimately show ?thesis
    by (simp add: CgiExecutor_Run_def IsScriptExtensionAllowed_def CgiExecutor_init_sel substr_def
        io_run wire_os_def cgi_fork_def cgi_parent_def io_unwind_def Fd_Reset_def call_close_def
        CgiSocket_init_def ASocket_init_def call_time_def SetNonBlocking_def O_NONBLOCK_def Fd_copy_def
        CgiSocket_Send_def asocket.defs py_site_sel)
qed

definition py_machine :: "(files \<times> string) machine" where
  "py_machine = \<lparr>world = ([''/w/a.py'' \<mapsto> File ''#!''], []), calls = [Time, Recv 5 kBufferSize]\<rparr>"

definition py_server :: "(files \<times> string) server" where
  "py_server =
     \<lparr>world = ([''/w/a.py'' \<mapsto> File ''#!''], []), calls = [],
      heap = [1 \<mapsto> Client ((tick_client py_site)\<lparr>cl_req := fresh_request 100 []\<rparr>)], next_address = 2\<rparr>"

lemma run_bytes:
  "request_bytes 100 kGet ''/a.py'' None ''HTTP/1.1'' get_fields ''h'' 80 0 True [] [] (concat [] @ run_data)"
proof -
  have "valid_head kGet ''/a.py'' None ''HTTP/1.1'' get_fields"
    using get_bytes
    by (simp add: request_bytes_def valid_head_def known_method_def known_version_def uri_bytes_def kMaxUriSize_def
        kMaxHeaderSize_def valid_header_def header_line_def IsVisibleAscii_def IsValidHeaderChar_def char_le_iff)
  then show ?thesis using get_bytes by (auto simp: request_bytes_def body_bytes_def head_text_def)
qed

lemma py_site_handler:
  obtains m' where "RequestHandler_Run (wire_os data) (RequestHandler_init py_site run_request)
      py_machine = (ExecResult_of_socket run_socket, m')"
proof -
  have meth: "rq_method run_request = kGet" and slash: "\<not> ends_with_slash (rq_uri run_request)"
    by (simp_all add: the_request_def ends_with_slash_def)
  have "method_allowed py_site_location (rq_method run_request)" by (simp add: method_allowed_def py_site_sel)
  then obtain rh lm where rh: "lm_loc lm = py_site_location" "rh_req rh = run_request" "rh_filesystem_path rh = ''/w/a.py''"
      and run: "RequestHandler_Run (wire_os data) (RequestHandler_init py_site run_request) py_machine =
        (case dispatch (wire_os data) rh lm py_machine of (Inr er, m') \<Rightarrow> (er, m') | (Inl e, m') \<Rightarrow> (exception_result e, m'))"
    using Run_method [OF py_site_target, of "wire_os data" py_machine] by blast
  have "c_str ''/w/a.py'' = ''/w/a.py''" by code_simp
  then obtain m1 where d: "IsDirectory (wire_os data) ''/w/a.py'' py_machine = (Inr False, m1)"
    by (simp add: IsDirectory_def call_stat_def io_run wire_os_def on_files_def py_machine_def memory_os_def mem_stat_def)
  obtain m2 where "CgiExecutor_Run (wire_os data) (CgiExecutor_init run_request py_site_location ''/w/a.py'') m1 =
      (Inr (ExecResult_of_socket run_socket), m2)"
    using py_site_run [of data m1] by (cases "CgiExecutor_Run (wire_os data) (CgiExecutor_init run_request py_site_location ''/w/a.py'') m1") simp
  then have "dispatch (wire_os data) rh lm py_machine = (Inr (ExecResult_of_socket run_socket), m2)"
    by (simp add: dispatch_def rh meth slash HandleGet_def AppendIndexFileIfDirectoryOrThrow_def io_run d Let_def
        py_site_sel py_site_path)
  then show thesis using run that by simp
qed


text \<open>C13: A request for a program: the event that brings its last piece starts the program, makes its socket
  an object with this client as owner, remembers it in the client and hands it to the loop, which
  will watch it; nothing is registered for writing yet.\<close>

theorem program_is_started:
  fixes s :: "'w server"
  assumes "limit < 2 ^ 63"
    and "heap s p = Some (Client c)" and "received os (so_fd c) s = (Some data, m)" and "data \<noteq> []"
    and "feed HttpRequest_Parse (fresh_request limit ip) ps = Some (Inr (cl_req c))" and "\<not> IsDone (cl_req c)"
    and "request_bytes limit meth path query v kvs name port n keep body rest (concat ps @ data)"
    and "RequestHandler_Run os (RequestHandler_init (cl_config c)
           (the_request limit ip meth path query v kvs name port n keep body rest)) m = (er, m')"
    and "er_is_async er" and "er_new_socket er = Some g" and "next_address s \<noteq> p"
  shows "\<exists>s' c'. client_HandleEvent os left epoll_fd p EPOLLIN s =
       Some (Inr (SocketResult_init\<lparr>sr_new_socket := Some (next_address s)\<rparr>), s') \<and>
     heap s' (next_address s) = Some (Cgi (g\<lparr>cgs_owner := Some p\<rparr>)) \<and>
     heap s' p = Some (Client c') \<and> cl_cgi_socket c' = Some (next_address s) \<and> so_fd c' = so_fd c"
  by (rule program_started [OF assms(2-4) last_piece_done [OF assms(1,5-7)] assms(8-11)])

theorem program_is_started_witness:
  "\<exists>s' c'. client_HandleEvent (wire_os run_data) (\<lambda>r _. r) 4 1 EPOLLIN py_server =
       Some (Inr (SocketResult_init\<lparr>sr_new_socket := Some 2\<rparr>), s') \<and>
     heap s' 2 = Some (Cgi (run_socket\<lparr>cgs_owner := Some 1\<rparr>)) \<and>
     heap s' 1 = Some (Client c') \<and> cl_cgi_socket c' = Some 2"
proof -
  let ?c = "(tick_client py_site)\<lparr>cl_req := fresh_request 100 []\<rparr>"
  obtain m' where "RequestHandler_Run (wire_os run_data) (RequestHandler_init py_site run_request) py_machine =
      (ExecResult_of_socket run_socket, m')"
    by (rule py_site_handler)
  then have run: "RequestHandler_Run (wire_os run_data) (RequestHandler_init (cl_config ?c) run_request) py_machine =
      (ExecResult_of_socket run_socket, m')"
    by (simp add: tick_client_def asocket.defs)
  have c: "heap py_server 1 = Some (Client ?c)" and rc: "received (wire_os run_data) (so_fd ?c) py_server = (Some run_data, py_machine)"
    by (simp_all add: received_def py_server_def py_machine_def tick_client_fd)
  have data: "run_data \<noteq> []" by (simp add: head_text_def)
  have feed: "feed HttpRequest_Parse (fresh_request 100 []) [] = Some (Inr (cl_req ?c))" and fresh: "\<not> IsDone (cl_req ?c)"
    by (simp_all add: IsDone_def)
  have new: "er_is_async (ExecResult_of_socket run_socket)" "er_new_socket (ExecResult_of_socket run_socket) = Some run_socket"
    and q: "next_address py_server \<noteq> 1" "next_address py_server = 2"
    by (simp_all add: ExecResult_of_socket_def py_server_def)
  from program_is_started [OF wire_limit c rc data feed fresh run_bytes run new q(1), of "\<lambda>r _. r" 4]
  show ?thesis unfolding q(2) by blast
qed




end
