(* ===== verification/Sessions.thy ===== *)
theory Sessions
  imports End_To_End
begin

text \<open>
  A whole connection, seen from the loop: the turn that brings the last piece of the request, the
  turns in which the response is written, and the turn that closes the connection.
\<close>

subsection \<open>Turns in a row\<close>

fun turns ::
  "'w os \<Rightarrow> (http_request \<Rightarrow> string \<Rightarrow> http_request) \<Rightarrow> webserv \<Rightarrow> (nat \<times> 32 word) list option list \<Rightarrow> ('w, webserv) act" where
  "turns os left ws [] = act_return ws"
| "turns os left ws (reported # rest) = act_bind (Run_turn os left ws reported) (\<lambda>ws1. turns os left ws1 rest)"

lemma client_turn:
  fixes s :: "'w server"
  assumes "heap s p = Some (Client c)" and "client_HandleEvent os left (ws_epoll_fd ws) p ev s = Some (Inr r, s1)"
    and "sr_new_socket r = None"
  shows "Run_turn os left ws (Some [(p, ev)]) s =
     (if sr_remove_socket r then remove_socket os ws p else act_return ws) s1"
proof -
  have "HandleEvent os left (ws_epoll_fd ws) p ev s = Some (Inr r, s1)" using assms(1,2) by (simp add: HandleEvent_def act_run)
  then show ?thesis using assms(3)
    by (simp add: Run_turn_def act_run split: option.split prod.split sum.split)
qed

text \<open>Closing a connection that waits for no program.\<close>

lemma client_removed:
  fixes s :: "'w server"
  assumes c: "heap s p = Some (Client c)" and "cl_cgi_socket c = None" and "so_fd c \<noteq> -1"
    and quiet: "\<And>fd w. sent (snd (os_close os fd w)) = sent w"
  obtains s' where "remove_socket os ws p s = Some (Inr (ws\<lparr>ws_sockets := map_del (so_fd c) (ws_sockets ws)\<rparr>), s')"
    and "heap s' = (heap s)(p := None)" and "calls s' = calls s @ [Close (so_fd c)]" and "sent (world s') = sent (world s)"
proof -
  obtain u w where w: "os_close os (so_fd c) (world s) = (u, w)" by (cases "os_close os (so_fd c) (world s)")
  show thesis
    by (rule that [of "s\<lparr>heap := (heap s)(p := None), world := w, calls := calls s @ [Close (so_fd c)]\<rparr>"])
       (use assms(1-3) w quiet [of "so_fd c" "world s"] in
         \<open>simp_all add: remove_socket_def delete_socket_def act_run io_run ClientSocket_destroy_def load_client_def
            Fd_destroy_def Fd_Reset_def call_close_def release_def\<close>)
qed

text \<open>The turns that write a response, and the end of the connection.\<close>

lemma written_and_closed:
  fixes s :: "'w server"
  assumes net: "network os sent" and quiet: "\<And>fd w. sent (snd (os_close os fd w)) = sent w"
    and c: "heap s p = Some (Client c)" and "so_write_buffer c \<noteq> []" and "cl_cgi_socket c = None" and "so_fd c \<noteq> -1"
  shows "\<exists>n s'. turns os left ws (replicate n (Some [(p, EPOLLOUT)])) s =
       Some (Inr (ws\<lparr>ws_sockets := map_del (so_fd c) (ws_sockets ws)\<rparr>), s') \<and>
     sent (world s') = sent (world s) @ so_write_buffer c \<and> heap s' p = None \<and> last (calls s') = Close (so_fd c)"
  using c assms(4-6)
proof (induction "length (so_write_buffer c)" arbitrary: s c rule: less_induct)
  case less
  let ?buf = "so_write_buffer c"
  obtain k s1 where step: "client_HandleEvent os left (ws_epoll_fd ws) p EPOLLOUT s =
        Some (Inr (SocketResult_init\<lparr>sr_remove_socket := length ?buf \<le> k\<rparr>), s1)"
      and k: "0 < k" "k \<le> length ?buf" "sent (world s1) = sent (world s) @ take k ?buf"
      and c1: "\<exists>c'. heap s1 p = Some (Client c') \<and> so_write_buffer c' = drop k ?buf \<and> so_fd c' = so_fd c \<and>
        cl_cgi_socket c' = cl_cgi_socket c"
    by (rule write_event [OF net less.prems(1,2)])
  obtain c' where c': "heap s1 p = Some (Client c')" "so_write_buffer c' = drop k ?buf" "so_fd c' = so_fd c"
      "cl_cgi_socket c' = None" using c1 less.prems(3) by auto
  have turn: "Run_turn os left ws (Some [(p, EPOLLOUT)]) s =
      (if length ?buf \<le> k then remove_socket os ws p else act_return ws) s1"
    using client_turn [OF less.prems(1) step] by (simp add: SocketResult_init_def)
  show ?case
  proof (cases "length ?buf \<le> k")
    case True
    obtain s2 where s2: "remove_socket os ws p s1 = Some (Inr (ws\<lparr>ws_sockets := map_del (so_fd c) (ws_sockets ws)\<rparr>), s2)"
        "heap s2 = (heap s1)(p := None)" "calls s2 = calls s1 @ [Close (so_fd c)]" "sent (world s2) = sent (world s1)"
      using client_removed [OF c'(1,4) _ quiet] less.prems(4) c'(3) by metis
    have "turns os left ws (replicate 1 (Some [(p, EPOLLOUT)])) s =
        Some (Inr (ws\<lparr>ws_sockets := map_del (so_fd c) (ws_sockets ws)\<rparr>), s2)"
      using turn True s2(1) by (simp add: act_run)
    then show ?thesis using s2 k True by (intro exI [of _ 1] exI [of _ s2]) simp
  next
    case False
    have "length (so_write_buffer c') < length ?buf" and "so_write_buffer c' \<noteq> []" using False k(1) c'(2) by auto
    from less.hyps [OF this(1) c'(1) this(2) c'(4)] c'(3) less.prems(4)
    obtain n s' where n: "turns os left ws (replicate n (Some [(p, EPOLLOUT)])) s1 =
          Some (Inr (ws\<lparr>ws_sockets := map_del (so_fd c) (ws_sockets ws)\<rparr>), s')"
        "sent (world s') = sent (world s1) @ so_write_buffer c'" "heap s' p = None" "last (calls s') = Close (so_fd c)"
      by auto
    have "turns os left ws (replicate (Suc n) (Some [(p, EPOLLOUT)])) s =
        Some (Inr (ws\<lparr>ws_sockets := map_del (so_fd c) (ws_sockets ws)\<rparr>), s')"
      using turn False n(1) by (simp add: act_run)
    moreover have "sent (world s') = sent (world s) @ ?buf" using n(2) k(3) c'(2) by simp
    ultimately show ?thesis using n(3,4) by blast
  qed
qed

text \<open>A program that has ended is removed without being killed, and its client stays.\<close>

lemma program_removed:
  fixes s :: "'w server"
  assumes g: "heap s q = Some (Cgi g)" and "cgs_owner g = Some p" and "cgs_pid g = -1" and "so_fd g \<noteq> -1"
    and c: "heap s p = Some (Client c)" and "cl_cgi_socket c = Some q"
    and quiet: "\<And>fd w. sent (snd (os_close os fd w)) = sent w"
  obtains s' where "remove_socket os ws q s = Some (Inr (ws\<lparr>ws_sockets := map_del (so_fd g) (ws_sockets ws)\<rparr>), s')"
    and "heap s' q = None" and "heap s' p = Some (Client (c\<lparr>cl_cgi_socket := None\<rparr>))"
    and "calls s' = calls s @ [Close (so_fd g)]" and "sent (world s') = sent (world s)"
proof -
  have pq: "p \<noteq> q" using g c by auto
  obtain u w where w: "os_close os (so_fd g) (world s) = (u, w)" by (cases "os_close os (so_fd g) (world s)")
  let ?s = "s\<lparr>heap := (heap s)(p \<mapsto> Client (c\<lparr>cl_cgi_socket := None\<rparr>), q := None), world := w,
    calls := calls s @ [Close (so_fd g)]\<rparr>"
  have "remove_socket os ws q s = Some (Inr (ws\<lparr>ws_sockets := map_del (so_fd g) (ws_sockets ws)\<rparr>), ?s)"
    using assms(1-6) w pq
    by (simp add: remove_socket_def delete_socket_def act_run io_run CgiSocket_destroy_def load_cgi_def load_client_def
        RemoveCgiSocket_def store_def Fd_destroy_def Fd_Reset_def call_close_def release_def)
  then show thesis by (rule that) (use pq w quiet [of "so_fd g" "world s"] in simp_all)
qed

text \<open>The table of the example.\<close>

definition wire_table :: webserv where
  "wire_table = Webserv_empty\<lparr>ws_epoll_fd := 4, ws_sockets := [(5, 1)]\<rparr>"

subsection \<open>Properties\<close>

text \<open>C4: A connection from its request to its end. However the request was cut into pieces, the turn that
  brings the last one leaves the table of the sockets alone; after some turns in which the
  client can be written to, all of the handler's response was sent, in order and once, and then
  the object is deleted, its descriptor is closed, and it is in the table no longer. Any request that the
  handler answers itself is treated so; the timeouts between the turns are left out.\<close>

theorem session_completes:
  fixes s :: "'w server"
  assumes "limit < 2 ^ 63" and "network os sent" and "\<And>fd w. sent (snd (os_close os fd w)) = sent w"
    and "heap s p = Some (Client c)" and "cl_cgi_socket c = None" and "so_fd c \<noteq> -1"
    and "received os (so_fd c) s = (Some data, m)" and "data \<noteq> []"
    and "feed HttpRequest_Parse (fresh_request limit ip) ps = Some (Inr (cl_req c))" and "\<not> IsDone (cl_req c)"
    and "request_bytes limit meth path query v kvs name port n keep body rest (concat ps @ data)"
    and "RequestHandler_Run os (RequestHandler_init (cl_config c)
           (the_request limit ip meth path query v kvs name port n keep body rest)) m = (er, m')"
    and "\<not> er_is_async er" and "watches os (ws_epoll_fd ws) (so_fd c) p"
  shows "\<exists>s1 k s2 date. Run_turn os left ws (Some [(p, EPOLLIN)]) s = Some (Inr ws, s1) \<and>
     turns os left ws (replicate k (Some [(p, EPOLLOUT)])) s1 =
       Some (Inr (ws\<lparr>ws_sockets := map_del (so_fd c) (ws_sockets ws)\<rparr>), s2) \<and>
     sent (world s2) = sent (world s1) @ ToHttpString date (er_response er) \<and>
     heap s2 p = None \<and> last (calls s2) = Close (so_fd c)"
proof -
  obtain s1 c1 where s1: "client_HandleEvent os left (ws_epoll_fd ws) p EPOLLIN s = Some (Inr SocketResult_init, s1)"
      "answered (ws_epoll_fd ws) p (er_response er) s1"
      and c1: "heap s1 p = Some (Client c1)" "so_fd c1 = so_fd c" "cl_cgi_socket c1 = None"
    using request_answered [OF assms(4,7,8) last_piece_done [OF assms(1,9-11)] assms(12-14), of left] assms(5) by auto
  obtain date where buf: "so_write_buffer c1 = ToHttpString date (er_response er)" using s1(2) c1(1) by (auto simp: answered_def)
  then have "so_write_buffer c1 \<noteq> []" by (simp add: ToHttpString_nonempty)
  from written_and_closed [OF assms(2,3) c1(1) this c1(3), of left ws] assms(6) c1(2) buf
  obtain k s2 where "turns os left ws (replicate k (Some [(p, EPOLLOUT)])) s1 =
       Some (Inr (ws\<lparr>ws_sockets := map_del (so_fd c) (ws_sockets ws)\<rparr>), s2)"
      "sent (world s2) = sent (world s1) @ ToHttpString date (er_response er)" "heap s2 p = None" "last (calls s2) = Close (so_fd c)"
    by auto
  moreover have "Run_turn os left ws (Some [(p, EPOLLIN)]) s = Some (Inr ws, s1)"
    using client_turn [OF assms(4) s1(1)] by (simp add: SocketResult_init_def act_run)
  ultimately show ?thesis by blast
qed


lemma wire_close: "snd (snd (os_close (wire_os data) fd w)) = snd w"
  by (simp add: wire_os_def)

theorem session_completes_witness:
  "\<exists>er m' s1 k s2 date. RequestHandler_Run (wire_os get_data) (RequestHandler_init site_config get_request) wire_machine = (er, m') \<and>
     Run_turn (wire_os get_data) (\<lambda>r _. r) wire_table (Some [(1, EPOLLIN)]) (wire_server (fresh_request 100 [])) =
       Some (Inr wire_table, s1) \<and>
     turns (wire_os get_data) (\<lambda>r _. r) wire_table (replicate k (Some [(1, EPOLLOUT)])) s1 =
       Some (Inr (wire_table\<lparr>ws_sockets := []\<rparr>), s2) \<and>
     snd (world s2) = snd (world s1) @ ToHttpString date (er_response er) \<and> heap s2 1 = None"
proof -
  let ?c = "(tick_client site_config)\<lparr>cl_req := fresh_request 100 []\<rparr>"
  obtain er m' where run: "RequestHandler_Run (wire_os get_data) (RequestHandler_init site_config get_request) wire_machine = (er, m')"
    by (cases "RequestHandler_Run (wire_os get_data) (RequestHandler_init site_config get_request) wire_machine")
  have sync: "\<not> er_is_async er"
    using run_get_sync [OF wire_files get_target _ site_allowed site_sel(4), where m = wire_machine, of get_data] run
    by (simp add: wire_machine_def ends_with_slash_def the_request_def)
  have run': "RequestHandler_Run (wire_os get_data) (RequestHandler_init (cl_config ?c) get_request) wire_machine = (er, m')"
    using run by (simp add: wire_config)
  have c: "cl_cgi_socket ?c = None" "so_fd ?c \<noteq> -1" and fd: "so_fd ?c = 5" by (simp_all add: tick_client_fd)
  have table: "map_del 5 (ws_sockets wire_table) = []" by (simp add: wire_table_def)
  from session_completes [OF wire_limit wire_network wire_close wire_client c wire_received get_nonempty wire_feed wire_fresh
      get_whole run' sync wire_watches, of "\<lambda>r _. r" wire_table]
  show ?thesis unfolding fd table using run by blast
qed

text \<open>C14: A connection that runs a program, from the end of its output to the end of the connection: the turn in which
  the program's socket reports the end turns its output into the response, deletes the program's object and
  closes its descriptor; after some turns in which the client can be written to, all of the
  response was sent, and the client is deleted and closed too. Neither is left in the table.\<close>

theorem program_session_completes:
  fixes s :: "'w server"
  assumes "network os sent" and "\<And>fd w. sent (snd (os_close os fd w)) = sent w"
    and "heap s q = Some (Cgi g)" and "cgs_owner g = Some p" and "so_fd g \<noteq> -1"
    and "heap s p = Some (Client c)" and "cl_cgi_socket c = Some q" and "so_fd c \<noteq> -1"
    and "\<And>w. fst (os_read os (so_fd g) kBufferSize w) = Some []"
    and "\<And>w. fst (os_waitpid os (cgs_pid g) w) = status"
    and "\<And>w. fst (os_epoll_ctl os (ws_epoll_fd ws) EPOLL_CTL_DEL (so_fd g) 0 None w) = None"
  defines "ws1 \<equiv> ws\<lparr>ws_sockets := map_del (so_fd g) (ws_sockets ws)\<rparr>"
  shows "\<exists>res s1 k s2 date. cgi_answer status (so_read_buffer g) = Inr res \<and>
     Run_turn os left ws (Some [(q, EPOLLIN)]) s = Some (Inr ws1, s1) \<and> heap s1 q = None \<and> last (calls s1) = Close (so_fd g) \<and>
     turns os left ws1 (replicate k (Some [(p, EPOLLOUT)])) s1 =
       Some (Inr (ws1\<lparr>ws_sockets := map_del (so_fd c) (ws_sockets ws1)\<rparr>), s2) \<and>
     sent (world s2) = sent (world s1) @ ToHttpString date res \<and>
     heap s2 p = None \<and> last (calls s2) = Close (so_fd c)"
proof -
  obtain res t g' c' where res: "cgi_answer status (so_read_buffer g) = Inr res"
      and event: "cgi_HandleEvent os (ws_epoll_fd ws) q EPOLLIN s = Some (Inr \<lparr>sr_new_socket = None, sr_remove_socket = True\<rparr>, t)"
      and answer: "answered (ws_epoll_fd ws) p res t"
      and c': "heap t p = Some (Client c')" "so_fd c' = so_fd c" "cl_cgi_socket c' = Some q"
      and g': "heap t q = Some (Cgi g')" "cgs_pid g' = -1" "so_fd g' = so_fd g" "cgs_owner g' = Some p"
    using cgi_end_answers [OF assms(3,4,6,9-11)] assms(7) by metis
  obtain s1 where s1: "remove_socket os ws q t = Some (Inr ws1, s1)" "heap s1 q = None"
      "heap s1 p = Some (Client (c'\<lparr>cl_cgi_socket := None\<rparr>))" "calls s1 = calls t @ [Close (so_fd g)]"
    using program_removed [OF g'(1,4,2) _ c'(1,3) assms(2), of ws] assms(5) g'(3) unfolding ws1_def by metis
  have "HandleEvent os left (ws_epoll_fd ws) q EPOLLIN s = Some (Inr \<lparr>sr_new_socket = None, sr_remove_socket = True\<rparr>, t)"
    using assms(3) event by (simp add: HandleEvent_def act_run)
  then have turn: "Run_turn os left ws (Some [(q, EPOLLIN)]) s = Some (Inr ws1, s1)"
    using s1(1) by (simp add: Run_turn_def act_run)
  obtain date where buf: "so_write_buffer c' = ToHttpString date res" using answer c'(1) by (auto simp: answered_def)
  then have "so_write_buffer (c'\<lparr>cl_cgi_socket := None\<rparr>) \<noteq> []" by (simp add: ToHttpString_nonempty)
  from written_and_closed [OF assms(1,2) s1(3) this, of left ws1] assms(8) c'(2) buf
  obtain k s2 where "turns os left ws1 (replicate k (Some [(p, EPOLLOUT)])) s1 =
       Some (Inr (ws1\<lparr>ws_sockets := map_del (so_fd c) (ws_sockets ws1)\<rparr>), s2)"
      "sent (world s2) = sent (world s1) @ ToHttpString date res" "heap s2 p = None" "last (calls s2) = Close (so_fd c)"
    by auto
  then show ?thesis using res turn s1(2,4) by (intro exI conjI) (assumption | simp)+
qed


text \<open>A program that prints nothing and fails, and its client.\<close>

definition failing_os :: "ticks os" where
  "failing_os = tick_os\<lparr>os_waitpid := (\<lambda>pid w. (Some 1, w))\<rparr>"

lemma failing_sys:
  "os_read failing_os fd k w = (Some [], w)" "os_waitpid failing_os pid w = (Some 1, w)"
  "os_epoll_ctl failing_os epfd op fd ev p w = (None, w)" "os_close failing_os fd w = ((), w)"
  by (simp_all add: failing_os_def tick_os_def)

lemma failing_network: "network failing_os snd"
  by (auto simp: network_def failing_os_def tick_os_def)

abbreviation failed_program :: cgi_socket where
  "failed_program \<equiv> \<lparr>so_fd = 6, so_last_activity = 0, so_read_buffer = [], so_write_buffer = [], cgs_pid = 100, cgs_owner = Some 1\<rparr>"

abbreviation waiting_client :: client_socket where
  "waiting_client \<equiv> (tick_client ServerConfig_init)\<lparr>cl_cgi_socket := Some 0\<rparr>"

definition waiting_server :: "ticks server" where
  "waiting_server = (tick_connected ServerConfig_init)\<lparr>heap := [0 \<mapsto> Cgi failed_program, 1 \<mapsto> Client waiting_client]\<rparr>"

definition waiting_table :: webserv where
  "waiting_table = Webserv_empty\<lparr>ws_epoll_fd := 4, ws_sockets := [(5, 1), (6, 0)]\<rparr>"

theorem program_session_completes_witness:
  "\<exists>s1 k s2 date. Run_turn failing_os (\<lambda>r _. r) waiting_table (Some [(0, EPOLLIN)]) waiting_server =
       Some (Inr (waiting_table\<lparr>ws_sockets := [(5, 1)]\<rparr>), s1) \<and>
     turns failing_os (\<lambda>r _. r) (waiting_table\<lparr>ws_sockets := [(5, 1)]\<rparr>) (replicate k (Some [(1, EPOLLOUT)])) s1 =
       Some (Inr (waiting_table\<lparr>ws_sockets := []\<rparr>), s2) \<and>
     snd (world s2) = snd (world s1) @ ToHttpString date (HttpResponse_of kInternalServerError) \<and> heap s2 1 = None"
proof -
  have g: "heap waiting_server 0 = Some (Cgi failed_program)" "cgs_owner failed_program = Some 1" "so_fd failed_program \<noteq> -1"
    and c: "heap waiting_server 1 = Some (Client waiting_client)" "cl_cgi_socket waiting_client = Some 0" "so_fd waiting_client \<noteq> -1"
    by (simp_all add: waiting_server_def tick_client_fd)
  have close: "snd (snd (os_close failing_os fd w)) = snd w" for fd w by (simp add: failing_sys)
  have sys: "fst (os_read failing_os (so_fd failed_program) kBufferSize w) = Some []"
      "fst (os_waitpid failing_os (cgs_pid failed_program) w) = Some 1"
      "fst (os_epoll_ctl failing_os (ws_epoll_fd waiting_table) EPOLL_CTL_DEL (so_fd failed_program) 0 None w) = None" for w
    by (simp_all add: failing_sys)
  have fd: "so_fd failed_program = 6" "so_fd waiting_client = 5" by (simp_all add: tick_client_fd)
  have table: "map_del 6 (ws_sockets waiting_table) = [(5, 1)]"
    "map_del 5 (ws_sockets (waiting_table\<lparr>ws_sockets := [(5, 1)]\<rparr>)) = []" by (simp_all add: waiting_table_def)
  have answer: "cgi_answer (Some 1) (so_read_buffer failed_program) = Inr (HttpResponse_of kInternalServerError)"
    by (simp add: cgi_answer_def)
  from program_session_completes [OF failing_network close g c sys, of "\<lambda>r _. r"]
  obtain res s1 k s2 date where "cgi_answer (Some 1) (so_read_buffer failed_program) = Inr res"
      and run: "Run_turn failing_os (\<lambda>r _. r) waiting_table (Some [(0, EPOLLIN)]) waiting_server =
         Some (Inr (waiting_table\<lparr>ws_sockets := [(5, 1)]\<rparr>), s1)"
      "turns failing_os (\<lambda>r _. r) (waiting_table\<lparr>ws_sockets := [(5, 1)]\<rparr>) (replicate k (Some [(1, EPOLLOUT)])) s1 =
         Some (Inr (waiting_table\<lparr>ws_sockets := [(5, 1)]\<rparr>\<lparr>ws_sockets := []\<rparr>), s2)"
      and "snd (world s2) = snd (world s1) @ ToHttpString date res" "heap s2 1 = None"
    unfolding fd table by blast
  moreover have "res = HttpResponse_of kInternalServerError" using calculation(1) answer by simp
  ultimately show ?thesis by auto
qed

end
