(* ===== verification/Frames.thy ===== *)
theory Frames
  imports Server_Safety
begin

text \<open>
  What a function of the heap leaves alone: \<open>frame A f\<close> says that \<open>f\<close> writes to no object outside
  \<open>A\<close> that was there before, \<open>frame_at\<close> the same for one state. A method writes to its own object,
  to the object that its own is linked with, and to objects that it creates; so a turn of the
  loop leaves alone every object for which, and for whose partner, nothing was reported.
\<close>

subsection \<open>The frame of a function\<close>

text \<open>Where there is nothing yet.\<close>

definition unused :: "'w server \<Rightarrow> bool" where
  "unused s \<longleftrightarrow> (\<forall>p. heap s p \<noteq> None \<longrightarrow> p < next_address s)"

definition others :: "nat set \<Rightarrow> 'w server \<Rightarrow> 'w server \<Rightarrow> bool" where
  "others A s s' \<longleftrightarrow> (\<forall>p obj. p \<notin> A \<longrightarrow> heap s p = Some obj \<longrightarrow> heap s' p = Some obj)"

lemma others_refl [simp]: "others A s s"
  by (simp add: others_def)

lemma others_trans [trans]: "others A s s1 \<Longrightarrow> others A s1 s2 \<Longrightarrow> others A s s2"
  by (simp add: others_def)

lemma others_mono: "others A s s' \<Longrightarrow> A \<subseteq> B \<Longrightarrow> others B s s'"
  by (auto simp: others_def)

lemma others_D: "others A s s' \<Longrightarrow> p \<notin> A \<Longrightarrow> heap s p = Some obj \<Longrightarrow> heap s' p = Some obj"
  by (simp add: others_def)

definition frame_at :: "nat set \<Rightarrow> ('w, 'a) act \<Rightarrow> 'w server \<Rightarrow> bool" where
  "frame_at A f s \<longleftrightarrow> (\<forall>r s'. unused s \<longrightarrow> f s = Some (r, s') \<longrightarrow> unused s' \<and> others A s s')"

definition frame :: "nat set \<Rightarrow> ('w, 'a) act \<Rightarrow> bool" where
  "frame A f \<longleftrightarrow> (\<forall>s. frame_at A f s)"

lemma frame_at_D: "frame_at A f s \<Longrightarrow> f s = Some (r, s') \<Longrightarrow> unused s \<Longrightarrow> unused s' \<and> others A s s'"
  unfolding frame_at_def by blast

lemma frame_frame_at: "frame A f \<Longrightarrow> frame_at A f s"
  by (simp add: frame_def)

lemma frame_at_bind:
  assumes "frame_at A f s" and "\<And>x s1. f s = Some (Inr x, s1) \<Longrightarrow> frame_at A (g x) s1"
  shows "frame_at A (act_bind f g) s"
  unfolding frame_at_def
proof (intro allI impI)
  fix r s'
  assume s: "unused s" and run: "act_bind f g s = Some (r, s')"
  obtain x s1 where f: "f s = Some (x, s1)" using run by (cases "f s") (auto simp: act_run)
  have s1: "unused s1" "others A s s1" using frame_at_D [OF assms(1) f s] by simp_all
  show "unused s' \<and> others A s s'"
  proof (cases x)
    case (Inl e)
    then show ?thesis using run f s1 by (simp add: act_run)
  next
    case (Inr y)
    then have "g y s1 = Some (r, s')" using run f by (simp add: act_run)
    from frame_at_D [OF assms(2) this s1(1)] show ?thesis using f Inr others_trans [OF s1(2)] by blast
  qed
qed

named_theorems frame_intros \<open>the frames of the parts of a function of the heap\<close>

lemma frame_return [frame_intros]: "frame A (act_return x)"
  by (simp add: frame_def frame_at_def act_run)

lemma frame_throw [frame_intros]: "frame A (act_throw e)"
  by (simp add: frame_def frame_at_def act_run)

lemma frame_undefined [frame_intros]: "frame A act_undefined"
  by (simp add: frame_def frame_at_def act_undefined_def)

lemma frame_run_io [frame_intros]: "frame A (run_io f)"
  by (auto simp: frame_def frame_at_def act_run others_def unused_def split: prod.splits)

lemma frame_load [frame_intros]: "frame A (load p)"
  by (auto simp: frame_def frame_at_def act_run split: option.splits)

lemma frame_bind [frame_intros]: "frame A f \<Longrightarrow> (\<And>x. frame A (g x)) \<Longrightarrow> frame A (act_bind f g)"
  unfolding frame_def by (blast intro: frame_at_bind)

lemma frame_at_try: "frame_at A f s \<Longrightarrow> frame_at A (act_try f) s"
  unfolding frame_at_def act_try_def by (cases "f s") auto

lemma frame_try [frame_intros]: "frame A f \<Longrightarrow> frame A (act_try f)"
  by (simp add: frame_def frame_at_try)

lemma frame_store [frame_intros]: "p \<in> A \<Longrightarrow> frame A (store p obj)"
  by (auto simp: frame_def frame_at_def store_def others_def unused_def split: if_splits)

lemma frame_create [frame_intros]: "frame A (create obj)"
  unfolding frame_def frame_at_def act_run others_def unused_def by (auto simp: less_Suc_eq)

lemma frame_if [frame_intros]: "frame A f \<Longrightarrow> frame A g \<Longrightarrow> frame A (if b then f else g)"
  by simp

lemma frame_option [frame_intros]: "frame A f \<Longrightarrow> (\<And>x. frame A (g x)) \<Longrightarrow> frame A (case r of None \<Rightarrow> f | Some x \<Rightarrow> g x)"
  by (simp split: option.split)

lemma frame_sum [frame_intros]: "(\<And>x. frame A (f x)) \<Longrightarrow> (\<And>x. frame A (g x)) \<Longrightarrow> frame A (case r of Inl x \<Rightarrow> f x | Inr x \<Rightarrow> g x)"
  by (simp split: sum.split)

lemma frame_list [frame_intros]: "frame A f \<Longrightarrow> (\<And>x xs. frame A (g x xs)) \<Longrightarrow> frame A (case l of [] \<Rightarrow> f | x # xs \<Rightarrow> g x xs)"
  by (simp split: list.split)

lemma frame_prod [frame_intros]: "(\<And>x y. frame A (f x y)) \<Longrightarrow> frame A (case z of (x, y) \<Rightarrow> f x y)"
  by (simp split: prod.split)

lemma frame_obj [frame_intros]:
  "(\<And>c. frame A (f c)) \<Longrightarrow> (\<And>g'. frame A (g g')) \<Longrightarrow> (\<And>v. frame A (h v)) \<Longrightarrow>
     frame A (case obj of Client c \<Rightarrow> f c | Cgi g' \<Rightarrow> g g' | Server v \<Rightarrow> h v)"
  by (simp split: obj.split)

lemma frame_load_client [frame_intros]: "frame A (load_client p)"
  unfolding load_client_def by (intro frame_intros)

lemma frame_load_cgi [frame_intros]: "frame A (load_cgi p)"
  unfolding load_cgi_def by (intro frame_intros)

subsection \<open>The methods\<close>

lemma frame_UpdateLastActivity [frame_intros]: "p \<in> A \<Longrightarrow> frame A (client_UpdateLastActivity os p)"
  unfolding client_UpdateLastActivity_def by (intro frame_intros)

lemma frame_set_response [frame_intros]: "p \<in> A \<Longrightarrow> frame A (set_response os p res)"
  unfolding set_response_def by (intro frame_intros)

lemma frame_watch [frame_intros]: "frame A (watch_output os epoll_fd p)" "frame A (unwatch os epoll_fd fd)"
  unfolding watch_output_def unwatch_def by (intro frame_intros)+

lemma frame_parse_request [frame_intros]: "p \<in> A \<Longrightarrow> frame A (parse_request left p data)"
  unfolding parse_request_def by (intro frame_intros)

text \<open>The socket of a program is not at an address that was in use.\<close>

lemma frame_adopt [frame_intros]: "p \<in> A \<Longrightarrow> frame A (adopt_cgi_socket p g)"
  unfolding frame_def frame_at_def
proof (intro allI impI)
  fix s r s'
  assume p: "p \<in> A" and s: "unused s" and run: "adopt_cgi_socket p g s = Some (r, s')"
  let ?q = "next_address s"
  have q: "heap s ?q = None" using s unfolding unused_def by (metis less_irrefl)
  show "unused s' \<and> others A s s'"
  proof (cases "p = ?q")
    case True
    then show ?thesis using run
      by (simp add: adopt_cgi_socket_def OnSetOwner_def act_run store_def load_client_def act_undefined_def)
  next
    case False
    then show ?thesis using run s p q
      by (auto simp: adopt_cgi_socket_def OnSetOwner_def act_run store_def load_client_def act_undefined_def
          unused_def others_def less_Suc_eq split: option.splits obj.splits if_splits)
  qed
qed

lemma frame_client_event [frame_intros]: "p \<in> A \<Longrightarrow> frame A (client_HandleEvent os left epoll_fd p events)"
proof -
  assume p: "p \<in> A"
  have answer: "frame A (answer_request os epoll_fd p)"
    unfolding answer_request_def by (intro frame_intros p)
  have in': "frame A (HandleEpollIn os left epoll_fd p)"
    unfolding HandleEpollIn_def by (intro frame_intros p answer)
  have out: "frame A (HandleEpollOut os p)"
    unfolding HandleEpollOut_def by (intro frame_intros p)
  have exception: "frame A (client_exception os epoll_fd p r e)" for r e
    unfolding client_exception_def by (cases e; simp only: exn.case) (intro frame_intros p)+
  show ?thesis
    unfolding client_HandleEvent_def by (intro frame_intros p in' out exception)
qed

lemma frame_client_timeout [frame_intros]: "p \<in> A \<Longrightarrow> frame A (client_HandleTimeout os epoll_fd p)"
  unfolding client_HandleTimeout_def by (intro frame_intros)

lemma frame_owner_told [frame_intros]:
  assumes "p \<in> A"
  shows "frame A (OnCgiExecutionFinished os epoll_fd p out)" and "frame A (OnCgiExecutionError os epoll_fd p)"
proof -
  have closing: "frame A (case e of ResponseStatusException _ \<Rightarrow> run_io (io_lift (closing_response kInternalServerError))
      | _ \<Rightarrow> act_throw e)" for e
    by (cases e; simp only: exn.case) (intro frame_intros)+
  show "frame A (OnCgiExecutionFinished os epoll_fd p out)"
    unfolding OnCgiExecutionFinished_def by (intro frame_intros assms closing)
  show "frame A (OnCgiExecutionError os epoll_fd p)"
    unfolding OnCgiExecutionError_def by (intro frame_intros assms)
qed

lemma frame_server_event [frame_intros]: "frame A (server_HandleEvent os p events)"
  unfolding server_HandleEvent_def by (intro frame_intros)


text \<open>A program writes to its own object and to that of its owner, which only the state tells.\<close>

lemma load_cgi_bind: "heap s q = Some (Cgi g) \<Longrightarrow> act_bind (load_cgi q) k s = k g s"
  by (simp add: act_run load_cgi_def)

lemma frame_at_load: "heap s q = Some (Cgi g) \<Longrightarrow> frame_at A (k g) s \<Longrightarrow> frame_at A (act_bind (load_cgi q) k) s"
  by (simp add: frame_at_def load_cgi_bind)

lemma frame_at_io:
  assumes "\<And>x w cs. frame_at A (k x) (s\<lparr>world := w, calls := cs\<rparr>)"
  shows "frame_at A (act_bind (run_io f) k) s"
  by (rule frame_at_bind) (use assms in \<open>auto simp: act_run frame_frame_at frame_intros split: prod.splits\<close>)

lemma frame_cgi_event:
  fixes s :: "'w server"
  assumes "heap s q = Some (Cgi g)"
  shows "frame_at (insert q (set_option (cgs_owner g))) (cgi_HandleEvent os epoll_fd q events) s"
proof -
  let ?A = "insert q (set_option (cgs_owner g))"
  have q: "q \<in> ?A" by simp
  have told: "frame ?A (case cgs_owner g of None \<Rightarrow> act_return ()
      | Some p \<Rightarrow> if status = Some 0 then OnCgiExecutionFinished os epoll_fd p out else OnCgiExecutionError os epoll_fd p)"
    for status out
    by (cases "cgs_owner g") (auto intro!: frame_intros)
  have finished: "frame_at ?A (cgi_finished os epoll_fd q) t" if "heap t q = Some (Cgi g)" for t :: "'w server"
    unfolding cgi_finished_def
    by (rule frame_at_load [OF that], rule frame_frame_at) (intro frame_intros q told)
  have body: "frame_at ?A (if events AND EPOLLIN \<noteq> 0 then
         act_bind (load_cgi q) (\<lambda>g.
         act_bind (run_io (sys (\<lambda>_. Read (so_fd g) kBufferSize) (os_read os (so_fd g) kBufferSize))) (\<lambda>n.
           case n of
             Some (c # buf) \<Rightarrow>
               act_bind (store q (Cgi (g\<lparr>so_read_buffer := so_read_buffer g @ c # buf\<rparr>))) (\<lambda>_.
                 act_return SocketResult_init)
           | _ \<Rightarrow>
               act_bind (cgi_finished os epoll_fd q) (\<lambda>_.
                 act_return (SocketResult_init\<lparr>sr_remove_socket := True\<rparr>))))
       else act_return SocketResult_init) s"
    (is "frame_at _ (if _ then act_bind _ ?read else _) s")
  proof -
    have "frame_at ?A (?read g) s"
    proof (rule frame_at_io)
      fix n :: "string option" and w cs
      let ?t = "s\<lparr>world := w, calls := cs\<rparr>"
      have "heap ?t q = Some (Cgi g)" using assms by simp
      from finished [OF this] have "frame_at ?A (act_bind (cgi_finished os epoll_fd q) (\<lambda>_.
          act_return (SocketResult_init\<lparr>sr_remove_socket := True\<rparr>))) ?t"
        by (rule frame_at_bind) (intro frame_intros frame_frame_at)
      moreover have "frame_at ?A (act_bind (store q (Cgi (g\<lparr>so_read_buffer := so_read_buffer g @ c # buf\<rparr>))) (\<lambda>_.
          act_return SocketResult_init)) ?t" for c buf
        by (rule frame_frame_at) (intro frame_intros q)
      ultimately show "frame_at ?A (case n of
             Some (c # buf) \<Rightarrow>
               act_bind (store q (Cgi (g\<lparr>so_read_buffer := so_read_buffer g @ c # buf\<rparr>))) (\<lambda>_.
                 act_return SocketResult_init)
           | _ \<Rightarrow>
               act_bind (cgi_finished os epoll_fd q) (\<lambda>_.
                 act_return (SocketResult_init\<lparr>sr_remove_socket := True\<rparr>))) ?t"
        by (simp split: option.split list.split)
    qed
    then have "frame_at ?A (act_bind (load_cgi q) ?read) s" by (rule frame_at_load [OF assms])
    then show ?thesis by (cases "events AND EPOLLIN = 0") (simp_all add: frame_frame_at [OF frame_return])
  qed
  show ?thesis
    unfolding cgi_HandleEvent_def by (rule frame_at_bind [OF frame_at_try [OF body]]) (intro frame_intros frame_frame_at)
qed

text \<open>The object of an event and its partner.\<close>

definition concerned :: "'w server \<Rightarrow> nat \<Rightarrow> nat set" where
  "concerned s p = insert p (case heap s p of None \<Rightarrow> {} | Some obj \<Rightarrow> set_option (obj_link obj))"

lemma frame_event: "frame_at (concerned s p) (HandleEvent os left epoll_fd p events) s"
proof (cases "heap s p")
  case None
  then show ?thesis by (simp add: frame_at_def HandleEvent_def act_run)
next
  case (Some obj)
  have p: "p \<in> concerned s p" by (simp add: concerned_def)
  have "HandleEvent os left epoll_fd p events s =
      (case obj of Client c \<Rightarrow> client_HandleEvent os left epoll_fd p events
       | Cgi g \<Rightarrow> cgi_HandleEvent os epoll_fd p events | Server v \<Rightarrow> server_HandleEvent os p events) s"
    using Some by (simp add: HandleEvent_def act_run)
  moreover have "frame_at (concerned s p) (case obj of Client c \<Rightarrow> client_HandleEvent os left epoll_fd p events
       | Cgi g \<Rightarrow> cgi_HandleEvent os epoll_fd p events | Server v \<Rightarrow> server_HandleEvent os p events) s"
  proof (cases obj)
    case (Cgi g)
    then have "concerned s p = insert p (set_option (cgs_owner g))" using Some by (simp add: concerned_def)
    then show ?thesis using frame_cgi_event [of s p g] Some Cgi by simp
  qed (simp_all add: frame_frame_at frame_client_event frame_server_event p)
  ultimately show ?thesis by (simp add: frame_at_def)
qed


lemma frame_release [frame_intros]: "p \<in> A \<Longrightarrow> frame A (release p)"
  by (auto simp: frame_def frame_at_def release_def others_def unused_def split: if_splits)

lemma frame_OnSetOwner [frame_intros]: "q \<in> A \<Longrightarrow> frame A (OnSetOwner q owner)"
  unfolding OnSetOwner_def by (intro frame_intros)

lemma frame_RemoveCgiSocket [frame_intros]: "q \<in> A \<Longrightarrow> frame A (RemoveCgiSocket q sock)"
  unfolding RemoveCgiSocket_def by (intro frame_intros)

lemma frame_delete:
  fixes s :: "'w server"
  shows "frame_at (concerned s p) (delete_socket os p) s"
proof (cases "heap s p")
  case None
  then show ?thesis by (simp add: frame_at_def delete_socket_def act_run)
next
  case (Some obj)
  let ?A = "concerned s p"
  have p: "p \<in> ?A" by (simp add: concerned_def)
  have link: "q \<in> ?A" if "obj_link obj = Some q" for q using Some that by (simp add: concerned_def)
  have destroy: "frame_at ?A (case obj of Client c \<Rightarrow> ClientSocket_destroy p | Cgi g \<Rightarrow> CgiSocket_destroy os p
      | Server v \<Rightarrow> act_return ()) s"
  proof (cases obj)
    case (Client c)
    have "frame ?A (case cl_cgi_socket c of None \<Rightarrow> act_return () :: ('w, unit) act | Some q \<Rightarrow> OnSetOwner q None)"
      using link Client by (cases "cl_cgi_socket c") (auto intro: frame_intros)
    then show ?thesis using Some Client
      by (simp add: ClientSocket_destroy_def frame_at_def act_run load_client_def frame_def)
  next
    case (Cgi g)
    have "frame ?A (act_bind (case cgs_owner g of None \<Rightarrow> act_return () | Some p' \<Rightarrow> RemoveCgiSocket p' p) (\<lambda>_.
       if 0 < cgs_pid g then
         run_io (io_bind (sys (\<lambda>_. Kill (cgs_pid g)) (os_kill os (cgs_pid g))) (\<lambda>_.
           io_bind (call_waitpid os (cgs_pid g)) (\<lambda>_. io_return ())))
       else act_return ()))"
      using link Cgi by (cases "cgs_owner g") (auto intro!: frame_intros)
    note body = frame_frame_at [OF this, of s]
    have "heap s p = Some (Cgi g)" using Some Cgi by simp
    then have "frame_at ?A (CgiSocket_destroy os p) s"
      unfolding CgiSocket_destroy_def by (rule frame_at_load) (rule body)
    then show ?thesis by (simp only: Cgi obj.case)
  qed (auto intro: frame_frame_at frame_intros)
  have "frame_at ?A (act_bind (case obj of Client c \<Rightarrow> ClientSocket_destroy p | Cgi g \<Rightarrow> CgiSocket_destroy os p
      | Server v \<Rightarrow> act_return ()) (\<lambda>_. act_bind (run_io (Fd_destroy os (obj_fd obj))) (\<lambda>_. release p))) s"
    by (rule frame_at_bind [OF destroy]) (intro frame_intros frame_frame_at p)
  then show ?thesis using Some by (simp add: delete_socket_def frame_at_def act_run)
qed

lemma frame_add:
  fixes s :: "'w server"
  shows "frame_at (concerned s q) (add_socket os ws q) s"
  unfolding add_socket_def
proof (rule frame_at_bind [OF frame_frame_at [OF frame_load]])
  fix obj and t :: "'w server"
  assume "load q s = Some (Inr obj, t)"
  then have t: "t = s" by (simp add: act_run split: option.splits)
  have ret: "frame_at (concerned s q) (act_return y) u" for y :: webserv and u :: "'w server"
    by (intro frame_intros frame_frame_at)
  show "frame_at (concerned s q)
     (let ws1 = ws\<lparr>ws_sockets := map_put (obj_fd obj) q (ws_sockets ws)\<rparr>
      in act_bind (run_io (call_epoll_ctl os (ws_epoll_fd ws1) EPOLL_CTL_ADD (obj_fd obj) EPOLLIN (Some q))) (\<lambda>r.
        if r \<noteq> None then
          act_bind (delete_socket os q) (\<lambda>_.
            act_return (ws1\<lparr>ws_sockets := map_del (obj_fd obj) (ws_sockets ws1)\<rparr>))
        else act_return ws1)) t"
    unfolding Let_def t
  proof (rule frame_at_io)
    fix r w cs
    let ?t = "s\<lparr>world := w, calls := cs\<rparr>" and ?ws1 = "ws\<lparr>ws_sockets := map_put (obj_fd obj) q (ws_sockets ws)\<rparr>"
    have "concerned ?t q = concerned s q" by (simp add: concerned_def)
    then have "frame_at (concerned s q) (delete_socket os q) ?t" using frame_delete [of ?t q os] by simp
    then have gone: "frame_at (concerned s q) (act_bind (delete_socket os q) (\<lambda>_.
        act_return (?ws1\<lparr>ws_sockets := map_del (obj_fd obj) (ws_sockets ?ws1)\<rparr>))) ?t"
      by (rule frame_at_bind) (rule ret)
    show "frame_at (concerned s q) (if r \<noteq> None
        then act_bind (delete_socket os q) (\<lambda>_. act_return (?ws1\<lparr>ws_sockets := map_del (obj_fd obj) (ws_sockets ?ws1)\<rparr>))
        else act_return ?ws1) ?t"
    proof (cases "r = None")
      case True
      then show ?thesis by (simp only: not_True_eq_False if_False ret simp_thms)
    next
      case False
      then show ?thesis by (simp only: not_False_eq_True if_True gone)
    qed
  qed
qed

subsection \<open>A turn of the loop\<close>

definition affected :: "'w server \<Rightarrow> nat set \<Rightarrow> nat set" where
  "affected s P = (\<Union>p\<in>P. concerned s p)"

text \<open>Links go both ways, so what one step leaves alone has the partner it had before.\<close>

lemma partner_before:
  assumes "linked (heap s)" and "linked (heap s1)" and "others A s s1" and "heap s x = Some obj" and "x \<notin> A"
    and "heap s1 p = Some obj1" and "obj_link obj1 = Some x"
  shows "x \<in> concerned s p"
proof -
  have "heap s1 x = Some obj" by (rule others_D [OF assms(3,5,4)])
  then have "obj_link obj = Some p" using assms(2,6,7) unfolding linked_def by fastforce
  then obtain obj0 where "heap s p = Some obj0" "obj_link obj0 = Some x" using assms(1,4) unfolding linked_def by blast
  then show ?thesis by (simp add: concerned_def)
qed

lemma others_affected:
  assumes "linked (heap s)" and "linked (heap s1)" and "others A s s1" and "others (affected s1 P) s1 s2"
  shows "others (A \<union> affected s P) s s2"
  unfolding others_def
proof (intro allI impI)
  fix x obj
  assume x: "x \<notin> A \<union> affected s P" and obj: "heap s x = Some obj"
  have "x \<notin> affected s1 P"
  proof
    assume "x \<in> affected s1 P"
    then obtain p where p: "p \<in> P" "x \<in> concerned s1 p" by (auto simp: affected_def)
    have "x \<noteq> p" using x p(1) by (auto simp: affected_def concerned_def)
    then obtain obj1 where "heap s1 p = Some obj1" "obj_link obj1 = Some x"
      using p(2) by (auto simp: concerned_def split: option.splits)
    then have "x \<in> concerned s p" using partner_before [OF assms(1-3) obj] x by blast
    then show False using x p(1) by (auto simp: affected_def)
  qed
  then show "heap s2 x = Some obj" using assms(3,4) obj x by (auto dest: others_D)
qed

lemma loop_ok_linked: "loop_ok ws s \<Longrightarrow> linked (heap s)" "loop_ok ws s \<Longrightarrow> unused s"
  by (auto dest!: loop_ok_D(1) good_D(1) simp: heap_ok_def unused_def)

lemma affected_one [simp]: "affected s {p} = concerned s p"
  by (simp add: affected_def)

text \<open>One event.\<close>

lemma event_others:
  fixes s :: "'w server"
  assumes "os_ok os" and ok: "loop_ok ws s" and obj: "heap s p = Some obj"
    and run: "HandleEvent os left (ws_epoll_fd ws) p ev s = Some (Inr r, s1)"
    and add: "(case sr_new_socket r of None \<Rightarrow> act_return ws | Some q \<Rightarrow> add_socket os ws q) s1 = Some (Inr ws1, s2)"
    and remove: "(if sr_remove_socket r then remove_socket os ws1 p else act_return ws1) s2 = Some (Inr ws2, s3)"
  shows "loop_ok ws2 s3" and "others (concerned s p) s s3"
    and "q \<noteq> p \<Longrightarrow> shape (heap s) q = Some x \<Longrightarrow> shape (heap s3) q = Some x"
proof -
  have "wp (HandleEvent os left (ws_epoll_fd ws) p ev) (handled (only_fd (ws_epoll_fd ws)) s) (\<lambda>_ _. True) s"
    by (rule wp_HandleEvent [OF assms(1) loop_ok_D(1) [OF ok] obj])
  then have s1: "handled (only_fd (ws_epoll_fd ws)) s r s1" using run by (rule wp_run_D)
  then have linked1: "linked (heap s1)" by (auto simp: handled_def good_def heap_ok_def)
  have o1: "others (concerned s p) s s1"
    by (rule conjunct2 [OF frame_at_D [OF frame_event run loop_ok_linked(2) [OF ok]]])
  have "wp (case sr_new_socket r of None \<Rightarrow> act_return ws | Some q \<Rightarrow> add_socket os ws q)
      (\<lambda>ws' s'. loop_ok ws' s' \<and> (\<forall>p x. shape (heap s) p = Some x \<longrightarrow> shape (heap s') p = Some x)) (\<lambda>_ _. True) s1"
    by (rule wp_new_socket [OF ok s1]) (simp add: turned_def)
  note s2 = wp_run_D [OF this add]
  have ok2: "loop_ok ws1 s2" by (rule conjunct1 [OF s2])
  have live2: "\<And>p x. shape (heap s) p = Some x \<Longrightarrow> shape (heap s2) p = Some x" using conjunct2 [OF s2] by blast
  have unused1: "unused s1" by (rule conjunct1 [OF frame_at_D [OF frame_event run loop_ok_linked(2) [OF ok]]])
  have o2: "others (concerned s p) s s2"
  proof (cases "sr_new_socket r")
    case None
    then show ?thesis using add o1 by (simp add: act_run)
  next
    case (Some q)
    have q: "heap s q = None" using s1 Some by (auto simp: handled_def shape_def)
    have "frame_at (concerned s1 q) (add_socket os ws q) s1" by (rule frame_add)
    moreover have "add_socket os ws q s1 = Some (Inr ws1, s2)" using add Some by simp
    ultimately have "others (affected s1 {q}) s1 s2" using unused1 by (auto dest: frame_at_D)
    from others_affected [OF loop_ok_linked(1) [OF ok] linked1 o1 this]
    have "others (concerned s p \<union> {q}) s s2" using q by (simp add: concerned_def)
    then show ?thesis unfolding others_def using q by (metis UnE option.distinct(1) singletonD)
  qed
  have "loop_ok ws2 s3 \<and> others (concerned s p) s s3 \<and>
     (\<forall>q x. q \<noteq> p \<longrightarrow> shape (heap s) q = Some x \<longrightarrow> shape (heap s3) q = Some x)"
  proof (cases "sr_remove_socket r")
    case False
    then show ?thesis using remove ok2 o2 live2 by (simp add: act_run)
  next
    case True
    then have run3: "remove_socket os ws1 p s2 = Some (Inr ws2, s3)" using remove by simp
    obtain k fd where sh: "shape (heap s2) p = Some (k, fd)" using live2 obj by (auto simp: shape_def) (metis prod.collapse)
    have "wp (remove_socket os ws1 p) (\<lambda>ws' s'. loop_ok ws' s' \<and> shape (heap s') = (shape (heap s2))(p := None)) (\<lambda>_ _. True) s2"
      by (rule wp_remove_socket [OF ok2 sh]) (simp add: turned_def)
    from wp_run_D [OF this run3] have s3: "loop_ok ws2 s3" "shape (heap s3) = (shape (heap s2))(p := None)" by simp_all
    obtain r' where "delete_socket os p s2 = Some (r', s3)"
      using run3 by (auto simp: remove_socket_def act_run split: option.splits prod.splits sum.splits)
    then have "others (affected s2 {p}) s2 s3"
      using frame_at_D [OF frame_delete _ loop_ok_linked(2) [OF ok2]] by simp
    from others_affected [OF loop_ok_linked(1) [OF ok] loop_ok_linked(1) [OF ok2] o2 this]
    show ?thesis using s3 live2 by simp
  qed
  then show "loop_ok ws2 s3" and "others (concerned s p) s s3"
    and "q \<noteq> p \<Longrightarrow> shape (heap s) q = Some x \<Longrightarrow> shape (heap s3) q = Some x" by blast+
qed


text \<open>All of them.\<close>

lemma act_bind_Inr:
  assumes "act_bind f g s = Some (Inr y, s')"
  obtains x s1 where "f s = Some (Inr x, s1)" and "g x s1 = Some (Inr y, s')"
  using assms by (auto simp: act_run split: option.splits prod.splits sum.splits)

lemma event_loop_others:
  fixes s :: "'w server"
  assumes "os_ok os" and "loop_ok ws s" and "distinct (map fst events)"
    and "\<And>p ev. (p, ev) \<in> set events \<Longrightarrow> shape (heap s) p \<noteq> None"
    and "event_loop os left ws events s = Some (Inr ws', s')"
  shows "others (affected s (fst ` set events)) s s'"
  using assms(2-)
proof (induction events arbitrary: ws s)
  case Nil
  then show ?case by (simp add: act_run)
next
  case (Cons e rest)
  obtain p ev where e: "e = (p, ev)" by (cases e)
  obtain obj where obj: "heap s p = Some obj" using Cons.prems(3) [of p ev] e by (auto simp: shape_def)
  obtain r s1 ws1 s2 ws2 s3 where steps: "HandleEvent os left (ws_epoll_fd ws) p ev s = Some (Inr r, s1)"
      "(case sr_new_socket r of None \<Rightarrow> act_return ws | Some q \<Rightarrow> add_socket os ws q) s1 = Some (Inr ws1, s2)"
      "(if sr_remove_socket r then remove_socket os ws1 p else act_return ws1) s2 = Some (Inr ws2, s3)"
    and rest: "event_loop os left ws2 rest s3 = Some (Inr ws', s')"
    using Cons.prems(4) unfolding e event_loop.simps by (elim act_bind_Inr)
  note s3 = event_others [OF assms(1) Cons.prems(1) obj steps]
  have "others (affected s3 (fst ` set rest)) s3 s'"
  proof (rule Cons.IH [OF s3(1) _ _ rest])
    show "distinct (map fst rest)" using Cons.prems(2) by simp
    fix q ev'
    assume q: "(q, ev') \<in> set rest"
    then have "q \<noteq> p" using Cons.prems(2) e by force
    moreover have "shape (heap s) q \<noteq> None" using Cons.prems(3) [of q ev'] q by simp
    ultimately show "shape (heap s3) q \<noteq> None" using s3(3) by fastforce
  qed
  from others_affected [OF loop_ok_linked(1) [OF Cons.prems(1)] loop_ok_linked(1) [OF s3(1)] s3(2) this]
  show ?case by (simp add: e affected_def)
qed

end
