(* ===== verification/Isolation.thy ===== *)
theory Isolation
  imports Frames
begin

text \<open>
  No client can reach the state of another one, and the timeouts remove exactly the objects that
  were silent for too long.
\<close>

subsection \<open>The timeouts\<close>

text \<open>The time of the last activity; a listening socket has no timeout.\<close>

fun obj_age :: "obj \<Rightarrow> int option" where
  "obj_age (Client c) = Some (so_last_activity c)"
| "obj_age (Cgi g) = Some (so_last_activity g)"
| "obj_age (Server v) = None"

definition age :: "'w server \<Rightarrow> nat \<Rightarrow> int option option" where
  "age s p = map_option obj_age (heap s p)"

definition silent :: "int \<Rightarrow> int option option \<Rightarrow> bool" where
  "silent threshold a \<longleftrightarrow> (case a of Some (Some t) \<Rightarrow> t < threshold | _ \<Rightarrow> False)"

lemma silent_IsTimeout: "heap s p = Some obj \<Longrightarrow> silent threshold (age s p) = obj_IsTimeout obj threshold"
  by (cases obj) (simp_all add: silent_def age_def IsTimeout_def)

lemma unlink_age:
  "OnSetOwner q owner s = Some (r, s') \<Longrightarrow> age s' = age s"
  "RemoveCgiSocket q sock s = Some (r, s') \<Longrightarrow> age s' = age s"
  by (auto simp: OnSetOwner_def RemoveCgiSocket_def act_run store_def load_client_def act_undefined_def age_def fun_eq_iff
      split: option.splits obj.splits if_splits)

lemma run_io_age: "run_io f s = Some (r, s') \<Longrightarrow> age s' = age s"
  by (auto simp: act_run age_def fun_eq_iff split: prod.splits)

lemma delete_age:
  assumes "delete_socket os p s = Some (Inr u, s')"
  shows "age s' = (age s)(p := None)"
proof -
  obtain obj where obj: "heap s p = Some obj" using assms by (cases "heap s p") (auto simp: delete_socket_def act_run)
  then have "act_bind (case obj of Client c \<Rightarrow> ClientSocket_destroy p | Cgi g \<Rightarrow> CgiSocket_destroy os p
      | Server v \<Rightarrow> act_return ()) (\<lambda>_. act_bind (run_io (Fd_destroy os (obj_fd obj))) (\<lambda>_. release p)) s = Some (Inr u, s')"
    using assms by (simp add: delete_socket_def act_run)
  then obtain s1 s2 where d: "(case obj of Client c \<Rightarrow> ClientSocket_destroy p | Cgi g \<Rightarrow> CgiSocket_destroy os p
      | Server v \<Rightarrow> act_return ()) s = Some (Inr (), s1)"
      and s2: "run_io (Fd_destroy os (obj_fd obj)) s1 = Some (Inr (), s2)" and s': "release p s2 = Some (Inr u, s')"
    by (elim act_bind_Inr) simp
  have "age s1 = age s"
  proof (cases obj)
    case (Client c)
    then have "(case cl_cgi_socket c of None \<Rightarrow> act_return () | Some q \<Rightarrow> OnSetOwner q None) s = Some (Inr (), s1)"
      using d obj by (simp add: ClientSocket_destroy_def act_run load_client_def)
    then show ?thesis using unlink_age(1) by (cases "cl_cgi_socket c") (auto simp: act_run)
  next
    case (Cgi g)
    then have h: "heap s p = Some (Cgi g)" and "CgiSocket_destroy os p s = Some (Inr (), s1)" using obj d by simp_all
    then have "act_bind (case cgs_owner g of None \<Rightarrow> act_return () | Some p' \<Rightarrow> RemoveCgiSocket p' p) (\<lambda>_.
       if 0 < cgs_pid g then
         run_io (io_bind (sys (\<lambda>_. Kill (cgs_pid g)) (os_kill os (cgs_pid g))) (\<lambda>_.
           io_bind (call_waitpid os (cgs_pid g)) (\<lambda>_. io_return ())))
       else act_return ()) s = Some (Inr (), s1)"
      by (simp only: CgiSocket_destroy_def load_cgi_bind [OF h])
    then obtain t where t: "(case cgs_owner g of None \<Rightarrow> act_return () | Some p' \<Rightarrow> RemoveCgiSocket p' p) s = Some (Inr (), t)"
        and k: "(if 0 < cgs_pid g then
         run_io (io_bind (sys (\<lambda>_. Kill (cgs_pid g)) (os_kill os (cgs_pid g))) (\<lambda>_.
           io_bind (call_waitpid os (cgs_pid g)) (\<lambda>_. io_return ())))
       else act_return ()) t = Some (Inr (), s1)"
      by (elim act_bind_Inr) simp
    have "age t = age s" using t unlink_age(2) by (cases "cgs_owner g") (auto simp: act_run(1))
    moreover have "age s1 = age t" using k run_io_age by (auto simp: act_run(1) split: if_splits)
    ultimately show ?thesis by simp
  qed (use d in \<open>simp add: act_run\<close>)
  moreover have "age s2 = age s1" by (rule run_io_age [OF s2])
  moreover have "age s' = (age s2)(p := None)"
    using s' by (auto simp: release_def age_def fun_eq_iff split: if_splits)
  ultimately show ?thesis by simp
qed


lemma timeout_step:
  fixes s :: "'w server"
  assumes good: "good base s" and obj: "heap s p = Some obj"
    and handle: "HandleTimeout os epoll_fd p s = Some (Inr u, s1)" and delete: "delete_socket os p s1 = Some (Inr v, s2)"
  shows "good base s2" and "age s2 = (age s)(p := None)" and "others (concerned s p) s s2"
proof -
  have "wp (HandleTimeout os epoll_fd p) (\<lambda>_. kept base s) (\<lambda>_ _. True) s"
    by (rule wp_HandleTimeout [OF good obj])
  then have kept: "kept base s s1" using handle by (rule wp_run_D)
  then have good1: "good base s1" by (rule kept_good)
  have unused: "unused s" "unused s1" and linked: "linked (heap s)" "linked (heap s1)"
    using good good1 by (auto dest!: good_D(1) simp: heap_ok_def unused_def)
  have "frame {p} (HandleTimeout os epoll_fd p)" unfolding HandleTimeout_def by (intro frame_intros) simp
  from frame_at_D [OF frame_frame_at [OF this] handle unused(1)] have o1: "others {p} s s1" by simp
  have "others (affected s1 {p}) s1 s2" using frame_at_D [OF frame_delete delete unused(2)] by simp
  from others_affected [OF linked o1 this] show "others (concerned s p) s s2"
    by (rule others_mono) (simp add: concerned_def)
  have "shape (heap s1) p \<noteq> None" using kept obj by (simp add: kept_def shape_def)
  then obtain obj1 where obj1: "heap s1 p = Some obj1" by (auto simp: shape_def)
  have "wp (delete_socket os p) (\<lambda>_. good base) (\<lambda>_ _. True) s1" by (rule wp_delete_socket [OF good1 obj1])
  then show "good base s2" using delete by (rule wp_run_D)
  have "age s1 x = age s x" if "x \<noteq> p" for x
  proof (cases "heap s x")
    case None
    then have "shape (heap s1) x = None" using kept by (simp add: kept_def shape_def)
    then show ?thesis using None by (simp add: age_def shape_def)
  next
    case (Some obj)
    then show ?thesis using others_D [OF o1 _ Some] that by (simp add: age_def)
  qed
  then show "age s2 = (age s)(p := None)" using delete_age [OF delete] by (simp add: fun_eq_iff)
qed

lemma timeout_loop_exact:
  fixes s :: "'w server"
  assumes "good base s" and "timeout_loop os threshold ws entries s = Some (Inr ws', s')"
  shows "age s' p = (if p \<in> snd ` set entries \<and> silent threshold (age s p) then None else age s p)"
    and "others (affected s {p \<in> snd ` set entries. silent threshold (age s p)}) s s'"
proof -
  have "(\<forall>p. age s' p = (if p \<in> snd ` set entries \<and> silent threshold (age s p) then None else age s p)) \<and>
     others (affected s {p \<in> snd ` set entries. silent threshold (age s p)}) s s'"
    using assms
  proof (induction entries arbitrary: ws s)
    case Nil
    then show ?case by (simp add: act_run)
  next
    case (Cons e rest)
    obtain fd p where e: "e = (fd, p)" by (cases e)
    obtain obj where obj: "heap s p = Some obj" using Cons.prems(2) by (cases "heap s p") (auto simp: e act_run)
    let ?silent = "\<lambda>s entries. {p \<in> snd ` set entries. silent threshold (age s p)}"
    have linked: "linked (heap s)" using Cons.prems(1) by (auto dest!: good_D(1) simp: heap_ok_def)
    show ?case
    proof (cases "silent threshold (age s p)")
      case False
      then have "timeout_loop os threshold ws rest s = Some (Inr ws', s')"
        using Cons.prems(2) obj silent_IsTimeout [OF obj] by (simp add: e act_run)
      from Cons.IH [OF Cons.prems(1) this] show ?thesis
      proof
        assume ages: "\<forall>p. age s' p = (if p \<in> snd ` set rest \<and> silent threshold (age s p) then None else age s p)"
          and "others (affected s (?silent s rest)) s s'"
        moreover have "?silent s rest = ?silent s (e # rest)" using False e by auto
        ultimately show ?thesis using False e by auto
      qed
    next
      case True
      then obtain u s1 v s2 where "HandleTimeout os (ws_epoll_fd ws) p s = Some (Inr u, s1)" "delete_socket os p s1 = Some (Inr v, s2)"
          and rest: "timeout_loop os threshold (ws\<lparr>ws_sockets := map_del fd (ws_sockets ws)\<rparr>) rest s2 = Some (Inr ws', s')"
        using Cons.prems(2) obj silent_IsTimeout [OF obj]
        by (auto simp: e act_run(6) act_run(3) [of "load p"] elim!: act_bind_Inr)
      note s2 = timeout_step [OF Cons.prems(1) obj this(1,2)]
      have linked2: "linked (heap s2)" using s2(1) by (auto dest!: good_D(1) simp: heap_ok_def)
      note ih = Cons.IH [OF s2(1) rest]
      have "others (concerned s p \<union> affected s (?silent s2 rest)) s s'"
        by (rule others_affected [OF linked linked2 s2(3) conjunct2 [OF ih]])
      moreover have "?silent s2 rest \<subseteq> ?silent s (e # rest)" by (auto simp: s2(2) e silent_def split: if_splits)
      moreover have "p \<in> ?silent s (e # rest)" using True e by simp
      ultimately have "others (affected s (?silent s (e # rest))) s s'"
        by (rule_tac others_mono) (auto simp: affected_def)
      moreover have "age s' x = (if x \<in> snd ` set (e # rest) \<and> silent threshold (age s x) then None else age s x)" for x
        using conjunct1 [OF ih] True by (auto simp: s2(2) e silent_def)
      ultimately show ?thesis by blast
    qed
  qed
  then show "age s' p = (if p \<in> snd ` set entries \<and> silent threshold (age s p) then None else age s p)"
    and "others (affected s {p \<in> snd ` set entries. silent threshold (age s p)}) s s'" by blast+
qed

subsection \<open>A slower clock\<close>

text \<open>The small system with a clock that moves by one, and a client that is not silent for long.\<close>

definition calm_os :: "ticks os" where
  "calm_os = tick_os\<lparr>os_time := (\<lambda>(n, d). (int n, (Suc n, d)))\<rparr>"

lemma calm_os_ok: "os_ok calm_os"
  by (auto simp: os_ok_def tick_os_def calm_os_def)

definition calm_client :: "server_config \<Rightarrow> client_socket" where
  "calm_client c = (tick_client c)\<lparr>so_last_activity := 2\<rparr>"

definition calm_connected :: "server_config \<Rightarrow> ticks server" where
  "calm_connected c = (tick_connected c)\<lparr>heap := [0 \<mapsto> Server (tick_listener c), 1 \<mapsto> Client (calm_client c)]\<rparr>"

lemma calm_sys:
  "os_time calm_os (n, d) = (int n, (Suc n, d))" "os_accept calm_os fd w = (Some (5, 0), w)"
  "os_epoll_ctl calm_os epfd op fd ev p w = (None, w)" "os_epoll_create calm_os w = (4, w)"
  by (simp_all add: tick_os_def calm_os_def)

lemma calm_load:
  "LoadFileOrThrowRuntime calm_os ''/c'' \<lparr>world = w, calls = []\<rparr> =
     (Inr sample_text, \<lparr>world = w, calls = [Stat ''/c'', ReadFile ''/c'']\<rparr>)"
proof -
  have "c_str ''/c'' = ''/c''" by code_simp
  then show ?thesis by (simp add: LoadFileOrThrowRuntime_def call_stat_def io_run tick_os_def calm_os_def)
qed

lemma calm_listen:
  "ServerSocket_init calm_os c \<lparr>world = (0, []), calls = cs\<rparr> =
     (Inr (tick_listener c),
      \<lparr>world = (1, []), calls = cs @ [Socket 3, Time, Fcntl_getfl 3, Fcntl_setfl 3 O_NONBLOCK, Setsockopt 3, Bind 3 (sc_port c), Listen 3]\<rparr>)"
  by (simp add: ServerSocket_init_def CreateServerSocketFd_def ASocket_init_def call_time_def
      SetNonBlocking_def start_listening_def io_run io_unwind_def tick_os_def calm_os_def tick_listener_def)

lemma calm_ClientSocket:
  "ClientSocket_init calm_os 5 c (Ipv4ToString 0) \<lparr>world = (2, []), calls = cs\<rparr> =
     (Inr (calm_client c), \<lparr>world = (3, []), calls = cs @ [Time, Fcntl_getfl 5, Fcntl_setfl 5 O_NONBLOCK]\<rparr>)"
  by (simp add: ClientSocket_init_def ASocket_init_def call_time_def SetNonBlocking_def io_run io_unwind_def
      tick_os_def calm_os_def tick_client_def calm_client_def asocket.defs)

lemma calm_client_fd: "so_fd (calm_client c) = 5" "so_last_activity (calm_client c) = 2" "cl_cgi_socket (calm_client c) = None"
  by (simp_all add: calm_client_def tick_client_fd)

lemma calm_reachable:
  obtains c where "reachable calm_os left None ''/c'' (0, []) (tick_two c) (calm_connected c)"
proof -
  obtain c where c: "ConfigParser_Parse None sample_text = Inr [c]" by (rule sample_config)
  have "Webserv_init calm_os None ''/c'' (initial_server (0, [])) = Some (Inr (tick_webserv c), tick_server c)"
    by (simp add: Webserv_init_def act_run io_run initial_server_def calm_load c InitServersFromConfigs_def Webserv_empty_def
        calm_listen calm_sys call_epoll_ctl_def tick_listener_fd tick_webserv_def tick_server_def Let_def)
  then have start: "reachable calm_os left None ''/c'' (0, []) (tick_webserv c) (tick_server c)" by (rule reachable.start)
  let ?s = "(tick_server c)\<lparr>world := (2, []), calls := calls (tick_server c) @ [Time]\<rparr>"
  have check: "CheckTimeout calm_os (tick_webserv c) (tick_server c) = Some (Inr (tick_webserv c), ?s)"
    by (simp add: CheckTimeout_def act_run io_run call_time_def calm_sys tick_webserv_def tick_server_def)
  have "EPOLLIN AND EPOLLIN \<noteq> 0" by (simp add: EPOLLIN_def)
  then have "Run_turn calm_os left (tick_webserv c) (Some [(0, EPOLLIN)]) ?s = Some (Inr (tick_two c), calm_connected c)"
    by (simp add: Run_turn_def HandleEvent_def server_HandleEvent_def act_run io_run calm_sys tick_listener_fd
        tick_server_def calm_ClientSocket add_socket_def call_epoll_ctl_def calm_client_fd SocketResult_init_def
        tick_webserv_def tick_two_def tick_connected_def calm_connected_def Let_def)
  moreover have "may_report (calls ?s) (Some [(0, EPOLLIN)])"
    by (simp add: may_report_def kMaxEvents_def tick_server_def registered_def)
  ultimately show thesis using that reachable.turn [OF start check] by blast
qed

lemma calm_check:
  "CheckTimeout calm_os (tick_two c) (calm_connected c) =
     Some (Inr (tick_two c), (calm_connected c)\<lparr>world := (4, []), calls := calls (calm_connected c) @ [Time]\<rparr>)"
  by (simp add: CheckTimeout_def act_run io_run call_time_def calm_sys tick_two_def tick_webserv_def calm_connected_def
      tick_connected_def kRequestTimeoutSeconds_def IsTimeout_def calm_client_fd)

subsection \<open>Properties\<close>

text \<open>C6: Connections are isolated: a turn of the loop leaves every object exactly as it was, unless an event was
  reported for it or for the object it is linked with. So no client, and no program of a client,
  can change what another connection has read, will send or waits for.\<close>

theorem connections_isolated:
  fixes s :: "'w server"
  assumes "os_ok os" and "reachable os left getcwd config_file w ws s" and "CheckTimeout os ws s = Some (Inr ws1, s1)"
    and "may_report (calls s1) (Some events)" and "Run_turn os left ws1 (Some events) s1 = Some (Inr ws2, s2)"
    and "heap s1 p = Some obj" and "p \<notin> fst ` set events" and "\<And>q. obj_link obj = Some q \<Longrightarrow> q \<notin> fst ` set events"
  shows "heap s2 p = Some obj"
proof -
  have "wp (CheckTimeout os ws) (turned ws s) (\<lambda>_ _. True) s"
    by (rule wp_CheckTimeout [OF reachable_ok [OF assms(2,1)]])
  from wp_run_D [OF this assms(3)] have ok: "loop_ok ws1 s1" by (simp add: turned_def)
  have live: "shape (heap s1) q \<noteq> None" if "(q, ev) \<in> set events" for q ev
  proof -
    have "q \<in> snd ` set (registered (calls s1))" using assms(4) that by (auto simp: may_report_def list_all_iff)
    from registered_owners [OF loop_ok_D(1) [OF ok] this] show ?thesis by (auto simp: owners_def)
  qed
  have "others (affected s1 (fst ` set events)) s1 s2"
    by (rule event_loop_others [OF assms(1) ok _ live])
       (use assms(4,5) in \<open>auto simp: may_report_def Run_turn_def\<close>)
  moreover have "p \<notin> affected s1 (fst ` set events)"
  proof
    assume "p \<in> affected s1 (fst ` set events)"
    then obtain q where q: "q \<in> fst ` set events" "p \<in> concerned s1 q" by (auto simp: affected_def)
    then obtain obj' where "heap s1 q = Some obj'" "obj_link obj' = Some p"
      using assms(7) by (auto simp: concerned_def split: option.splits)
    then have "obj_link obj = Some q" using loop_ok_linked(1) [OF ok] assms(6) unfolding linked_def by fastforce
    then show False using assms(8) q(1) by blast
  qed
  ultimately show ?thesis using assms(6) by (rule others_D)
qed

theorem connections_isolated_witness:
  "\<exists>ws s c s1 ws2 s2. reachable calm_os (\<lambda>r _. r) None ''/c'' (0, []) ws s \<and> CheckTimeout calm_os ws s = Some (Inr ws, s1) \<and>
     heap s1 1 = Some (Client c) \<and> Run_turn calm_os (\<lambda>r _. r) ws (Some [(0, EPOLLIN)]) s1 = Some (Inr ws2, s2) \<and>
     heap s2 1 = Some (Client c)"
proof -
  obtain c where r: "reachable calm_os (\<lambda>r _. r) None ''/c'' (0, []) (tick_two c) (calm_connected c)" by (rule calm_reachable)
  let ?s1 = "(calm_connected c)\<lparr>world := (4, []), calls := calls (calm_connected c) @ [Time]\<rparr>"
  have report: "may_report (calls ?s1) (Some [(0, EPOLLIN)])"
    by (simp add: may_report_def kMaxEvents_def calm_connected_def tick_connected_def tick_server_def registered_def)
  obtain ws2 s2 where run: "Run_turn calm_os (\<lambda>r _. r) (tick_two c) (Some [(0, EPOLLIN)]) ?s1 = Some (Inr ws2, s2)"
    using turn_succeeds(2) [OF calm_os_ok r calm_check report] by blast
  have h: "heap ?s1 1 = Some (Client (calm_client c))" by (simp add: calm_connected_def)
  have "heap s2 1 = Some (Client (calm_client c))"
    by (rule connections_isolated [OF calm_os_ok r calm_check report run h]) (simp_all add: calm_client_fd)
  then show ?thesis using r calm_check run h by blast
qed




end
