(* ===== verification/Client_Address.thy ===== *)
theory Client_Address
  imports Sockets Host_Validation
begin

text \<open>
  The text of the address of a client, which \<open>ClientSocket\<close> hands to the CGI programs.
\<close>

lemma low_byte: "w AND 255 = (w AND mask 8 :: 32 word)"
  by (simp add: mask_eq_exp_minus_1)

lemma second_byte: "w AND 65280 = (w AND push_bit 8 (mask 8) :: 32 word)"
  by (simp add: mask_eq_exp_minus_1)

lemma ntohl_bytes:
  "drop_bit 24 (ntohl w) AND 255 = w AND 255"
  "drop_bit 16 (ntohl w) AND 255 = drop_bit 8 w AND 255"
  "drop_bit 8 (ntohl w) AND 255 = drop_bit 16 w AND 255"
  "ntohl w AND 255 = drop_bit 24 w AND 255"
  unfolding ntohl_def low_byte second_byte
  by (rule bit_word_eqI; auto simp: bit_simps)+

definition address_bytes :: "32 word \<Rightarrow> nat list" where
  "address_bytes w = map unat [w AND 255, drop_bit 8 w AND 255, drop_bit 16 w AND 255, drop_bit 24 w AND 255]"

lemma Ipv4ToString_text: "Ipv4ToString w = ipv4_text (address_bytes w)"
  by (simp add: Ipv4ToString_def ntohl_bytes address_bytes_def ipv4_text_def ToString_nat_def Let_def)

lemma byte_bound: "unat (w AND 255 :: 32 word) \<le> 255"
  using word_and_le1 [of w 255] by (simp add: word_le_nat_alt)

lemma ipv4_text_inject:
  assumes "bs \<noteq> []" and "bs' \<noteq> []" and "ipv4_text bs = ipv4_text bs'"
  shows "bs = bs'"
proof -
  have split: "getline_split (CHR ''.'') [] (ipv4_text cs) = map dec cs" if "cs \<noteq> []" for cs
    using that getline_join [of "map dec cs" "CHR ''.''"] by (auto simp: ipv4_text_def last_map dec_no_dot)
  have "map dec bs = map dec bs'" using split assms by metis
  moreover have "inj dec" by (metis dec_value_dec injI)
  ultimately show ?thesis by (simp add: inj_map_eq_map)
qed

lemma address_bytes_inject: "address_bytes a = address_bytes b \<Longrightarrow> a = b"
proof -
  assume "address_bytes a = address_bytes b"
  then have eq: "a AND mask 8 = b AND mask 8" "drop_bit 8 a AND mask 8 = drop_bit 8 b AND mask 8"
      "drop_bit 16 a AND mask 8 = drop_bit 16 b AND mask 8" "drop_bit 24 a AND mask 8 = drop_bit 24 b AND mask 8"
    by (simp_all add: address_bytes_def low_byte word_unat_eq_iff)
  have byte: "bit w n \<longleftrightarrow> bit (drop_bit k w AND mask 8) (n - k)" if "k \<le> n" "n < k + 8" for w :: "32 word" and n k
    using that by (auto simp: bit_simps)
  show "a = b"
  proof (rule bit_word_eqI)
    fix n
    assume "n < LENGTH(32)"
    then consider "n < 8" | "8 \<le> n" "n < 16" | "16 \<le> n" "n < 24" | "24 \<le> n" "n < 32" by fastforce
    then show "bit a n \<longleftrightarrow> bit b n"
      using byte [of 0 n a] byte [of 0 n b] byte [of 8 n a] byte [of 8 n b] byte [of 16 n a] byte [of 16 n b]
        byte [of 24 n a] byte [of 24 n b] eq by cases simp_all
  qed
qed

text \<open>C38: The text of the address of a client is the dotted form of its four bytes in network order,
  it is an address that the host check of the server accepts, and different addresses have
  different texts.\<close>

theorem client_address:
  "Ipv4ToString w = ipv4_text (address_bytes w) \<and> IsValidIPv4 (Ipv4ToString w) \<and>
     (Ipv4ToString w = Ipv4ToString v \<longleftrightarrow> w = v)"
proof -
  have "length (address_bytes w) = 4" "\<forall>b\<in>set (address_bytes w). b \<le> 255"
    by (simp_all add: address_bytes_def byte_bound)
  then have "IsValidIPv4 (Ipv4ToString w)" by (auto simp: IsValidIPv4_iff_text Ipv4ToString_text)
  moreover have "w = v" if "Ipv4ToString w = Ipv4ToString v"
    by (rule address_bytes_inject, rule ipv4_text_inject) (use that in \<open>simp_all add: address_bytes_def Ipv4ToString_text\<close>)
  ultimately show ?thesis by (auto simp: Ipv4ToString_text)
qed

end
