(* ===== verification/Program_Entry.thy ===== *)
theory Program_Entry
  imports Server_Safety
begin

text \<open>
  The ends of the program: \<open>main\<close> (\<open>main.cpp\<close>), which chooses the configuration, constructs the
  server and runs it, and \<open>Bzero\<close>, the loop over bytes with which a socket address is cleared.
\<close>

subsection \<open>\<open>Bzero\<close>\<close>

text \<open>Memory as bytes by address.\<close>

fun Bzero :: "nat \<Rightarrow> nat \<Rightarrow> (nat \<Rightarrow> 8 word) \<Rightarrow> nat \<Rightarrow> 8 word" where
  "Bzero s1 0 mem = mem"
| "Bzero s1 (Suc n) mem = Bzero (s1 + 1) n (mem(s1 := 0))"

lemma Bzero_bytes: "Bzero s n mem = (\<lambda>a. if s \<le> a \<and> a < s + n then 0 else mem a)"
  by (induction n arbitrary: s mem) (auto intro!: ext)

subsection \<open>\<open>main\<close>\<close>

definition config_path :: "string list \<Rightarrow> string" where
  "config_path argv = (if 1 < length argv then argv ! 1 else ''demo/conf/webserv_eval.conf'')"

text \<open>
  The status with which \<open>main\<close> returns. \<open>Run\<close> has no end of its own, so the only ways out are the
  exceptions of the constructor, of the timeouts and of a turn of the loop, all of which the
  handler of \<open>main\<close> catches; \<open>return 0\<close> cannot be reached.
\<close>

inductive main_returns ::
  "'w os \<Rightarrow> (http_request \<Rightarrow> string \<Rightarrow> http_request) \<Rightarrow> string option \<Rightarrow> string list \<Rightarrow> 'w \<Rightarrow> int \<Rightarrow> bool"
  for os left getcwd argv w where
  start_fails: "Webserv_init os getcwd (config_path argv) (initial_server w) = Some (Inl e, s) \<Longrightarrow>
      main_returns os left getcwd argv w 1"
| timeout_throws: "reachable os left getcwd (config_path argv) w ws s \<Longrightarrow> CheckTimeout os ws s = Some (Inl e, s1) \<Longrightarrow>
      main_returns os left getcwd argv w 1"
| turn_throws: "reachable os left getcwd (config_path argv) w ws s \<Longrightarrow> CheckTimeout os ws s = Some (Inr ws1, s1) \<Longrightarrow>
      may_report (calls s1) reported \<Longrightarrow> Run_turn os left ws1 reported s1 = Some (Inl e, s2) \<Longrightarrow>
      main_returns os left getcwd argv w 1"

inductive_cases main_returns_cases: "main_returns os left getcwd argv w status"



end
