(* ===== verification/Optional_Type.thy ===== *)
theory Optional_Type
  imports Http_Types
begin

text \<open>
  \<open>lib::type::Optional\<close>, a value with a flag. The other theories write such values as \<open>option\<close>; here
  the class is modelled as it is, its contract is a locale, and both the class and \<open>option\<close>
  are instances of it, with \<open>abs_optional\<close> between them.
\<close>

subsection \<open>The class\<close>

record 'a optional =
  opt_value :: 'a
  opt_has :: bool

text \<open>The default constructor leaves the value as the type or the memory gives it.\<close>

definition Optional_empty :: "'a \<Rightarrow> 'a optional" where
  "Optional_empty unset = \<lparr>opt_value = unset, opt_has = False\<rparr>"

definition Optional_of :: "'a \<Rightarrow> 'a optional" where
  "Optional_of v = \<lparr>opt_value = v, opt_has = True\<rparr>"

definition Optional_copy :: "'a optional \<Rightarrow> 'a optional" where
  "Optional_copy other = \<lparr>opt_value = opt_value other, opt_has = opt_has other\<rparr>"

definition Optional_assign :: "'a optional \<Rightarrow> 'a optional \<Rightarrow> 'a optional" where
  "Optional_assign this rhs = this\<lparr>opt_has := opt_has rhs, opt_value := opt_value rhs\<rparr>"

definition Optional_get :: "'a optional \<Rightarrow> exn + 'a" where
  "Optional_get this = (if \<not> opt_has this then Inl BadOptionalAccess else Inr (opt_value this))"

definition ValueOr :: "'a optional \<Rightarrow> 'a \<Rightarrow> 'a" where
  "ValueOr this def = (if opt_has this then opt_value this else def)"

definition HasValue :: "'a optional \<Rightarrow> bool" where
  "HasValue this = opt_has this"

definition Reset :: "'a optional \<Rightarrow> 'a optional" where
  "Reset this = this\<lparr>opt_has := False\<rparr>"

subsection \<open>The contract\<close>

locale optional_value =
  fixes none :: "'o \<Rightarrow> bool" and of_value :: "'a \<Rightarrow> 'o" and get :: "'o \<Rightarrow> exn + 'a"
    and value_or :: "'o \<Rightarrow> 'a \<Rightarrow> 'a" and has :: "'o \<Rightarrow> bool" and reset :: "'o \<Rightarrow> 'o"
  assumes get_of: "get (of_value v) = Inr v"
    and get_none: "none x \<Longrightarrow> get x = Inl BadOptionalAccess"
    and has_get: "has x \<longleftrightarrow> (\<exists>v. get x = Inr v)"
    and or_get: "value_or x d = (case get x of Inl _ \<Rightarrow> d | Inr v \<Rightarrow> v)"
    and none_reset: "none (reset x)"
begin

lemma value_or_of: "value_or (of_value v) d = v"
  by (simp add: or_get get_of)

lemma value_or_reset: "value_or (reset x) d = d"
  by (simp add: or_get get_none [OF none_reset])

lemma has_of: "has (of_value v)" and not_has_reset: "\<not> has (reset x)"
  by (simp_all add: has_get get_of get_none [OF none_reset])

text \<open>A test before the access is enough.\<close>

lemma guarded_get: "has x \<Longrightarrow> get x = Inr (value_or x d)"
  by (auto simp: has_get or_get)

end

lemmas optional_defs = Optional_empty_def Optional_of_def Optional_copy_def Optional_assign_def Optional_get_def
  ValueOr_def HasValue_def Reset_def

interpretation cpp_optional: optional_value "\<lambda>x. \<not> opt_has x" Optional_of Optional_get ValueOr HasValue Reset
  by unfold_locales (simp_all add: optional_defs)

interpretation hol_optional: optional_value "\<lambda>x. x = None" Some Optional_Value
    "\<lambda>x d. case x of None \<Rightarrow> d | Some v \<Rightarrow> v" "\<lambda>x. x \<noteq> None" "\<lambda>_. None"
  by unfold_locales (auto simp: Optional_Value_def split: option.split)

subsection \<open>The class implements \<open>option\<close>\<close>

definition abs_optional :: "'a optional \<Rightarrow> 'a option" where
  "abs_optional x = (if opt_has x then Some (opt_value x) else None)"

theorem optional_refines:
  "abs_optional (Optional_empty unset) = None" "abs_optional (Optional_of v) = Some v"
  "abs_optional (Optional_copy x) = abs_optional x" "abs_optional (Optional_assign y x) = abs_optional x"
  "abs_optional (Reset x) = None" "Optional_get x = Optional_Value (abs_optional x)"
  "ValueOr x d = (case abs_optional x of None \<Rightarrow> d | Some v \<Rightarrow> v)" "HasValue x \<longleftrightarrow> abs_optional x \<noteq> None"
  by (simp_all add: abs_optional_def optional_defs Optional_Value_def)

end
