(* ===== verification/Request_Interface.thy ===== *)
theory Request_Interface
  imports Http_Request_Parse
begin

text \<open>
  The accessors of \<open>HttpRequest\<close> and the hooks that the tests of the parser use. The other theories
  read and write the fields themselves; here is what the public interface shows of an accepted
  request, and that bytes appended by a hook are parsed as if \<open>Parse\<close> had been given them.
\<close>

subsection \<open>Accessors and hooks\<close>

definition GetMethod :: "http_request \<Rightarrow> http_method" where "GetMethod r = rq_method r"
definition SetMethod :: "http_method \<Rightarrow> http_request \<Rightarrow> http_request" where "SetMethod m r = r\<lparr>rq_method := m\<rparr>"
definition GetUri :: "http_request \<Rightarrow> string" where "GetUri r = rq_uri r"
definition SetUri :: "string \<Rightarrow> http_request \<Rightarrow> http_request" where "SetUri uri r = r\<lparr>rq_uri := uri\<rparr>"
definition GetQuery :: "http_request \<Rightarrow> string" where "GetQuery r = rq_query_string r"
definition GetHostName :: "http_request \<Rightarrow> string" where "GetHostName r = rq_host_name r"
definition GetHostPort :: "http_request \<Rightarrow> 16 word" where "GetHostPort r = rq_host_port r"
definition GetVersion :: "http_request \<Rightarrow> string" where "GetVersion r = rq_version r"
definition GetHeaders :: "http_request \<Rightarrow> (string, string) std_map" where "GetHeaders r = rq_headers r"
definition GetBody :: "http_request \<Rightarrow> string" where "GetBody r = rq_body r"
definition GetContentLength :: "http_request \<Rightarrow> int" where "GetContentLength r = rq_content_length r"
definition IsKeepAlive :: "http_request \<Rightarrow> bool" where "IsKeepAlive r = rq_keep_alive r"
definition GetClientIp :: "http_request \<Rightarrow> string" where "GetClientIp r = rq_client_ip r"
definition GetServerMaxBodySize :: "http_request \<Rightarrow> nat" where "GetServerMaxBodySize r = rq_max_body_size_limit r"
definition GetState :: "http_request \<Rightarrow> parser_state" where "GetState r = sp_state r"
definition GetBufferForTest :: "http_request \<Rightarrow> string" where "GetBufferForTest r = sp_buffer r"
definition SetBufferForTest :: "string \<Rightarrow> http_request \<Rightarrow> http_request" where "SetBufferForTest s r = r\<lparr>sp_buffer := s\<rparr>"
definition AppendToBufferForTest :: "string \<Rightarrow> http_request \<Rightarrow> http_request" where
  "AppendToBufferForTest s r = r\<lparr>sp_buffer := sp_buffer r @ s\<rparr>"
definition SetContentLengthForTest :: "int \<Rightarrow> http_request \<Rightarrow> http_request" where
  "SetContentLengthForTest len r = r\<lparr>rq_content_length := len\<rparr>"
definition SetStateForTest :: "parser_state \<Rightarrow> http_request \<Rightarrow> http_request" where
  "SetStateForTest p r = r\<lparr>sp_state := p\<rparr>"

lemmas request_accessors = GetMethod_def GetUri_def GetQuery_def GetHostName_def GetHostPort_def GetVersion_def
  GetHeaders_def GetBody_def GetContentLength_def IsKeepAlive_def GetClientIp_def GetServerMaxBodySize_def GetState_def

subsection \<open>What they show\<close>

text \<open>What the public interface shows of a request that was accepted.\<close>

theorem accepted_request_shows:
  assumes "limit < 2 ^ 63" and "HttpRequest_Parse (fresh_request limit ip) data = Some (Inr r)" and "IsDone r"
  obtains m path query v kvs name port n keep body rest
  where "request_bytes limit m path query v kvs name port n keep body rest data"
    and "GetMethod r = m" and "GetUri r = path" and "GetQuery r = (case query of None \<Rightarrow> [] | Some q \<Rightarrow> q)"
    and "GetVersion r = v" and "GetHostName r = name" and "GetHostPort r = port" and "IsKeepAlive r = keep"
    and "GetBody r = body" and "GetState r = kDone" and "GetClientIp r = ip" and "GetServerMaxBodySize r = limit"
proof -
  obtain m path query v kvs name port n keep body rest
    where "request_bytes limit m path query v kvs name port n keep body rest data"
      and "r = the_request limit ip m path query v kvs name port n keep body rest"
    using request_language_lemma [OF assms(1), of ip data r] assms(2,3) by blast
  then show thesis by (intro that) (assumption | simp add: request_accessors the_request_def)+
qed

text \<open>Bytes that a test appends are parsed as if \<open>Parse\<close> had been given them.\<close>

theorem append_hook:
  "sp_state r \<noteq> kDone \<Longrightarrow> HttpRequest_Parse (AppendToBufferForTest s r) data = HttpRequest_Parse r (s @ data)"
  by (simp add: AppendToBufferForTest_def HttpRequest_Parse_def Parse_def append_data_def)

end
