(* ===== verification/Config_Interface.thy ===== *)
theory Config_Interface
  imports Server_Config
begin

text \<open>
  The accessors of \<open>Location\<close> and \<open>ServerConfig\<close>. The other theories read the fields themselves.
\<close>

subsection \<open>\<open>Location\<close>\<close>

definition GetMethods :: "location \<Rightarrow> http_method set" where "GetMethods l = set (map fst (loc_methods l))"
definition GetName :: "location \<Rightarrow> string" where "GetName l = loc_name l"
definition GetRoot :: "location \<Rightarrow> string" where "GetRoot l = loc_root l"
definition GetAutoIndex :: "location \<Rightarrow> bool" where "GetAutoIndex l = loc_autoindex l"
definition GetIndexFile :: "location \<Rightarrow> string" where "GetIndexFile l = loc_index_file l"
definition GetUploadPath :: "location \<Rightarrow> string" where "GetUploadPath l = loc_upload_path l"
definition GetRedirect :: "location \<Rightarrow> string" where "GetRedirect l = loc_redirect l"
definition GetRedirectStatus :: "location \<Rightarrow> status" where "GetRedirectStatus l = loc_redirect_status l"
definition GetCgiEnabled :: "location \<Rightarrow> bool" where "GetCgiEnabled l = loc_cgi_enabled l"
definition GetCgiAllowedExtensions :: "location \<Rightarrow> string list" where "GetCgiAllowedExtensions l = loc_cgi_allowed_extensions l"
definition HasAllowedMethods :: "location \<Rightarrow> bool" where "HasAllowedMethods l = loc_has_allowed_methods l"
definition HasRedirect :: "location \<Rightarrow> bool" where "HasRedirect l = loc_has_redirect l"
definition HasCgiAllowedExtensions :: "location \<Rightarrow> bool" where "HasCgiAllowedExtensions l = loc_has_cgi_allowed_extensions l"

subsection \<open>\<open>ServerConfig\<close>\<close>

definition GetHost :: "server_config \<Rightarrow> string" where "GetHost c = sc_host c"
definition GetPort :: "server_config \<Rightarrow> 16 word" where "GetPort c = sc_port c"
definition GetServerName :: "server_config \<Rightarrow> string" where "GetServerName c = sc_server_name c"
definition GetMaxBodySize :: "server_config \<Rightarrow> int" where "GetMaxBodySize c = sc_max_body_size c"
definition GetErrorPages :: "server_config \<Rightarrow> (status, string) std_map" where "GetErrorPages c = sc_errors c"
definition GetLocations :: "server_config \<Rightarrow> location list" where "GetLocations c = sc_locations c"

text \<open>A line per error page, for the debugging output.\<close>

definition GetErrorPagesString :: "server_config \<Rightarrow> string" where
  "GetErrorPagesString c =
     concat (map (\<lambda>(st, path). ''    '' @ ToString_int (status_code st) @ '' -> '' @ path @ [LF]) (sc_errors c))"

text \<open>The two ways to ask for the methods of a location agree.\<close>

theorem methods_agree: "map_wf (loc_methods l) \<Longrightarrow> m \<in> GetMethods l \<longleftrightarrow> IsMethodAllowed l m"
  by (auto simp: GetMethods_def IsMethodAllowed_def map_has_def map_get_wf intro: rev_image_eqI)

end
