(* ===== verification/Spec2Isabelle.thy ===== *)
theory Spec2Isabelle
  imports Config_Parser Cgi_Response_Parser Sessions Isolation Client_Address Program_Entry
    Optional_Type Request_Interface Config_Interface
begin

text \<open>
  A verification development for \<open>42_webserver\<close>, an HTTP/1.1 server in C++98 with one thread and
  one \<open>epoll\<close> loop. The theories follow the program from its bytes to its loop.

  \<^bold>\<open>The program.\<close> \<open>Webserv\<close> (\<open>srcs/Webserv.cpp\<close>) reads a configuration, opens a listening
  \<open>ServerSocket\<close> per port, and then, turn by turn, handles timeouts and the events that
  \<open>epoll_wait\<close> reports. An event of a \<open>ServerSocket\<close> accepts a connection, a \<open>ClientSocket\<close>. Its
  bytes go to an \<open>HttpRequest\<close>, a state machine on top of \<open>StreamParser\<close>. A request that is
  complete goes to a \<open>RequestHandler\<close>, which finds the \<open>Location\<close> of the \<open>ServerConfig\<close>, maps the
  URI to a path below the document root (\<open>FileValidator\<close>), and reads, stores or deletes a file
  or lets \<open>CgiExecutor\<close> start a program. The output of a program arrives at a \<open>CgiSocket\<close> and at
  its end becomes, by \<open>CgiResponseParser\<close>, the \<open>HttpResponse\<close> of the client that owns it.

  \<^bold>\<open>Theories and sources\<close> (under \<open>src/srcs\<close>, headers under \<open>src/includes\<close>).
  \<^item> \<open>Webserv_Prelude\<close>: the C++ strings, \<open>size_t\<close> arithmetic and error results that all parts share;
    \<open>Std_Map\<close>: \<open>std::map\<close>, with the interface as the locale \<open>ordered_map\<close>.
  \<^item> \<open>Http_Types\<close>: \<open>lib/http\<close>, \<open>lib/exception\<close>; \<open>String_Utils\<close>: \<open>lib/utils/string_utils.cpp\<close>;
    \<open>Host_Validation\<close>: \<open>http_request/host_validation.cpp\<close>; \<open>File_Validator\<close>: \<open>FileValidator.cpp\<close>.
  \<^item> \<open>Optional_Type\<close>: \<open>lib/type/Optional.hpp\<close>, which the other theories write as \<open>option\<close>;
    \<open>Request_Interface\<close>, \<open>Config_Interface\<close>: the accessors of \<open>HttpRequest.hpp\<close>, \<open>Location.hpp\<close> and
    \<open>ServerConfig.hpp\<close>, which the other theories write as fields.
  \<^item> \<open>Stream_Parser\<close>: \<open>lib/parser/StreamParser.cpp\<close>, its virtual functions as parameters, their
    contract as a locale; \<open>Http_Request\<close>, \<open>Http_Request_Body\<close>: \<open>HttpRequest.cpp\<close> and
    \<open>http_request/\<close>; \<open>Http_Request_Parse\<close>: the language of requests;
    \<open>Cgi_Response_Parser\<close>: \<open>CgiResponseParser.cpp\<close>.
  \<^item> \<open>Http_Response\<close>: \<open>HttpResponse.cpp\<close>; \<open>Server_Config\<close>: \<open>ServerConfig.cpp\<close>, \<open>location.cpp\<close> and
    the routing; \<open>Config_Parser\<close>: \<open>ConfigParser.cpp\<close> and \<open>config_parser/\<close>.
  \<^item> \<open>Operating_System\<close>: the system calls, a record that every function of the server takes, and the
    log of the calls made; \<open>File_Utils\<close>: \<open>lib/utils/file_utils.cpp\<close>; \<open>Socket_Base\<close>:
    \<open>lib/type/Fd.cpp\<close>, \<open>socket/ASocket.cpp\<close>; \<open>Memory_Os\<close>: a small concrete system for witnesses.
  \<^item> \<open>Cgi_Executor\<close>, \<open>Request_Handler\<close>: the sources of the same name; \<open>Handler_Safety\<close>,
    \<open>Handler_Descriptors\<close>: what a handler calls, returns and does to descriptors.
  \<^item> \<open>Socket_Heap\<close>: the objects in a heap, functions that may use a dangling pointer, and \<open>wp\<close>, total
    correctness for them; \<open>Sockets\<close>: \<open>socket/*.cpp\<close>; \<open>Event_Loop\<close>: \<open>Webserv.cpp\<close>, with the
    reachable states of the server as an inductive predicate.
  \<^item> \<open>Heap_Invariant\<close>, \<open>Socket_Safety\<close>, \<open>Event_Loop_Invariant\<close>, \<open>Event_Loop_Safety\<close>,
    \<open>Server_Safety\<close>: the invariant, each method keeps it, the loop keeps it, construction
    establishes it, and what follows for the running server; \<open>Client_Answers\<close>,
    \<open>Client_Address\<close>: what reaches a client, and what its address is called; \<open>End_To_End\<close>: parser,
    handler, response and delivery put together, from the bytes of a request to those of its answer;
    \<open>Sessions\<close>: a connection over the turns of the loop, to its end; \<open>Frames\<close>, \<open>Isolation\<close>: what an event
    leaves alone, and what the check of the timeouts removes;
    \<open>Program_Entry\<close>: \<open>main.cpp\<close>, \<open>lib/utils/Bzero.cpp\<close>.

  \<^bold>\<open>What is shown.\<close> The parsers accept exactly the languages that are written down beside them, in
  one piece or in many, always return, and fail only with the statuses listed. Accepted
  configurations are well-formed, and routing is the longest matching prefix. A handler touches
  no file outside the document root of its location, loses no descriptor, and answers every
  request; what is stored is served and what is deleted is gone. No response can be split. In
  every reachable state of the server the loop uses no deleted object and lets no exception out,
  \<open>sockets_\<close> and the open descriptors are exactly those of the live objects, \<open>epoll\<close> holds no
  dangling pointer, client and program point to each other, and only responses are sent; start-up
  that fails and shutdown release everything; a response is delivered while the network takes
  bytes, and the end of a program reaches its client. End to end: whatever pieces a request comes
  in, a file that is asked for is sent with its content, a request that breaks a rule is answered
  with the status of the rule, a request for a program starts it as the client's own, and a silent
  client is sent status 408. After its response a connection
  is deleted, closed and forgotten, and so is its program. A turn changes no object but those that
  something was reported for and their partners, and the timeouts remove exactly the objects
  that were silent for too long. The program ends only when its start fails.

  \<^bold>\<open>Choices.\<close> Exceptions are values (\<open>exn + 'a\<close>), system calls are fields of a record, and what a
  property needs of them is a hypothesis (\<open>file_system\<close>, \<open>os_ok\<close>, \<open>network\<close>, \<open>watches\<close>). \<open>fresh_log\<close> says
  that no descriptor is handed out while it is open; closing one ends its registration with
  \<open>epoll\<close>, which holds as long as no child process has it too. \<open>epoll_wait\<close> may report any
  registered pointers, each once, at most \<open>kMaxEvents\<close>. Addresses are not used twice, so a dangling
  pointer stays dangling. Sizes are \<open>size_t\<close> with wrap-around where the sources compute with
  them. \<open>parse_loop\<close> is a partial function, and that \<open>Parse\<close> returns is a theorem; there is no fuel
  anywhere. Further parameters: \<open>getcwd\<close>, the clock, and \<open>left\<close>, the request that a failed
  \<open>Parse\<close> leaves.

  \<^bold>\<open>Not modelled.\<close> The messages on the standard streams and \<open>strerror\<close> in them, \<open>signal\<close>, what the kernel
  does between calls, and \<open>EscapeForDebug\<close>, which serves a log that is switched off. \<open>demo\<close>, \<open>sample_config\<close> and
  \<open>tester\<close> hold no code of the server.
\<close>

end
